(* ===== verification/Prelude.thy ===== *)
theory Prelude
  imports Main "HOL-Library.Word" "HOL-Library.AList"
begin

text \<open>
  Shared vocabulary of the development: Go's byte strings and fixed-width integers, the
  big-endian encodings of \<^verbatim>\<open>encoding/binary\<close>, the decimal printing of \<^verbatim>\<open>strconv\<close>, and the
  list lemmas that several components use. The collection \<open>go_simps\<close> gathers the equations
  that component proofs pass to the simplifier; the locale \<open>codec\<close> is the interface between a
  record format and the loops that read a file of such records.
\<close>

named_theorems go_simps \<open>equations of the Go runtime model\<close>

section \<open>Types\<close>

type_synonym byte = "8 word"
type_synonym bytes = "byte list"
type_synonym u8 = "8 word"
type_synonym u32 = "32 word"
type_synonym u64 = "64 word"

text \<open>A Go \<^verbatim>\<open>int64\<close> that is written to a file is kept as its 64-bit pattern.\<close>

type_synonym i64 = "64 word"

text \<open>
  Instants and durations are integers in nanoseconds, as \<^verbatim>\<open>time.Duration\<close> counts them;
  \<open>Unix\<close> is \<^verbatim>\<open>time.Time.Unix\<close>, the seconds since the epoch.
\<close>

type_synonym time = int

definition Unix :: "time \<Rightarrow> int" where
  "Unix t = t div 1000000000"

section \<open>How a call ends\<close>

text \<open>
  A call of a Go function returns, or waits for ever (a lock it can never get), or panics.
\<close>

datatype 'a call = Returns 'a | Blocks | Panics

fun bind_call :: "'a call \<Rightarrow> ('a \<Rightarrow> 'b call) \<Rightarrow> 'b call" where
  "bind_call (Returns x) f = f x"
| "bind_call Blocks f = Blocks"
| "bind_call Panics f = Panics"

lemma bind_call_Returns: "bind_call m f = Returns y \<longleftrightarrow> (\<exists>x. m = Returns x \<and> f x = Returns y)"
  by (cases m) auto

section \<open>Unsigned 64-bit arithmetic on naturals\<close>

text \<open>
  Counters that only index and compare (Raft terms and log indices, read offsets) are naturals
  with the wrap-around of \<^verbatim>\<open>uint64\<close> written out.
\<close>

definition u64_add :: "nat \<Rightarrow> nat \<Rightarrow> nat" where
  "u64_add a b = (a + b) mod 2 ^ 64"

definition u64_sub :: "nat \<Rightarrow> nat \<Rightarrow> nat" where
  "u64_sub a b = (if b \<le> a then a - b else 2 ^ 64 + a - b)"

text \<open>The conversion \<^verbatim>\<open>uint64(i)\<close> of a Go \<^verbatim>\<open>int\<close>.\<close>

definition u64_of_int :: "int \<Rightarrow> nat" where
  "u64_of_int i = nat (i mod 2 ^ 64)"

lemma u64_add_exact [go_simps]: "a + b < 2 ^ 64 \<Longrightarrow> u64_add a b = a + b"
  by (simp add: u64_add_def)

lemma u64_add_less: "u64_add a b < 2 ^ 64"
  by (simp add: u64_add_def)

lemma u64_sub_exact [go_simps]: "b \<le> a \<Longrightarrow> u64_sub a b = a - b"
  by (simp add: u64_sub_def)

lemma u64_of_int_exact [go_simps]: "i < 2 ^ 64 \<Longrightarrow> u64_of_int (int i) = i"
  by (simp add: u64_of_int_def zmod_int nat_mod_as_int [symmetric])

section \<open>Byte strings\<close>

text \<open>A Go string is a sequence of bytes; \<open>string\<close> has one \<open>char\<close> for each byte.\<close>

definition str_bytes :: "string \<Rightarrow> bytes" where
  "str_bytes s = map of_char s"

definition bytes_str :: "bytes \<Rightarrow> string" where
  "bytes_str bs = map (\<lambda>b. char_of (unat b)) bs"

lemma of_char_less_256: "(of_char c :: nat) < 256"
  by (metis mod_less_divisor of_char_mod_256 zero_less_numeral)

lemma unat_of_char: "unat (of_char c :: byte) = of_char c"
proof -
  have "unat (of_nat (of_char c) :: byte) = of_char c"
    by (simp add: unat_of_nat)
  then show ?thesis by (simp add: of_nat_of_char)
qed

lemma bytes_str_bytes [simp, go_simps]: "bytes_str (str_bytes s) = s"
  by (simp add: bytes_str_def str_bytes_def unat_of_char comp_def)

lemma str_bytes_str [simp, go_simps]: "str_bytes (bytes_str bs) = bs"
proof -
  have "of_char (char_of (unat b)) = b" for b :: byte
  proof -
    have "unat b mod 256 = unat b" using unsigned_less [where 'a = nat, of b] by simp
    then have "of_char (char_of (unat b)) = unat b" by simp
    then show ?thesis by (metis of_nat_of_char of_nat_unat ucast_id)
  qed
  then show ?thesis by (simp add: bytes_str_def str_bytes_def comp_def)
qed

lemma length_str_bytes [simp]: "length (str_bytes s) = length s"
  by (simp add: str_bytes_def)

lemma length_bytes_str [simp]: "length (bytes_str bs) = length bs"
  by (simp add: bytes_str_def)

section \<open>Big-endian encodings\<close>

text \<open>
  \<open>be_bytes n x\<close> are the \<open>n\<close> bytes that \<^verbatim>\<open>binary.Write(_, binary.BigEndian, x)\<close> writes for an
  \<open>n\<close>-byte integer, \<open>be_value\<close> the number \<^verbatim>\<open>binary.BigEndian\<close> reads back.
\<close>

fun be_bytes :: "nat \<Rightarrow> nat \<Rightarrow> bytes" where
  "be_bytes 0 x = []"
| "be_bytes (Suc n) x = word_of_nat (x div 256 ^ n) # be_bytes n x"

fun be_value :: "bytes \<Rightarrow> nat" where
  "be_value [] = 0"
| "be_value (b # bs) = unat b * 256 ^ length bs + be_value bs"

lemma length_be_bytes [simp]: "length (be_bytes n x) = n"
  by (induction n) auto

lemma be_value_be_bytes: "be_value (be_bytes n x) = x mod 256 ^ n"
proof (induction n)
  case (Suc n)
  have "unat (word_of_nat (x div 256 ^ n) :: byte) = x div 256 ^ n mod 256"
    by (simp add: unat_of_nat)
  then show ?case
    using mod_mult2_eq [of x "256 ^ n" 256] Suc.IH by (simp add: mult.commute)
qed simp

lemma be_value_less: "be_value bs < 256 ^ length bs"
proof (induction bs)
  case (Cons b bs)
  have "unat b + 1 \<le> 256"
    using unsigned_less [where 'a = nat, of b] by simp
  then have le: "(unat b + 1) * 256 ^ length bs \<le> 256 * 256 ^ length bs"
    by (rule mult_le_mono1)
  have "be_value (b # bs) < (unat b + 1) * 256 ^ length bs"
    using Cons.IH by simp
  also note le
  finally show ?case by simp
qed simp

lemma be_value_inject: "length as = length bs \<Longrightarrow> be_value as = be_value bs \<longleftrightarrow> as = bs"
proof (induction as bs rule: list_induct2)
  case (Cons a as b bs)
  have "be_value as < 256 ^ length bs" "be_value bs < 256 ^ length bs"
    using be_value_less [of as] be_value_less [of bs] Cons.hyps by simp_all
  then have "be_value (a # as) = be_value (b # bs) \<longleftrightarrow> unat a = unat b \<and> be_value as = be_value bs"
    using Cons.hyps
    by (auto dest: arg_cong [where f = "\<lambda>n. n div 256 ^ length bs"] arg_cong [where f = "\<lambda>n. n mod 256 ^ length bs"])
  then show ?case using Cons.IH by (simp add: word_unat_eq_iff)
qed simp

lemma be_bytes_be_value: "length bs = n \<Longrightarrow> be_bytes n (be_value bs) = bs"
  using be_value_less [of bs] by (simp add: be_value_be_bytes flip: be_value_inject)

definition put_u32 :: "u32 \<Rightarrow> bytes" where
  "put_u32 w = be_bytes 4 (unat w)"

definition put_u64 :: "u64 \<Rightarrow> bytes" where
  "put_u64 w = be_bytes 8 (unat w)"

definition get_u32 :: "bytes \<Rightarrow> u32" where
  "get_u32 bs = word_of_nat (be_value (take 4 bs))"

definition get_u64 :: "bytes \<Rightarrow> u64" where
  "get_u64 bs = word_of_nat (be_value (take 8 bs))"

lemma length_put_u32 [simp]: "length (put_u32 w) = 4"
  by (simp add: put_u32_def)

lemma length_put_u64 [simp]: "length (put_u64 w) = 8"
  by (simp add: put_u64_def)

lemma get_put_u32 [simp, go_simps]: "get_u32 (put_u32 w @ r) = w"
proof -
  have "unat w < 256 ^ 4" using unsigned_less [where 'a = nat, of w] by simp
  then show ?thesis by (simp add: get_u32_def put_u32_def be_value_be_bytes)
qed

lemma get_put_u64 [simp, go_simps]: "get_u64 (put_u64 w @ r) = w"
proof -
  have "unat w < 256 ^ 8" using unsigned_less [where 'a = nat, of w] by simp
  then show ?thesis by (simp add: get_u64_def put_u64_def be_value_be_bytes)
qed

lemma put_get_u32 [go_simps]: "4 \<le> length bs \<Longrightarrow> put_u32 (get_u32 bs) = take 4 bs"
proof -
  assume "4 \<le> length bs"
  then have len: "length (take 4 bs) = 4" by simp
  with be_value_less [of "take 4 bs"] have "be_value (take 4 bs) < 2 ^ 32" by simp
  then show ?thesis
    using be_bytes_be_value [OF len] by (simp add: put_u32_def get_u32_def unat_of_nat)
qed

lemma put_get_u64 [go_simps]: "8 \<le> length bs \<Longrightarrow> put_u64 (get_u64 bs) = take 8 bs"
proof -
  assume "8 \<le> length bs"
  then have len: "length (take 8 bs) = 8" by simp
  with be_value_less [of "take 8 bs"] have "be_value (take 8 bs) < 2 ^ 64" by simp
  then show ?thesis
    using be_bytes_be_value [OF len] by (simp add: put_u64_def get_u64_def unat_of_nat)
qed

lemma put_u32_nonempty [simp]: "put_u32 w \<noteq> []"
  using length_put_u32 [of w] by force

lemma put_u64_nonempty [simp]: "put_u64 w \<noteq> []"
  using length_put_u64 [of w] by force

text \<open>\<^verbatim>\<open>io.ReadFull\<close> of \<open>n\<close> bytes from the rest of a file: all of them, or an error.\<close>

definition read_full :: "nat \<Rightarrow> bytes \<Rightarrow> (bytes \<times> bytes) option" where
  "read_full n bs = (if n \<le> length bs then Some (take n bs, drop n bs) else None)"

lemma read_full_append [simp, go_simps]: "length a = n \<Longrightarrow> read_full n (a @ r) = Some (a, r)"
  by (simp add: read_full_def)

lemma read_full_short [simp]: "length bs < n \<Longrightarrow> read_full n bs = None"
  by (simp add: read_full_def)

lemma read_full_length: "read_full n bs = Some (a, r) \<Longrightarrow> length bs = n + length r"
  by (auto simp: read_full_def split: if_splits)

section \<open>Decimal numbers\<close>

definition digit_char :: "nat \<Rightarrow> char" where
  "digit_char d = char_of (48 + d)"

text \<open>\<^verbatim>\<open>strconv.Itoa\<close>, \<^verbatim>\<open>FormatUint(_, 10)\<close> and \<^verbatim>\<open>%d\<close> on a number that is not negative.\<close>

fun itoa :: "nat \<Rightarrow> string" where
  "itoa n = (if n < 10 then [digit_char n] else itoa (n div 10) @ [digit_char (n mod 10)])"

declare itoa.simps [simp del]

definition char_digit :: "char \<Rightarrow> nat" where
  "char_digit c = of_char c - 48"

definition atoi :: "string \<Rightarrow> nat" where
  "atoi s = foldl (\<lambda>a c. 10 * a + char_digit c) 0 s"

lemma char_digit_digit [simp]: "d < 10 \<Longrightarrow> char_digit (digit_char d) = d"
  by (simp add: char_digit_def digit_char_def)

lemma atoi_snoc [simp]: "atoi (s @ [c]) = 10 * atoi s + char_digit c"
  by (simp add: atoi_def)

lemma atoi_itoa [simp]: "atoi (itoa n) = n"
proof (induction n rule: itoa.induct)
  case (1 n)
  show ?case
  proof (cases "n < 10")
    case True
    then show ?thesis by (simp add: itoa.simps [of n] atoi_def)
  next
    case False
    with "1.IH" show ?thesis by (simp add: itoa.simps [of n])
  qed
qed

lemma itoa_inject [simp]: "itoa m = itoa n \<longleftrightarrow> m = n"
  by (metis atoi_itoa)

lemma itoa_nonempty [simp]: "itoa n \<noteq> []"
  by (subst itoa.simps) simp

lemma of_digit_char: "d < 10 \<Longrightarrow> of_char (digit_char d) = 48 + d"
  by (simp add: digit_char_def)

lemma itoa_digits: "c \<in> set (itoa n) \<Longrightarrow> \<exists>d < 10. c = digit_char d"
proof (induction n rule: itoa.induct)
  case (1 n)
  then show ?case
    by (cases "n < 10") (auto simp: itoa.simps [of n] intro: exI [of _ n] exI [of _ "n mod 10"])
qed

lemma itoa_no_slash: "CHR ''/'' \<notin> set (itoa n)"
proof
  assume "CHR ''/'' \<in> set (itoa n)"
  then obtain d where "d < 10" "CHR ''/'' = digit_char d" using itoa_digits by blast
  then have "(of_char (CHR ''/'') :: nat) = 48 + d" using of_digit_char [of d] by simp
  then show False by simp
qed

section \<open>Lists\<close>

text \<open>Replacing the last element, as a write through the pointer to it does.\<close>

definition set_last :: "'a list \<Rightarrow> 'a \<Rightarrow> 'a list" where
  "set_last xs x = butlast xs @ [x]"

lemma set_last_snoc [simp]: "set_last (xs @ [y]) x = xs @ [x]"
  by (simp add: set_last_def)

lemma length_set_last [simp]: "xs \<noteq> [] \<Longrightarrow> length (set_last xs x) = length xs"
  by (simp add: set_last_def)

lemma concat_map_snoc: "concat (map f (xs @ [x])) = concat (map f xs) @ f x"
  by simp

lemma take_drop_append:
  "take l (drop k (xs @ ys)) = take l (drop k xs) @ take (l - (length xs - k)) (drop (k - length xs) ys)"
  by simp

section \<open>Record formats and the loops that read them\<close>

text \<open>
  \<open>dec_all dec n bs\<close> decodes records from \<open>bs\<close> until one cannot be decoded, at most \<open>n\<close> of
  them.
\<close>

fun dec_all :: "(bytes \<Rightarrow> ('a \<times> bytes) option) \<Rightarrow> nat \<Rightarrow> bytes \<Rightarrow> 'a list" where
  "dec_all dec 0 bs = []"
| "dec_all dec (Suc n) bs = (case dec bs of None \<Rightarrow> [] | Some (x, r) \<Rightarrow> x # dec_all dec n r)"

text \<open>
  A record format: what a decoder must satisfy for a file of encoded records to be read back.
  \<open>ok\<close> says which records the encoder represents exactly.
\<close>

locale codec =
  fixes enc :: "'a \<Rightarrow> bytes"
    and dec :: "bytes \<Rightarrow> ('a \<times> bytes) option"
    and ok :: "'a \<Rightarrow> bool"
  assumes dec_enc: "ok x \<Longrightarrow> dec (enc x @ r) = Some (x, r)"
    and dec_nil: "dec [] = None"
begin

lemma enc_nonempty: "ok x \<Longrightarrow> enc x \<noteq> []"
  using dec_enc [of x "[]"] dec_nil by auto

lemma enc_inject: "ok x \<Longrightarrow> ok y \<Longrightarrow> enc x = enc y \<longleftrightarrow> x = y"
  by (metis dec_enc option.inject prod.inject)

lemma dec_all_concat:
  "\<forall>x \<in> set xs. ok x \<Longrightarrow> length xs \<le> n \<Longrightarrow> dec_all dec n (concat (map enc xs)) = xs"
proof (induction xs arbitrary: n)
  case Nil
  then show ?case by (cases n) (simp_all add: dec_nil)
next
  case (Cons x xs)
  then obtain m where "n = Suc m" by (cases n) auto
  with Cons show ?case by (simp add: dec_enc)
qed

lemma length_le_concat: "\<forall>x \<in> set xs. ok x \<Longrightarrow> length xs \<le> length (concat (map enc xs))"
proof (induction xs)
  case (Cons x xs)
  then have "enc x \<noteq> []" and "length xs \<le> length (concat (map enc xs))"
    using enc_nonempty by auto
  then show ?case by (cases "enc x") auto
qed simp

lemma concat_inject:
  assumes "\<forall>x \<in> set xs. ok x" and "\<forall>y \<in> set ys. ok y"
    and "concat (map enc xs) = concat (map enc ys)"
  shows "xs = ys"
  by (metis assms dec_all_concat max.cobounded1 max.cobounded2)

end

interpretation u32_codec: codec put_u32 "\<lambda>bs. map_option (\<lambda>(a, r). (get_u32 a, r)) (read_full 4 bs)" "\<lambda>_. True"
  using get_put_u32 [where r = "[]"] by unfold_locales auto

interpretation u64_codec: codec put_u64 "\<lambda>bs. map_option (\<lambda>(a, r). (get_u64 a, r)) (read_full 8 bs)" "\<lambda>_. True"
  using get_put_u64 [where r = "[]"] by unfold_locales auto

end
