(* ===== verification/FileSys.thy ===== *)
theory FileSys
  imports Prelude
begin

text \<open>
  The part of Go's \<^verbatim>\<open>os\<close> and \<^verbatim>\<open>path/filepath\<close> packages that the storage engine uses. Paths
  follow \<^verbatim>\<open>filepath.Clean\<close> and \<^verbatim>\<open>filepath.Join\<close>. A file system has directory entries, which
  map a path to an inode, and inode contents; an open file keeps its inode and its write
  offset, so that truncating, removing or renaming over a path under an open file behaves as it
  does on a POSIX system. Every call that may fail consumes one tick, and the plan \<open>faults\<close>
  decides which ticks fail: \<open>Some k\<close> fails the call, a write after \<open>k\<close> bytes reached the file.
  Directories exist implicitly; \<^verbatim>\<open>MkdirAll\<close> can only fail by a fault.
\<close>

section \<open>Paths\<close>

fun split_path :: "string \<Rightarrow> string list" where
  "split_path [] = [[]]"
| "split_path (c # cs) =
     (if c = CHR ''/'' then [] # split_path cs
      else (case split_path cs of [] \<Rightarrow> [[c]] | p # ps \<Rightarrow> (c # p) # ps))"

fun join_path :: "string list \<Rightarrow> string" where
  "join_path [] = []"
| "join_path [p] = p"
| "join_path (p # ps) = p @ ''/'' @ join_path ps"

text \<open>One element of a path, pushed on the reversed list of the elements kept so far.\<close>

fun clean_step :: "bool \<Rightarrow> string list \<Rightarrow> string \<Rightarrow> string list" where
  "clean_step rooted st p =
     (if p = [] \<or> p = ''.'' then st
      else if p = ''..'' then
        (case st of
           [] \<Rightarrow> (if rooted then [] else [''..''])
         | q # qs \<Rightarrow> (if q = ''..'' then ''..'' # st else qs))
      else p # st)"

definition filepath_Clean :: "string \<Rightarrow> string" where
  "filepath_Clean s =
     (if s = [] then ''.''
      else let rooted = (hd s = CHR ''/'');
               body = join_path (rev (foldl (clean_step rooted) [] (split_path s)))
           in if rooted then CHR ''/'' # body
              else if body = [] then ''.'' else body)"

definition filepath_Join :: "string list \<Rightarrow> string" where
  "filepath_Join es =
     (case dropWhile (\<lambda>e. e = []) es of
        [] \<Rightarrow> []
      | es' \<Rightarrow> filepath_Clean (join_path es'))"

definition filepath_Dir :: "string \<Rightarrow> string" where
  "filepath_Dir s = filepath_Clean (rev (dropWhile (\<lambda>c. c \<noteq> CHR ''/'') (rev s)))"

text \<open>A plain path element: not empty, no separator, and not one of the two dot names.\<close>

definition plain :: "string \<Rightarrow> bool" where
  "plain p \<longleftrightarrow> p \<noteq> [] \<and> CHR ''/'' \<notin> set p \<and> p \<noteq> ''.'' \<and> p \<noteq> ''..''"

lemma split_path_nonempty [simp]: "split_path s \<noteq> []"
  by (induction s) (auto split: list.splits)

lemma split_path_noslash: "CHR ''/'' \<notin> set s \<Longrightarrow> split_path s = [s]"
  by (induction s) auto

lemma split_path_append: "split_path (a @ CHR ''/'' # b) = split_path a @ split_path b"
  by (induction a) (auto split: list.splits)

lemma join_path_snoc: "xs \<noteq> [] \<Longrightarrow> join_path (xs @ [p]) = join_path xs @ ''/'' @ p"
  by (induction xs rule: join_path.induct) auto

lemma noslash_append_eq:
  assumes "CHR ''/'' \<notin> set a" and "CHR ''/'' \<notin> set c"
    and "a @ CHR ''/'' # b = c @ CHR ''/'' # d"
  shows "a = c \<and> b = d"
  using assms
proof (induction a arbitrary: c)
  case Nil
  then show ?case by (cases c) auto
next
  case (Cons x a)
  then show ?case by (cases c) auto
qed

text \<open>
  Joining a base directory with two plain elements: the result is a prefix that depends on the
  base only, followed by the two elements.
\<close>

definition join_prefix :: "string \<Rightarrow> string" where
  "join_prefix base =
     (if base = [] then []
      else let rooted = (hd base = CHR ''/'');
               st = rev (foldl (clean_step rooted) [] (split_path base))
           in (if rooted then ''/'' else []) @ (if st = [] then [] else join_path st @ ''/''))"

lemma filepath_Join_plain:
  assumes "plain t" and "plain f"
  shows "filepath_Join [base, t, f] = join_prefix base @ t @ ''/'' @ f"
proof (cases "base = []")
  case True
  have "split_path (t @ CHR ''/'' # f) = [t, f]"
    using assms by (simp add: split_path_append split_path_noslash plain_def)
  moreover have "hd (t @ CHR ''/'' # f) \<noteq> CHR ''/''"
    using assms by (cases t) (auto simp: plain_def)
  ultimately show ?thesis
    using assms True by (simp add: filepath_Join_def filepath_Clean_def join_prefix_def plain_def Let_def)
next
  case False
  define r where "r = (hd base = CHR ''/'')"
  define st where "st = foldl (clean_step r) [] (split_path base)"
  have "split_path (base @ CHR ''/'' # t @ CHR ''/'' # f) = split_path base @ [t, f]"
    using assms by (simp add: split_path_append split_path_noslash plain_def)
  then have fold: "foldl (clean_step r) [] (split_path (base @ CHR ''/'' # t @ CHR ''/'' # f)) = f # t # st"
    using assms by (simp add: plain_def st_def)
  have join: "join_path (rev st @ [t, f]) = (if st = [] then [] else join_path (rev st) @ ''/'') @ t @ ''/'' @ f"
    using join_path_snoc [of "rev st @ [t]" f] join_path_snoc [of "rev st" t] by simp
  have "filepath_Join [base, t, f] = filepath_Clean (base @ CHR ''/'' # t @ CHR ''/'' # f)"
    using False by (simp add: filepath_Join_def)
  also have "\<dots> = (let body = join_path (rev (f # t # st))
      in if r then CHR ''/'' # body else if body = [] then ''.'' else body)"
    unfolding fold [symmetric] using False by (simp add: filepath_Clean_def r_def Let_def)
  also have "\<dots> = (if r then ''/'' else []) @ join_path (rev st @ [t, f])"
    using assms(1) join by (simp add: Let_def plain_def)
  also have "\<dots> = join_prefix base @ t @ ''/'' @ f"
    unfolding join using False by (simp add: join_prefix_def r_def [symmetric] st_def [symmetric] Let_def)
  finally show ?thesis .
qed

lemma filepath_Join_plain2:
  assumes "plain f" and "base \<noteq> []"
  shows "filepath_Join [base, f] = join_prefix base @ f"
proof -
  define r where "r = (hd base = CHR ''/'')"
  define st where "st = foldl (clean_step r) [] (split_path base)"
  have "split_path (base @ CHR ''/'' # f) = split_path base @ [f]"
    using assms by (simp add: split_path_append split_path_noslash plain_def)
  then have fold: "foldl (clean_step r) [] (split_path (base @ CHR ''/'' # f)) = f # st"
    using assms by (simp add: plain_def st_def)
  have join: "join_path (rev st @ [f]) = (if st = [] then [] else join_path (rev st) @ ''/'') @ f"
    using join_path_snoc [of "rev st" f] by simp
  have "filepath_Join [base, f] = filepath_Clean (base @ CHR ''/'' # f)"
    using assms(2) by (simp add: filepath_Join_def)
  also have "\<dots> = (let body = join_path (rev (f # st))
      in if r then CHR ''/'' # body else if body = [] then ''.'' else body)"
    unfolding fold [symmetric] using assms(2) by (simp add: filepath_Clean_def r_def Let_def)
  also have "\<dots> = (if r then ''/'' else []) @ join_path (rev st @ [f])"
    using assms(1) join by (simp add: Let_def plain_def)
  also have "\<dots> = join_prefix base @ f"
    unfolding join using assms(2) by (simp add: join_prefix_def r_def [symmetric] st_def [symmetric] Let_def)
  finally show ?thesis .
qed

lemma filepath_Join_plain_inject:
  assumes "plain t" "plain f" "plain t'" "plain f'"
  shows "filepath_Join [base, t, f] = filepath_Join [base, t', f'] \<longleftrightarrow> t = t' \<and> f = f'"
  using assms noslash_append_eq [of t t' f f'] by (auto simp: filepath_Join_plain plain_def)

text \<open>
  What \<open>filepath_Clean\<close> keeps is clean: joining in two steps is joining in one.
\<close>

fun clean_stack :: "bool \<Rightarrow> string list \<Rightarrow> bool" where
  "clean_stack r [] = True"
| "clean_stack r (q # qs) \<longleftrightarrow>
     q \<noteq> [] \<and> q \<noteq> ''.'' \<and> CHR ''/'' \<notin> set q \<and> (q = ''..'' \<longrightarrow> \<not> r \<and> (\<forall>p \<in> set qs. p = ''..'')) \<and> clean_stack r qs"

lemma clean_stack_step: "clean_stack r st \<Longrightarrow> CHR ''/'' \<notin> set p \<Longrightarrow> clean_stack r (clean_step r st p)"
  by (cases st; cases r) auto

lemma clean_stack_fold: "\<forall>p \<in> set ps. CHR ''/'' \<notin> set p \<Longrightarrow> clean_stack r st \<Longrightarrow> clean_stack r (foldl (clean_step r) st ps)"
  by (induction ps arbitrary: st) (auto simp del: clean_step.simps simp: clean_stack_step)

lemma fold_clean_stack: "clean_stack r st \<Longrightarrow> foldl (clean_step r) [] (rev st) = st"
proof (induction st)
  case (Cons q qs)
  then have "clean_step r qs q = q # qs"
    by (cases "q = ''..''"; cases qs) simp_all
  with Cons show ?case by (simp del: clean_step.simps)
qed simp

lemma split_path_parts: "p \<in> set (split_path s) \<Longrightarrow> CHR ''/'' \<notin> set p"
  by (induction s arbitrary: p) (auto split: list.splits if_splits)

lemma split_join_path: "ps \<noteq> [] \<Longrightarrow> \<forall>p \<in> set ps. CHR ''/'' \<notin> set p \<Longrightarrow> split_path (join_path ps) = ps"
  by (induction ps rule: join_path.induct) (auto simp: split_path_noslash split_path_append)

lemma clean_stack_noslash: "clean_stack r st \<Longrightarrow> \<forall>p \<in> set st. p \<noteq> [] \<and> CHR ''/'' \<notin> set p"
  by (induction st) auto

lemma hd_join_path: "ps \<noteq> [] \<Longrightarrow> \<forall>p \<in> set ps. p \<noteq> [] \<and> CHR ''/'' \<notin> set p \<Longrightarrow> hd (join_path ps) \<noteq> CHR ''/''"
  by (induction ps rule: join_path.induct) (auto simp: neq_Nil_conv)

lemma join_prefix_join:
  assumes "plain t"
  shows "join_prefix (join_prefix base @ t) = join_prefix base @ t @ ''/''"
proof -
  define r where "r = (base \<noteq> [] \<and> hd base = CHR ''/'')"
  define st where "st = (if base = [] then [] else foldl (clean_step r) [] (split_path base))"
  have st: "clean_stack r st"
    using split_path_parts by (auto simp: st_def intro!: clean_stack_fold)
  then have stt: "clean_stack r (t # st)" using assms by (auto simp: plain_def)
  have parts: "\<forall>p \<in> set (rev (t # st)). p \<noteq> [] \<and> CHR ''/'' \<notin> set p"
    using clean_stack_noslash [OF stt] by simp
  have pre: "join_prefix base @ t = (if r then ''/'' else []) @ join_path (rev (t # st))"
    using join_path_snoc [of "rev st" t] by (auto simp: join_prefix_def r_def st_def Let_def)
  have "split_path (join_path (rev (t # st))) = rev (t # st)"
    by (rule split_join_path) (use parts in auto)
  then have "foldl (clean_step r) [] (split_path (join_prefix base @ t)) = t # st"
    using fold_clean_stack [OF stt] fold_clean_stack [OF st] assms by (cases r) (auto simp: pre plain_def)
  moreover have "hd (join_prefix base @ t) = CHR ''/'' \<longleftrightarrow> r"
    using hd_join_path [of "rev (t # st)"] parts by (simp add: pre)
  moreover have "join_prefix base @ t \<noteq> []" using assms by (simp add: plain_def)
  ultimately show ?thesis
    by (simp add: join_prefix_def [of "join_prefix base @ t"] Let_def) (simp add: pre)
qed

lemma filepath_Join_nested:
  assumes "plain t" and "plain f"
  shows "filepath_Join [filepath_Join [base, t], f] = filepath_Join [base, t, f]"
proof -
  have "filepath_Join [base, t] = join_prefix base @ t"
  proof (cases "base = []")
    case True
    have "hd t \<noteq> CHR ''/''" using assms by (cases t) (auto simp: plain_def)
    then show ?thesis
      using assms True
      by (simp add: filepath_Join_def filepath_Clean_def join_prefix_def plain_def split_path_noslash Let_def)
  next
    case False
    then show ?thesis using assms by (simp add: filepath_Join_plain2)
  qed
  moreover have "join_prefix base @ t \<noteq> []" using assms by (simp add: plain_def)
  ultimately show ?thesis
    using assms by (simp add: filepath_Join_plain filepath_Join_plain2 join_prefix_join)
qed

lemma filepath_Clean_nonempty [simp]: "filepath_Clean s \<noteq> []"
  by (simp add: filepath_Clean_def Let_def)

lemma join_prefix_end: "join_prefix b = [] \<or> (\<exists>x. join_prefix b = x @ ''/'')"
  by (auto simp: join_prefix_def Let_def)

lemma last_element:
  assumes "x @ a = y @ ''/'' @ b" and "x = [] \<or> (\<exists>z. x = z @ ''/'')" and "CHR ''/'' \<notin> set a" and "CHR ''/'' \<notin> set b"
  shows "a = b"
proof -
  from assms(1,3) have "x \<noteq> []" by auto
  with assms(2) obtain z where "x = z @ ''/''" by blast
  then have "rev a @ CHR ''/'' # rev z = rev b @ CHR ''/'' # rev y" using arg_cong [OF assms(1), of rev] by simp
  then have "takeWhile (\<lambda>c. c \<noteq> CHR ''/'') (rev a @ CHR ''/'' # rev z) = takeWhile (\<lambda>c. c \<noteq> CHR ''/'') (rev b @ CHR ''/'' # rev y)"
    by simp
  moreover have "takeWhile (\<lambda>c. c \<noteq> CHR ''/'') (rev u @ CHR ''/'' # v) = rev u" if "CHR ''/'' \<notin> set u" for u v
    using that by (subst takeWhile_append2) auto
  ultimately show ?thesis using assms(3,4) by simp
qed

lemma Dir_last:
  assumes "CHR ''/'' \<notin> set p"
  shows "filepath_Dir (dir @ ''/'' @ p) = filepath_Clean (dir @ ''/'')"
proof -
  have "dropWhile (\<lambda>c. c \<noteq> CHR ''/'') (rev p @ CHR ''/'' # rev dir) = CHR ''/'' # rev dir"
    using assms by (subst dropWhile_append2) auto
  then show ?thesis by (simp add: filepath_Dir_def)
qed

section \<open>Files\<close>

datatype io_error = EIO | ENOENT | EEXIST | ErrClosed

record os_file =
  f_name :: string
  f_ino :: nat
  f_off :: nat
  f_open :: bool

record fsys =
  dirents :: "(string \<times> nat) list"
  inodes :: "nat \<Rightarrow> bytes"
  next_ino :: nat
  ticks :: nat
  faults :: "nat \<Rightarrow> nat option"

definition empty_fs :: fsys where
  "empty_fs = \<lparr>dirents = [], inodes = (\<lambda>_. []), next_ino = 0, ticks = 0, faults = (\<lambda>_. None)\<rparr>"

definition fault :: "fsys \<Rightarrow> nat option" where
  "fault fs = faults fs (ticks fs)"

definition tick :: "fsys \<Rightarrow> fsys" where
  "tick fs = fs\<lparr>ticks := Suc (ticks fs)\<rparr>"

definition lookup_ino :: "fsys \<Rightarrow> string \<Rightarrow> nat option" where
  "lookup_ino fs p = map_of (dirents fs) p"

definition fs_content :: "fsys \<Rightarrow> string \<Rightarrow> bytes option" where
  "fs_content fs p = map_option (inodes fs) (lookup_ino fs p)"

text \<open>\<^verbatim>\<open>pwrite\<close> at an offset: a gap is filled with zero bytes.\<close>

definition write_at :: "bytes \<Rightarrow> nat \<Rightarrow> bytes \<Rightarrow> bytes" where
  "write_at c off d = take off (c @ replicate (off - length c) 0) @ d @ drop (off + length d) c"

definition os_MkdirAll :: "string \<Rightarrow> fsys \<Rightarrow> io_error option \<times> fsys" where
  "os_MkdirAll p fs = (case fault fs of Some _ \<Rightarrow> Some EIO | None \<Rightarrow> None, tick fs)"

definition os_Create :: "string \<Rightarrow> fsys \<Rightarrow> (io_error + os_file) \<times> fsys" where
  "os_Create p fs =
     (case fault fs of
        Some _ \<Rightarrow> (Inl EIO, tick fs)
      | None \<Rightarrow>
        (case lookup_ino fs p of
           Some i \<Rightarrow> (Inr \<lparr>f_name = p, f_ino = i, f_off = 0, f_open = True\<rparr>,
                      (tick fs)\<lparr>inodes := (inodes fs)(i := [])\<rparr>)
         | None \<Rightarrow> (Inr \<lparr>f_name = p, f_ino = next_ino fs, f_off = 0, f_open = True\<rparr>,
                    (tick fs)\<lparr>dirents := (p, next_ino fs) # dirents fs,
                              inodes := (inodes fs)(next_ino fs := []),
                              next_ino := Suc (next_ino fs)\<rparr>)))"

definition file_Write :: "os_file \<Rightarrow> bytes \<Rightarrow> fsys \<Rightarrow> (os_file \<times> io_error option) \<times> fsys" where
  "file_Write f d fs =
     (if \<not> f_open f then ((f, Some ErrClosed), tick fs)
      else let put = (\<lambda>d'. (tick fs)\<lparr>inodes := (inodes fs)(f_ino f := write_at (inodes fs (f_ino f)) (f_off f) d')\<rparr>)
           in case fault fs of
                Some k \<Rightarrow> ((f\<lparr>f_off := f_off f + length (take k d)\<rparr>, Some EIO), put (take k d))
              | None \<Rightarrow> ((f\<lparr>f_off := f_off f + length d\<rparr>, None), put d))"

text \<open>
  A sequence of writes, each with the error the caller returns when that write fails; the
  sequence stops at the first failure.
\<close>

fun write_fields :: "os_file \<Rightarrow> ('e \<times> bytes) list \<Rightarrow> fsys \<Rightarrow> (os_file \<times> 'e option) \<times> fsys" where
  "write_fields f [] fs = ((f, None), fs)"
| "write_fields f ((e, d) # xs) fs =
     (case file_Write f d fs of
        ((f', Some _), fs') \<Rightarrow> ((f', Some e), fs')
      | ((f', None), fs') \<Rightarrow> write_fields f' xs fs')"

definition file_Sync :: "os_file \<Rightarrow> fsys \<Rightarrow> io_error option \<times> fsys" where
  "file_Sync f fs =
     (if \<not> f_open f then Some ErrClosed else case fault fs of Some _ \<Rightarrow> Some EIO | None \<Rightarrow> None, tick fs)"

text \<open>Closing twice is an error; a failed close still releases the descriptor.\<close>

definition file_Close :: "os_file \<Rightarrow> fsys \<Rightarrow> (os_file \<times> io_error option) \<times> fsys" where
  "file_Close f fs =
     ((f\<lparr>f_open := False\<rparr>,
       if \<not> f_open f then Some ErrClosed else case fault fs of Some _ \<Rightarrow> Some EIO | None \<Rightarrow> None),
      tick fs)"

definition os_Remove :: "string \<Rightarrow> fsys \<Rightarrow> io_error option \<times> fsys" where
  "os_Remove p fs =
     (case fault fs of
        Some _ \<Rightarrow> (Some EIO, tick fs)
      | None \<Rightarrow> (if lookup_ino fs p = None then (Some ENOENT, tick fs)
                 else (None, (tick fs)\<lparr>dirents := AList.delete p (dirents fs)\<rparr>)))"

definition os_Rename :: "string \<Rightarrow> string \<Rightarrow> fsys \<Rightarrow> io_error option \<times> fsys" where
  "os_Rename old new fs =
     (case fault fs of
        Some _ \<Rightarrow> (Some EIO, tick fs)
      | None \<Rightarrow>
        (case lookup_ino fs old of
           None \<Rightarrow> (Some ENOENT, tick fs)
         | Some i \<Rightarrow> (None, (tick fs)\<lparr>dirents := (new, i) # AList.delete new (AList.delete old (dirents fs))\<rparr>)))"

text \<open>Opening a file for reading gives its contents; the reader then consumes them.\<close>

definition os_Open :: "string \<Rightarrow> fsys \<Rightarrow> (io_error + bytes) \<times> fsys" where
  "os_Open p fs =
     (case fault fs of
        Some _ \<Rightarrow> (Inl EIO, tick fs)
      | None \<Rightarrow> (case fs_content fs p of None \<Rightarrow> (Inl ENOENT, tick fs) | Some c \<Rightarrow> (Inr c, tick fs)))"

definition file_Size :: "os_file \<Rightarrow> fsys \<Rightarrow> (io_error + nat) \<times> fsys" where
  "file_Size f fs =
     (if \<not> f_open f then Inl ErrClosed
      else case fault fs of Some _ \<Rightarrow> Inl EIO | None \<Rightarrow> Inr (length (inodes fs (f_ino f))), tick fs)"

text \<open>
  \<^verbatim>\<open>os.CreateTemp(dir, prefix*)\<close>: \<open>r\<close> is the random part the runtime chose; the call never
  opens a file that exists.
\<close>

definition os_CreateTemp :: "string \<Rightarrow> string \<Rightarrow> string \<Rightarrow> fsys \<Rightarrow> (io_error + os_file) \<times> fsys" where
  "os_CreateTemp dir prefix r fs =
     (let p = filepath_Join [dir, prefix @ r]
      in if lookup_ino fs p = None then os_Create p fs else (Inl EEXIST, tick fs))"

section \<open>Fault-free behaviour\<close>

definition healthy :: "fsys \<Rightarrow> bool" where
  "healthy fs \<longleftrightarrow> faults fs = (\<lambda>_. None)"

text \<open>No two paths share an inode, and the inodes in use are below the next free one.\<close>

definition fs_wf :: "fsys \<Rightarrow> bool" where
  "fs_wf fs \<longleftrightarrow>
     (\<forall>p q i. lookup_ino fs p = Some i \<longrightarrow> lookup_ino fs q = Some i \<longrightarrow> p = q) \<and>
     (\<forall>p i. lookup_ino fs p = Some i \<longrightarrow> i < next_ino fs)"

lemma fault_healthy [simp, go_simps]: "healthy fs \<Longrightarrow> fault fs = None"
  by (simp add: healthy_def fault_def)

lemma healthy_upd [simp]:
  "healthy (tick fs) = healthy fs"
  "healthy (fs\<lparr>inodes := x\<rparr>) = healthy fs"
  "healthy (fs\<lparr>dirents := ds\<rparr>) = healthy fs"
  "healthy (fs\<lparr>next_ino := n\<rparr>) = healthy fs"
  "healthy (fs\<lparr>ticks := n\<rparr>) = healthy fs"
  by (simp_all add: healthy_def tick_def)

lemma lookup_ino_upd [simp]:
  "lookup_ino (tick fs) = lookup_ino fs"
  "lookup_ino (fs\<lparr>inodes := x\<rparr>) = lookup_ino fs"
  "lookup_ino (fs\<lparr>next_ino := n\<rparr>) = lookup_ino fs"
  "lookup_ino (fs\<lparr>ticks := n\<rparr>) = lookup_ino fs"
  by (simp_all add: lookup_ino_def tick_def fun_eq_iff)

lemma tick_sel [simp]:
  "dirents (tick fs) = dirents fs" "inodes (tick fs) = inodes fs" "next_ino (tick fs) = next_ino fs"
  by (simp_all add: tick_def)

lemma fs_wf_upd [simp]:
  "fs_wf (tick fs) = fs_wf fs"
  "fs_wf (fs\<lparr>inodes := x\<rparr>) = fs_wf fs"
  "fs_wf (fs\<lparr>ticks := n\<rparr>) = fs_wf fs"
  by (simp_all add: fs_wf_def)

lemma fs_content_upd [simp]:
  "fs_content (tick fs) = fs_content fs"
  "fs_content (fs\<lparr>ticks := n\<rparr>) = fs_content fs"
  by (simp_all add: fs_content_def fun_eq_iff)

lemma empty_fs_ok [simp]: "healthy empty_fs" "fs_wf empty_fs" "lookup_ino empty_fs p = None"
  by (simp_all add: healthy_def fs_wf_def empty_fs_def lookup_ino_def)

lemma write_at_end [simp]: "off = length c \<Longrightarrow> write_at c off d = c @ d"
  by (simp add: write_at_def)

lemma file_Write_healthy:
  "healthy fs \<Longrightarrow> f_open f \<Longrightarrow> f_off f = length (inodes fs (f_ino f)) \<Longrightarrow>
   file_Write f d fs =
     ((f\<lparr>f_off := f_off f + length d\<rparr>, None),
      (tick fs)\<lparr>inodes := (inodes fs)(f_ino f := inodes fs (f_ino f) @ d)\<rparr>)"
  by (simp add: file_Write_def Let_def)

text \<open>A fault-free sequence of writes at the end of a file appends all the fields.\<close>

lemma write_fields_healthy:
  "healthy fs \<Longrightarrow> f_open f \<Longrightarrow> f_off f = length (inodes fs (f_ino f)) \<Longrightarrow>
   write_fields f xs fs =
     ((f\<lparr>f_off := f_off f + length (concat (map snd xs))\<rparr>, None),
      fs\<lparr>inodes := (inodes fs)(f_ino f := inodes fs (f_ino f) @ concat (map snd xs)),
         ticks := ticks fs + length xs\<rparr>)"
proof (induction xs arbitrary: f fs)
  case Nil
  then show ?case by simp
next
  case (Cons x xs)
  then show ?case
    by (cases x; cases fs; cases f)
      (simp add: file_Write_healthy tick_def healthy_def add.assoc fun_eq_iff)
qed

lemma os_Create_healthy:
  assumes "healthy fs" and "fs_wf fs"
  shows "\<exists>f fs'. os_Create p fs = (Inr f, fs') \<and> f_name f = p \<and> f_off f = 0 \<and> f_open f \<and>
    lookup_ino fs' = (lookup_ino fs)(p \<mapsto> f_ino f) \<and> inodes fs' = (inodes fs)(f_ino f := []) \<and>
    healthy fs' \<and> fs_wf fs' \<and> (\<forall>q. q \<noteq> p \<longrightarrow> lookup_ino fs q \<noteq> Some (f_ino f))"
proof (cases "lookup_ino fs p")
  case None
  let ?f = "\<lparr>f_name = p, f_ino = next_ino fs, f_off = 0, f_open = True\<rparr>"
  let ?fs = "(tick fs)\<lparr>dirents := (p, next_ino fs) # dirents fs,
      inodes := (inodes fs)(next_ino fs := []), next_ino := Suc (next_ino fs)\<rparr>"
  have look: "lookup_ino ?fs = (lookup_ino fs)(p \<mapsto> next_ino fs)"
    by (simp add: lookup_ino_def fun_eq_iff)
  have fresh: "lookup_ino fs q \<noteq> Some (next_ino fs)" for q
    using assms(2) by (auto simp: fs_wf_def)
  have "fs_wf ?fs"
    using assms(2) fresh unfolding fs_wf_def look by (auto simp: less_SucI)
  with None assms look fresh show ?thesis
    by (intro exI [of _ ?f] exI [of _ ?fs]) (simp add: os_Create_def)
next
  case (Some i)
  let ?f = "\<lparr>f_name = p, f_ino = i, f_off = 0, f_open = True\<rparr>"
  have "lookup_ino fs q \<noteq> Some i" if "q \<noteq> p" for q
    using assms(2) Some that by (auto simp: fs_wf_def)
  with Some assms show ?thesis
    by (intro exI [of _ ?f] exI [of _ "(tick fs)\<lparr>inodes := (inodes fs)(i := [])\<rparr>"])
      (auto simp: os_Create_def)
qed

lemma lookup_ino_Remove:
  "healthy fs \<Longrightarrow> lookup_ino (snd (os_Remove p fs)) = (lookup_ino fs)(p := None)"
  by (auto simp: os_Remove_def lookup_ino_def delete_conv fun_eq_iff)

lemma os_Remove_frame [simp]: "inodes (snd (os_Remove p fs)) = inodes fs"
  by (simp add: os_Remove_def split: option.splits)

lemma os_Remove_healthy [simp]: "healthy (snd (os_Remove p fs)) = healthy fs"
  by (simp add: os_Remove_def split: option.splits)

lemma fs_wf_Remove: "healthy fs \<Longrightarrow> fs_wf fs \<Longrightarrow> fs_wf (snd (os_Remove p fs))"
  by (auto simp: fs_wf_def lookup_ino_Remove) (simp add: os_Remove_def split: if_splits)

lemma os_Rename_healthy:
  assumes "healthy fs" and "fs_wf fs" and "lookup_ino fs old = Some i" and "old \<noteq> new"
  shows "\<exists>fs'. os_Rename old new fs = (None, fs') \<and> lookup_ino fs' = (lookup_ino fs)(old := None, new \<mapsto> i) \<and>
    inodes fs' = inodes fs \<and> healthy fs' \<and> fs_wf fs'"
proof -
  let ?fs = "(tick fs)\<lparr>dirents := (new, i) # AList.delete new (AList.delete old (dirents fs))\<rparr>"
  have look: "lookup_ino ?fs = (lookup_ino fs)(old := None, new \<mapsto> i)"
    using assms(4) by (auto simp: lookup_ino_def delete_conv fun_eq_iff)
  have inj: "p = q" if "lookup_ino fs p = Some j" "lookup_ino fs q = Some j" for p q j
    using assms(2) that unfolding fs_wf_def by blast
  have new: "lookup_ino fs p = Some j \<Longrightarrow> j < next_ino fs" for p j using assms(2) unfolding fs_wf_def by blast
  have "fs_wf ?fs"
    unfolding fs_wf_def look using inj [of old i] inj new [of old i] new assms(3)
    by (auto split: if_splits)
  with look assms(1,3) show ?thesis by (simp add: os_Rename_def)
qed

text \<open>A file system with one file.\<close>

definition fs_with :: "string \<Rightarrow> bytes \<Rightarrow> fsys" where
  "fs_with p c = empty_fs\<lparr>dirents := [(p, 0)], inodes := (\<lambda>_. c), next_ino := 1\<rparr>"

lemma fs_with_ok [simp]:
  "healthy (fs_with p c)" "fs_wf (fs_with p c)" "fs_content (fs_with p c) q = (if q = p then Some c else None)"
  by (auto simp: fs_with_def healthy_def empty_fs_def fs_wf_def lookup_ino_def fs_content_def split: if_splits)

end
