(* ===== verification/HashRing.thy ===== *)
theory HashRing
  imports Prelude "HOL-Library.Multiset"
begin

text \<open>
  The consistent hash ring of \<^verbatim>\<open>internal/utils/hash.go\<close>: \<^verbatim>\<open>HashRing\<close> with its virtual nodes,
  the binary search of \<^verbatim>\<open>sort.Search\<close>, and \<^verbatim>\<open>NodeIterator\<close>, the clockwise walk that the
  sentinel uses to choose replicas. \<open>ChecksumIEEE\<close> is \<^verbatim>\<open>hash/crc32\<close>. The locale \<open>node_walk\<close>
  is what the sentinel relies on: a walk is a list of distinct nodes, handed out one by one.
\<close>

unbundle bit_operations_syntax

section \<open>CRC-32\<close>

definition crc_bit :: "u32 \<Rightarrow> u32" where
  "crc_bit c = (if bit c 0 then drop_bit 1 c XOR 0xEDB88320 else drop_bit 1 c)"

definition crc_byte :: "u32 \<Rightarrow> byte \<Rightarrow> u32" where
  "crc_byte c b =
     crc_bit (crc_bit (crc_bit (crc_bit (crc_bit (crc_bit (crc_bit (crc_bit (c XOR ucast b))))))))"

definition ChecksumIEEE :: "bytes \<Rightarrow> u32" where
  "ChecksumIEEE bs = NOT (foldl crc_byte 0xFFFFFFFF bs)"

section \<open>The ring\<close>

record hash_ring =
  nodes :: "u32 list"
  nodeMap :: "u32 \<Rightarrow> string option"
  replicas :: int

text \<open>A Go map of strings read at a key it does not have gives the empty string.\<close>

definition go_lookup :: "('k \<Rightarrow> string option) \<Rightarrow> 'k \<Rightarrow> string" where
  "go_lookup m k = (case m k of None \<Rightarrow> [] | Some v \<Rightarrow> v)"

definition NewHashRing :: "int \<Rightarrow> hash_ring" where
  "NewHashRing r = \<lparr>nodes = [], nodeMap = (\<lambda>_. None), replicas = r\<rparr>"

definition hash :: "string \<Rightarrow> u32" where
  "hash key = ChecksumIEEE (str_bytes key)"

definition virtualNode :: "string \<Rightarrow> nat \<Rightarrow> string" where
  "virtualNode node i = node @ '':'' @ itoa i"

definition add_virtual :: "string \<Rightarrow> hash_ring \<Rightarrow> nat \<Rightarrow> hash_ring" where
  "add_virtual node h i =
     (let x = hash (virtualNode node i)
      in h\<lparr>nodes := nodes h @ [x], nodeMap := (nodeMap h)(x \<mapsto> node)\<rparr>)"

definition AddNode :: "hash_ring \<Rightarrow> string \<Rightarrow> hash_ring" where
  "AddNode h node =
     (let h' = foldl (add_virtual node) h [0..<nat (replicas h)]
      in h'\<lparr>nodes := sort (nodes h')\<rparr>)"

definition remove_virtual :: "string \<Rightarrow> hash_ring \<Rightarrow> nat \<Rightarrow> hash_ring" where
  "remove_virtual node h i =
     (let x = hash (virtualNode node i)
      in h\<lparr>nodes := remove1 x (nodes h), nodeMap := (nodeMap h)(x := None)\<rparr>)"

definition RemoveNode :: "hash_ring \<Rightarrow> string \<Rightarrow> hash_ring" where
  "RemoveNode h node = foldl (remove_virtual node) h [0..<nat (replicas h)]"

text \<open>The loop of \<^verbatim>\<open>sort.Search\<close>: the interval that holds the answer is halved.\<close>

function search_loop :: "(nat \<Rightarrow> bool) \<Rightarrow> nat \<Rightarrow> nat \<Rightarrow> nat" where
  "search_loop f i j =
     (if i < j
      then let m = (i + j) div 2 in if f m then search_loop f i m else search_loop f (m + 1) j
      else i)"
  by pat_completeness auto
termination
  by (relation "measure (\<lambda>(f, i, j). j - i)") auto

declare search_loop.simps [simp del]

definition sort_Search :: "nat \<Rightarrow> (nat \<Rightarrow> bool) \<Rightarrow> nat" where
  "sort_Search n f = search_loop f 0 n"

section \<open>The iterator\<close>

record node_iterator =
  key :: string
  startIdx :: nat
  currIdx :: nat
  seen :: "string set"
  started :: bool

datatype ring_error = RingExhausted

definition GetNodeIter :: "hash_ring \<Rightarrow> string \<Rightarrow> node_iterator" where
  "GetNodeIter h k =
     (if nodes h = []
      then \<lparr>key = k, startIdx = 0, currIdx = 0, seen = {}, started = False\<rparr>
      else let x = hash k;
               i = sort_Search (length (nodes h)) (\<lambda>i. x \<le> nodes h ! i);
               idx = (if i = length (nodes h) then 0 else i)
           in \<lparr>key = k, startIdx = idx, currIdx = idx, seen = {}, started = False\<rparr>)"

fun next_loop :: "hash_ring \<Rightarrow> node_iterator \<Rightarrow> nat list \<Rightarrow> (string \<times> ring_error option) \<times> node_iterator" where
  "next_loop h it [] = (([], None), it)"
| "next_loop h it (i # is) =
     (let n = length (nodes h);
          nodeIdx = (currIdx it + i) mod n;
          node = go_lookup (nodeMap h) (nodes h ! nodeIdx)
      in if node \<notin> seen it then
           let it' = it\<lparr>seen := insert node (seen it), currIdx := (nodeIdx + 1) mod n\<rparr>
           in if started it' \<and> currIdx it' = startIdx it' then ((node, Some RingExhausted), it')
              else ((node, None), it'\<lparr>started := True\<rparr>)
         else next_loop h it is)"

definition Next :: "hash_ring \<Rightarrow> node_iterator \<Rightarrow> (string \<times> ring_error option) \<times> node_iterator" where
  "Next h it =
     (if nodes h = [] then (([], None), it) else next_loop h it [0..<length (nodes h)])"

definition Reset :: "node_iterator \<Rightarrow> node_iterator" where
  "Reset it = it\<lparr>currIdx := startIdx it, seen := {}, started := False\<rparr>"

definition GetNode :: "hash_ring \<Rightarrow> string \<Rightarrow> string" where
  "GetNode h k = fst (fst (Next h (GetNodeIter h k)))"

text \<open>
  The loop that every caller of the iterator runs: at most \<open>n\<close> calls, stopping at an empty
  node or an error. The node that comes with an error is not used.
\<close>

fun collect_loop :: "('it \<Rightarrow> (string \<times> 'e option) \<times> 'it) \<Rightarrow> nat \<Rightarrow> 'it \<Rightarrow> string list" where
  "collect_loop nxt 0 it = []"
| "collect_loop nxt (Suc n) it =
     (case nxt it of ((node, err), it') \<Rightarrow>
        if node = [] \<or> err \<noteq> None then [] else node # collect_loop nxt n it')"

text \<open>\<open>None\<close>: the slice cannot be allocated for a negative count, and Go panics.\<close>

definition GetNodes :: "hash_ring \<Rightarrow> string \<Rightarrow> int \<Rightarrow> string list option" where
  "GetNodes h k cnt =
     (if nodes h = [] then Some []
      else if cnt < 0 then None
      else Some (collect_loop (Next h) (nat cnt) (GetNodeIter h k)))"

section \<open>The walk as an interface\<close>

locale node_walk =
  fixes nxt :: "'it \<Rightarrow> (string \<times> 'e option) \<times> 'it"
    and pending :: "'it \<Rightarrow> string list"
    and valid :: "'it \<Rightarrow> bool"
  assumes nxt_Nil: "valid it \<Longrightarrow> pending it = [] \<Longrightarrow> nxt it = ((node, err), it') \<Longrightarrow> node = [] \<or> err \<noteq> None"
    and nxt_Cons: "valid it \<Longrightarrow> pending it = x # xs \<Longrightarrow>
      \<exists>it'. nxt it = ((x, None), it') \<and> x \<noteq> [] \<and> valid it' \<and> pending it' = xs"
    and pending_distinct: "valid it \<Longrightarrow> distinct (pending it)"
begin

lemma collect_loop_pending: "valid it \<Longrightarrow> collect_loop nxt n it = take n (pending it)"
proof (induction n arbitrary: it)
  case (Suc n)
  show ?case
  proof (cases "pending it")
    case Nil
    with Suc.prems nxt_Nil show ?thesis by (auto split: prod.splits)
  next
    case (Cons x xs)
    with Suc nxt_Cons [OF Suc.prems Cons] show ?thesis by auto
  qed
qed simp

lemma collect_loop_distinct: "valid it \<Longrightarrow> distinct (collect_loop nxt n it)"
  by (simp add: collect_loop_pending pending_distinct)

lemma length_collect_loop: "valid it \<Longrightarrow> length (collect_loop nxt n it) = min n (length (pending it))"
  by (simp add: collect_loop_pending)

lemma set_collect_loop: "valid it \<Longrightarrow> set (collect_loop nxt n it) \<subseteq> set (pending it)"
  by (simp add: collect_loop_pending set_take_subset)

end

section \<open>Binary search\<close>

lemma search_loop_step:
  "i < j \<Longrightarrow> search_loop f i j =
     (if f ((i + j) div 2) then search_loop f i ((i + j) div 2) else search_loop f ((i + j) div 2 + 1) j)"
  by (subst search_loop.simps) (simp add: Let_def)

lemma search_loop_le: "i \<le> j \<Longrightarrow> search_loop f i j \<le> j"
proof (induction f i j rule: search_loop.induct)
  case (1 f i j)
  then show ?case
    by (cases "i < j") (auto simp: search_loop_step search_loop.simps [of f j j], force+)
qed

lemma search_loop_spec:
  assumes "\<forall>a b. a \<le> b \<longrightarrow> b < n \<longrightarrow> f a \<longrightarrow> f b"
    and "i \<le> j" "j \<le> n" "\<forall>k < i. \<not> f k" "\<forall>k. j \<le> k \<longrightarrow> k < n \<longrightarrow> f k"
    and "r = search_loop f i j"
  shows "r \<le> n \<and> (\<forall>k < r. \<not> f k) \<and> (\<forall>k. r \<le> k \<longrightarrow> k < n \<longrightarrow> f k)"
  using assms
proof (induction f i j arbitrary: r rule: search_loop.induct)
  case (1 f i j)
  show ?case
  proof (cases "i < j")
    case False
    then have "search_loop f i j = i" by (subst search_loop.simps) simp
    with False "1.prems" show ?thesis by simp
  next
    case True
    define m where "m = (i + j) div 2"
    have m: "i \<le> m" "m < j" using True by (auto simp: m_def)
    show ?thesis
    proof (cases "f m")
      case True
      with m "1.prems" have "\<forall>k. m \<le> k \<longrightarrow> k < n \<longrightarrow> f k" by blast
      with True m \<open>i < j\<close> "1.prems" show ?thesis
        by (intro "1.IH"(1) [OF \<open>i < j\<close> m_def]) (auto simp: search_loop_step m_def)
    next
      case False
      with m "1.prems" have "\<forall>k < m + 1. \<not> f k"
        by (metis less_Suc_eq_le Suc_eq_plus1 order.strict_trans2)
      with False m \<open>i < j\<close> "1.prems" show ?thesis
        by (intro "1.IH"(2) [OF \<open>i < j\<close> m_def]) (auto simp: search_loop_step m_def)
    qed
  qed
qed

lemma sort_Search_spec:
  assumes "\<forall>a b. a \<le> b \<longrightarrow> b < n \<longrightarrow> f a \<longrightarrow> f b"
  shows "sort_Search n f \<le> n" and "k < sort_Search n f \<Longrightarrow> \<not> f k"
    and "sort_Search n f \<le> k \<Longrightarrow> k < n \<Longrightarrow> f k"
  using search_loop_spec [OF assms, of 0 n "sort_Search n f"] by (auto simp: sort_Search_def)

section \<open>The iterator against the clockwise walk\<close>

text \<open>The owners of the virtual nodes, clockwise from where the walk for a key starts.\<close>

definition owners :: "hash_ring \<Rightarrow> nat \<Rightarrow> string list" where
  "owners h s = map (\<lambda>x. go_lookup (nodeMap h) x) (rotate s (nodes h))"

text \<open>
  What a walk hands out: each owner once, in clockwise order, stopping at an empty name, and
  leaving out an owner that is met for the first time at the very last position.
\<close>

fun visit :: "bool \<Rightarrow> string set \<Rightarrow> string list \<Rightarrow> string list" where
  "visit st S [] = []"
| "visit st S (x # xs) =
     (if x \<in> S then visit st S xs
      else if x = [] \<or> (st \<and> xs = []) then []
      else x # visit True (insert x S) xs)"

text \<open>
  \<open>walk_at h it p\<close>: the iterator has passed \<open>p\<close> positions of its circle, and has seen exactly
  their owners.
\<close>

definition walk_at :: "hash_ring \<Rightarrow> node_iterator \<Rightarrow> nat \<Rightarrow> bool" where
  "walk_at h it p \<longleftrightarrow> nodes h \<noteq> [] \<and> startIdx it < length (nodes h) \<and> p \<le> length (nodes h) \<and>
     currIdx it = (startIdx it + p) mod length (nodes h) \<and>
     seen it = set (take p (owners h (startIdx it))) \<and> started it = (0 < p)"

lemma length_owners [simp]: "length (owners h s) = length (nodes h)"
  by (simp add: owners_def)

lemma owners_nth:
  "s < length (nodes h) \<Longrightarrow> j < length (nodes h) \<Longrightarrow>
   owners h s ! j = go_lookup (nodeMap h) (nodes h ! ((s + j) mod length (nodes h)))"
  by (simp add: owners_def nth_rotate)

lemma walk_at_node:
  assumes "walk_at h it p" and "i < length (nodes h)"
  shows "go_lookup (nodeMap h) (nodes h ! ((currIdx it + i) mod length (nodes h))) =
         owners h (startIdx it) ! ((p + i) mod length (nodes h))"
  using assms by (simp add: walk_at_def owners_nth mod_simps add.assoc)

text \<open>The positions after the end of the circle have been seen already.\<close>

lemma next_loop_wrapped:
  "walk_at h it p \<Longrightarrow> length (nodes h) \<le> p + i \<Longrightarrow> i \<le> length (nodes h) \<Longrightarrow>
   next_loop h it [i..<length (nodes h)] = (([], None), it)"
proof (induction "length (nodes h) - i" arbitrary: i)
  case (Suc d)
  let ?n = "length (nodes h)"
  have i: "i < ?n" using Suc.hyps(2) by simp
  moreover have "(p + i) mod ?n = p + i - ?n"
  proof -
    have "p + i - ?n < ?n" using Suc.prems(1) i by (auto simp: walk_at_def)
    with Suc.prems(2) show ?thesis by (simp add: le_mod_geq)
  qed
  moreover have "p + i - ?n < p" using i Suc.prems by linarith
  ultimately have "owners h (startIdx it) ! ((p + i) mod ?n) \<in> seen it"
    using Suc.prems(1) by (auto simp: walk_at_def in_set_conv_nth)
  moreover have "next_loop h it [Suc i..<?n] = (([], None), it)"
    using Suc i by auto
  ultimately show ?case
    using i by (simp add: upt_conv_Cons walk_at_node [OF Suc.prems(1) i] Let_def)
qed simp

text \<open>One call of the loop, by the part of the circle that is left.\<close>

lemma next_loop_walk:
  assumes "walk_at h it p"
  shows "p + i \<le> length (nodes h) \<Longrightarrow> next_loop h it [i..<length (nodes h)] =
    (case dropWhile (\<lambda>x. x \<in> seen it) (drop (p + i) (owners h (startIdx it))) of
       [] \<Rightarrow> (([], None), it)
     | x # xs \<Rightarrow>
        ((x, if started it \<and> xs = [] then Some RingExhausted else None),
         it\<lparr>seen := insert x (seen it),
            currIdx := (startIdx it + (length (nodes h) - length xs)) mod length (nodes h),
            started := True\<rparr>))"
proof (induction "length (nodes h) - (p + i)" arbitrary: i)
  case 0
  with next_loop_wrapped [OF assms, of i] show ?case by simp
next
  case (Suc d)
  let ?n = "length (nodes h)" and ?os = "owners h (startIdx it)"
  have pi: "p + i < ?n" and i: "i < ?n" using Suc.hyps(2) by simp_all
  have node: "go_lookup (nodeMap h) (nodes h ! ((currIdx it + i) mod ?n)) = ?os ! (p + i)"
    using walk_at_node [OF assms i] pi by simp
  have drop: "drop (p + i) ?os = ?os ! (p + i) # drop (Suc (p + i)) ?os"
    using pi by (simp add: Cons_nth_drop_Suc)
  have idx: "Suc ((currIdx it + i) mod ?n) mod ?n = Suc (startIdx it + (p + i)) mod ?n"
    using assms by (simp add: walk_at_def mod_simps add.assoc)
  have again: "Suc (startIdx it + (p + i)) mod ?n = startIdx it \<longleftrightarrow> ?n \<le> Suc (p + i)"
    using assms pi by (auto simp: walk_at_def mod_if)
  show ?case
  proof (cases "?os ! (p + i) \<in> seen it")
    case True
    have "next_loop h it [Suc i..<?n] = (case dropWhile (\<lambda>x. x \<in> seen it) (drop (p + Suc i) ?os) of
       [] \<Rightarrow> (([], None), it)
     | x # xs \<Rightarrow>
        ((x, if started it \<and> xs = [] then Some RingExhausted else None),
         it\<lparr>seen := insert x (seen it), currIdx := (startIdx it + (?n - length xs)) mod ?n, started := True\<rparr>))"
      using Suc pi by (intro Suc.hyps(1)) auto
    with True show ?thesis
      using i by (simp add: upt_conv_Cons node drop Let_def del: drop_eq_Nil)
  next
    case False
    have "?n - (?n - Suc (p + i)) = Suc (p + i)" using pi by simp
    with False show ?thesis
      using i by (auto simp: upt_conv_Cons node drop idx again Let_def)
  qed
qed

lemma Next_walk:
  assumes "walk_at h it p"
  shows "Next h it =
    (case dropWhile (\<lambda>x. x \<in> seen it) (drop p (owners h (startIdx it))) of
       [] \<Rightarrow> (([], None), it)
     | x # xs \<Rightarrow>
        ((x, if started it \<and> xs = [] then Some RingExhausted else None),
         it\<lparr>seen := insert x (seen it),
            currIdx := (startIdx it + (length (nodes h) - length xs)) mod length (nodes h),
            started := True\<rparr>))"
  using next_loop_walk [OF assms, of 0] assms by (simp add: Next_def walk_at_def)

lemma walk_at_Next:
  assumes "walk_at h it p"
    and "dropWhile (\<lambda>x. x \<in> seen it) (drop p (owners h (startIdx it))) = x # xs"
  shows "walk_at h (snd (Next h it)) (length (nodes h) - length xs) \<and>
         drop (length (nodes h) - length xs) (owners h (startIdx it)) = xs \<and>
         length xs < length (nodes h)"
proof -
  let ?os = "owners h (startIdx it)"
  define ys where "ys = takeWhile (\<lambda>x. x \<in> seen it) (drop p ?os)"
  have split: "drop p ?os = ys @ x # xs"
    using takeWhile_dropWhile_id [of "\<lambda>x. x \<in> seen it" "drop p ?os"] assms(2) by (simp add: ys_def)
  then have os: "?os = (take p ?os @ ys @ [x]) @ xs"
    by (metis append.assoc append_Cons append_Nil append_take_drop_id)
  then have len: "length (take p ?os @ ys @ [x]) = length (nodes h) - length xs"
    by (metis add_diff_cancel_right' length_append length_owners)
  from os len have take: "take (length (nodes h) - length xs) ?os = take p ?os @ ys @ [x]"
    and drop: "drop (length (nodes h) - length xs) ?os = xs"
    by (metis append_eq_conv_conj)+
  have "set ys \<subseteq> seen it" by (auto simp: ys_def dest: set_takeWhileD)
  moreover have lt: "length xs < length (nodes h)"
    using arg_cong [OF split, of length] by simp
  ultimately show ?thesis
    using assms drop by (auto simp: walk_at_def Next_walk [OF assms(1)] take)
qed

lemma visit_dropWhile:
  "visit st S os = (case dropWhile (\<lambda>x. x \<in> S) os of [] \<Rightarrow> []
     | x # xs \<Rightarrow> if x = [] \<or> (st \<and> xs = []) then [] else x # visit True (insert x S) xs)"
  by (induction os) auto

lemma visit_distinct: "distinct (visit st S os) \<and> set (visit st S os) \<inter> S = {} \<and> [] \<notin> set (visit st S os)"
  by (induction st S os rule: visit.induct) auto

lemma visit_subset: "set (visit st S os) \<subseteq> set os"
  by (induction st S os rule: visit.induct) auto

text \<open>How many positions an iterator has passed, and what it still hands out.\<close>

definition passed :: "hash_ring \<Rightarrow> node_iterator \<Rightarrow> nat" where
  "passed h it =
     (let n = length (nodes h)
      in if currIdx it = startIdx it then (if started it then n else 0)
         else (currIdx it + n - startIdx it) mod n)"

definition pending_nodes :: "hash_ring \<Rightarrow> node_iterator \<Rightarrow> string list" where
  "pending_nodes h it =
     (if nodes h = [] then [] else visit (started it) (seen it) (drop (passed h it) (owners h (startIdx it))))"

definition valid_iter :: "hash_ring \<Rightarrow> node_iterator \<Rightarrow> bool" where
  "valid_iter h it \<longleftrightarrow> nodes h = [] \<or> walk_at h it (passed h it)"

lemma passed_walk_at:
  assumes "walk_at h it p"
  shows "passed h it = p"
proof -
  let ?n = "length (nodes h)" and ?s = "startIdx it"
  have n: "?s < ?n" "p \<le> ?n" "currIdx it = (?s + p) mod ?n" "started it = (0 < p)"
    using assms by (auto simp: walk_at_def)
  consider "p = 0" | "p = ?n" "0 < p" | "0 < p" "p < ?n" using n by linarith
  then show ?thesis
  proof cases
    case 3
    then have "(?s + p) mod ?n = (if ?s + p < ?n then ?s + p else ?s + p - ?n)"
      using n by (simp add: mod_if)
    with 3 n show ?thesis by (cases "?s + p < ?n") (auto simp: passed_def Let_def)
  qed (use n in \<open>auto simp: passed_def\<close>)
qed

interpretation ring_walk: node_walk "Next h" "pending_nodes h" "valid_iter h" for h
proof (unfold_locales, goal_cases)
  case (1 it node err it')
  show ?case
  proof (cases "nodes h = []")
    case True
    with 1 show ?thesis by (simp add: Next_def)
  next
    case False
    with 1 have w: "walk_at h it (passed h it)" by (simp add: valid_iter_def)
    have "visit (started it) (seen it) (drop (passed h it) (owners h (startIdx it))) = []"
      using False 1 by (simp add: pending_nodes_def)
    with 1 show ?thesis
      unfolding Next_walk [OF w] by (subst (asm) visit_dropWhile) (auto split: list.splits if_splits)
  qed
next
  case (2 it x xs)
  then have ne: "nodes h \<noteq> []" by (auto simp: pending_nodes_def)
  with 2 have w: "walk_at h it (passed h it)" by (simp add: valid_iter_def)
  let ?os = "owners h (startIdx it)"
  from 2 ne have v: "visit (started it) (seen it) (drop (passed h it) ?os) = x # xs"
    by (simp add: pending_nodes_def)
  then obtain ys where ys: "dropWhile (\<lambda>x. x \<in> seen it) (drop (passed h it) ?os) = x # ys"
    and x: "x \<noteq> []" "\<not> (started it \<and> ys = [])" and xs: "xs = visit True (insert x (seen it)) ys"
    by (subst (asm) visit_dropWhile) (auto split: list.splits if_splits)
  define it' where "it' = snd (Next h it)"
  have step: "Next h it = ((x, None), it')"
    and it': "started it'" "seen it' = insert x (seen it)" "startIdx it' = startIdx it"
    using x by (simp_all add: it'_def Next_walk [OF w] ys)
  from walk_at_Next [OF w ys] have w': "walk_at h it' (length (nodes h) - length ys)"
    and dr: "drop (length (nodes h) - length ys) ?os = ys" by (simp_all add: it'_def)
  have p: "passed h it' = length (nodes h) - length ys" by (rule passed_walk_at [OF w'])
  have "pending_nodes h it' = xs"
    using ne it' dr xs by (simp add: pending_nodes_def p)
  moreover have "valid_iter h it'" using w' by (simp add: valid_iter_def p)
  ultimately show ?case using step x by blast
next
  case (3 it)
  then show ?case by (simp add: pending_nodes_def visit_distinct)
qed

lemma walk_at_GetNodeIter: "nodes h \<noteq> [] \<Longrightarrow> walk_at h (GetNodeIter h k) 0"
proof -
  assume ne: "nodes h \<noteq> []"
  let ?i = "startIdx (GetNodeIter h k)"
  have "?i < length (nodes h)"
    using ne search_loop_le [of 0 "length (nodes h)" "\<lambda>i. hash k \<le> nodes h ! i"]
    by (auto simp: GetNodeIter_def Let_def sort_Search_def)
  with ne show ?thesis by (auto simp: walk_at_def GetNodeIter_def Let_def)
qed

lemma valid_GetNodeIter: "valid_iter h (GetNodeIter h k)"
  using walk_at_GetNodeIter passed_walk_at unfolding valid_iter_def by metis

text \<open>The circle of a key: the owners clockwise from its successor position.\<close>

definition circle :: "hash_ring \<Rightarrow> string \<Rightarrow> string list" where
  "circle h k = owners h (startIdx (GetNodeIter h k))"

lemma pending_GetNodeIter:
  "pending_nodes h (GetNodeIter h k) = visit False {} (circle h k)"
proof (cases "nodes h = []")
  case True
  then show ?thesis by (simp add: pending_nodes_def circle_def owners_def)
next
  case False
  then have "passed h (GetNodeIter h k) = 0"
    using walk_at_GetNodeIter passed_walk_at by blast
  moreover have "\<not> started (GetNodeIter h k)" "seen (GetNodeIter h k) = {}"
    by (simp_all add: GetNodeIter_def Let_def)
  ultimately show ?thesis using False by (simp add: pending_nodes_def circle_def)
qed

lemma GetNodes_eq_walk:
  "0 \<le> cnt \<Longrightarrow> GetNodes h k cnt = Some (take (nat cnt) (visit False {} (circle h k)))"
proof (cases "nodes h = []")
  case True
  then show ?thesis by (simp add: GetNodes_def circle_def owners_def)
next
  case False
  assume "0 \<le> cnt"
  with False show ?thesis
    using ring_walk.collect_loop_pending [OF valid_GetNodeIter, of h "nat cnt" k]
    by (simp add: GetNodes_def pending_GetNodeIter)
qed

section \<open>Membership\<close>

definition vhash :: "string \<Rightarrow> nat \<Rightarrow> u32" where
  "vhash node i = hash (virtualNode node i)"

definition positions :: "int \<Rightarrow> string \<Rightarrow> u32 set" where
  "positions r node = vhash node ` {0..<nat r}"

text \<open>No two virtual nodes of the given brokers fall on the same position.\<close>

definition no_collision :: "int \<Rightarrow> string set \<Rightarrow> bool" where
  "no_collision r S \<longleftrightarrow> inj_on (\<lambda>(node, i). vhash node i) (S \<times> {0..<nat r})"

text \<open>The ring holds exactly the virtual nodes of the members \<open>M\<close>, sorted and without repetition.\<close>

definition ring_ok :: "hash_ring \<Rightarrow> string set \<Rightarrow> bool" where
  "ring_ok h M \<longleftrightarrow> sorted (nodes h) \<and> distinct (nodes h) \<and> set (nodes h) = dom (nodeMap h) \<and>
     (\<forall>x node. nodeMap h x = Some node \<longleftrightarrow> node \<in> M \<and> x \<in> positions (replicas h) node)"

lemma add_virtual_fold:
  "nodes (foldl (add_virtual node) h is) = nodes h @ map (vhash node) is"
  "nodeMap (foldl (add_virtual node) h is) = (\<lambda>x. if x \<in> vhash node ` set is then Some node else nodeMap h x)"
  "replicas (foldl (add_virtual node) h is) = replicas h"
  by (induction "is" arbitrary: h) (auto simp: add_virtual_def vhash_def Let_def fun_eq_iff)

lemma AddNode_sel:
  "nodes (AddNode h node) = sort (nodes h @ map (vhash node) [0..<nat (replicas h)])"
  "nodeMap (AddNode h node) x = (if x \<in> positions (replicas h) node then Some node else nodeMap h x)"
  "replicas (AddNode h node) = replicas h"
  by (simp_all add: AddNode_def Let_def add_virtual_fold positions_def)

lemma remove_virtual_fold:
  "mset (nodes (foldl (remove_virtual node) h is)) = mset (nodes h) - mset (map (vhash node) is)"
  "sorted (nodes h) \<Longrightarrow> sorted (nodes (foldl (remove_virtual node) h is))"
  "nodeMap (foldl (remove_virtual node) h is) = (\<lambda>x. if x \<in> vhash node ` set is then None else nodeMap h x)"
  "replicas (foldl (remove_virtual node) h is) = replicas h"
  by (induction "is" arbitrary: h)
    (auto simp: remove_virtual_def vhash_def Let_def fun_eq_iff sorted_remove1 diff_diff_add_mset)

lemma RemoveNode_sel:
  "mset (nodes (RemoveNode h node)) = mset (nodes h) - mset (map (vhash node) [0..<nat (replicas h)])"
  "sorted (nodes h) \<Longrightarrow> sorted (nodes (RemoveNode h node))"
  "nodeMap (RemoveNode h node) x = (if x \<in> positions (replicas h) node then None else nodeMap h x)"
  "replicas (RemoveNode h node) = replicas h"
  by (simp_all add: RemoveNode_def remove_virtual_fold positions_def)

lemma positions_disjoint:
  "no_collision r S \<Longrightarrow> a \<in> S \<Longrightarrow> b \<in> S \<Longrightarrow> a \<noteq> b \<Longrightarrow> positions r a \<inter> positions r b = {}"
  by (fastforce simp: no_collision_def positions_def inj_on_def)

lemma vhash_distinct: "no_collision r S \<Longrightarrow> a \<in> S \<Longrightarrow> distinct (map (vhash a) [0..<nat r])"
  by (fastforce simp: no_collision_def inj_on_def distinct_map)

lemma ring_ok_New: "ring_ok (NewHashRing r) {}"
  by (auto simp: ring_ok_def NewHashRing_def)

lemma ring_ok_AddNode:
  assumes ok: "ring_ok h M" and new: "node \<notin> M" and nc: "no_collision (replicas h) (insert node M)"
  shows "ring_ok (AddNode h node) (insert node M)"
proof -
  have disj: "positions (replicas h) node \<inter> set (nodes h) = {}"
    using ok new positions_disjoint [OF nc, of node] unfolding ring_ok_def
    by (auto simp: dom_def)
  have "distinct (nodes h @ map (vhash node) [0..<nat (replicas h)])"
    using ok vhash_distinct [OF nc, of node] disj by (auto simp: ring_ok_def positions_def)
  moreover have "set (nodes h @ map (vhash node) [0..<nat (replicas h)]) = dom (nodeMap (AddNode h node))"
    using ok by (auto simp: ring_ok_def AddNode_sel dom_def positions_def)
  moreover have "nodeMap (AddNode h node) x = Some n \<longleftrightarrow> n \<in> insert node M \<and> x \<in> positions (replicas h) n" for x n
    using ok disj new by (auto simp: ring_ok_def AddNode_sel dom_def)
  ultimately show ?thesis by (simp add: ring_ok_def AddNode_sel)
qed

lemma remove_virtual_fold_distinct:
  "distinct (nodes h) \<Longrightarrow>
   distinct (nodes (foldl (remove_virtual node) h is)) \<and>
   set (nodes (foldl (remove_virtual node) h is)) = set (nodes h) - vhash node ` set is"
  by (induction "is" arbitrary: h) (auto simp: remove_virtual_def vhash_def Let_def)

lemma ring_ok_RemoveNode:
  assumes ok: "ring_ok h M" and nc: "no_collision (replicas h) M" and mem: "node \<in> M"
  shows "ring_ok (RemoveNode h node) (M - {node})"
proof -
  have set: "distinct (nodes (RemoveNode h node))"
    "set (nodes (RemoveNode h node)) = set (nodes h) - positions (replicas h) node"
    using remove_virtual_fold_distinct [of h node] ok
    by (simp_all add: RemoveNode_def ring_ok_def positions_def)
  moreover have "set (nodes h) - positions (replicas h) node = dom (nodeMap (RemoveNode h node))"
    using ok by (auto simp: ring_ok_def RemoveNode_sel dom_def)
  moreover have "nodeMap (RemoveNode h node) x = Some n \<longleftrightarrow> n \<in> M - {node} \<and> x \<in> positions (replicas h) n" for x n
    using ok mem positions_disjoint [OF nc, of n node] by (auto simp: ring_ok_def RemoveNode_sel)
  ultimately show ?thesis
    using ok by (auto simp: ring_ok_def RemoveNode_sel)
qed

lemma sorted_mset_unique: "sorted xs \<Longrightarrow> sorted ys \<Longrightarrow> mset xs = mset ys \<Longrightarrow> xs = ys"
  by (metis properties_for_sort)

text \<open>Removing a broker right after adding it gives back the ring, whatever the positions are.\<close>

lemma nodes_Remove_Add: "sorted (nodes h) \<Longrightarrow> nodes (RemoveNode (AddNode h node) node) = nodes h"
  by (rule sorted_mset_unique) (simp_all add: RemoveNode_sel AddNode_sel)

lemma nodes_Remove_Add_Add:
  "nodes (RemoveNode (AddNode (AddNode h node) node) node) = nodes (AddNode h node)"
  by (rule nodes_Remove_Add) (simp add: AddNode_sel)

section \<open>The successor position\<close>

text \<open>\<open>y\<close> is the first position of \<open>S\<close> clockwise from \<open>k\<close>, wrapping around at the end.\<close>

definition is_succ :: "u32 set \<Rightarrow> u32 \<Rightarrow> u32 \<Rightarrow> bool" where
  "is_succ S k y \<longleftrightarrow> y \<in> S \<and>
     (if k \<le> y then \<forall>x \<in> S. k \<le> x \<longrightarrow> y \<le> x else \<forall>x \<in> S. x < k \<and> y \<le> x)"

lemma is_succ_unique: "is_succ S k y \<Longrightarrow> is_succ S k z \<Longrightarrow> y = z"
  by (auto simp: is_succ_def split: if_splits intro: order.antisym)

lemma is_succ_subset: "is_succ S k y \<Longrightarrow> T \<subseteq> S \<Longrightarrow> y \<in> T \<Longrightarrow> is_succ T k y"
  by (auto simp: is_succ_def split: if_splits)

lemma is_succ_superset: "is_succ S k y \<Longrightarrow> S \<subseteq> T \<Longrightarrow> is_succ T k z \<Longrightarrow> z = y \<or> z \<notin> S"
  using is_succ_subset is_succ_unique by metis

lemma startIdx_succ:
  assumes "nodes h \<noteq> []" and "sorted (nodes h)"
  shows "is_succ (set (nodes h)) (hash k) (nodes h ! startIdx (GetNodeIter h k))"
proof -
  let ?n = "length (nodes h)" and ?f = "\<lambda>i. hash k \<le> nodes h ! i"
  let ?i = "sort_Search ?n ?f"
  have mono: "\<forall>a b. a \<le> b \<longrightarrow> b < ?n \<longrightarrow> ?f a \<longrightarrow> ?f b"
    using assms(2) by (meson order.trans sorted_nth_mono)
  note search = sort_Search_spec [OF mono]
  show ?thesis
  proof (cases "?i = ?n")
    case True
    then have "\<forall>x \<in> set (nodes h). x < hash k"
      using search(2) by (auto simp: in_set_conv_nth not_le)
    moreover have "\<forall>x \<in> set (nodes h). nodes h ! 0 \<le> x"
      using assms by (auto simp: in_set_conv_nth intro: sorted_nth_mono)
    ultimately show ?thesis
      using assms(1) True by (auto simp: is_succ_def GetNodeIter_def Let_def not_le)
  next
    case False
    then have lt: "?i < ?n" using search(1) by simp
    have "nodes h ! ?i \<le> x" if x: "x \<in> set (nodes h)" "hash k \<le> x" for x
    proof -
      from x(1) obtain j where "j < ?n" "x = nodes h ! j" by (metis in_set_conv_nth)
      with search(2) [of j] x(2) have "?i \<le> j" by (meson not_less)
      with \<open>j < ?n\<close> \<open>x = _\<close> assms(2) show ?thesis by (simp add: sorted_nth_mono)
    qed
    moreover have "hash k \<le> nodes h ! ?i" using search(3) lt by simp
    ultimately show ?thesis
      using assms(1) False lt by (simp add: is_succ_def GetNodeIter_def Let_def)
  qed
qed

lemma GetNode_start:
  assumes "nodes h \<noteq> []"
  shows "GetNode h k = go_lookup (nodeMap h) (nodes h ! startIdx (GetNodeIter h k))"
proof -
  let ?it = "GetNodeIter h k"
  have w: "walk_at h ?it 0" using assms by (rule walk_at_GetNodeIter)
  have "seen ?it = {}" by (simp add: GetNodeIter_def Let_def)
  then have "fst (fst (Next h ?it)) = owners h (startIdx ?it) ! 0"
    using assms unfolding Next_walk [OF w]
    by (cases "owners h (startIdx ?it)") (auto simp: owners_def)
  with w assms show ?thesis by (simp add: GetNode_def owners_nth walk_at_def)
qed

lemma GetNode_succ:
  assumes "ring_ok h M" and "nodes h \<noteq> []"
  obtains y where "is_succ (set (nodes h)) (hash k) y" and "nodeMap h y = Some (GetNode h k)"
proof -
  let ?y = "nodes h ! startIdx (GetNodeIter h k)"
  have succ: "is_succ (set (nodes h)) (hash k) ?y"
    using assms by (intro startIdx_succ) (auto simp: ring_ok_def)
  then have "?y \<in> dom (nodeMap h)" using assms(1) by (simp add: is_succ_def ring_ok_def)
  then have "nodeMap h ?y = Some (GetNode h k)"
    using GetNode_start [OF assms(2)] by (auto simp: go_lookup_def)
  with succ show ?thesis by (rule that)
qed

section \<open>Walks that meet every broker\<close>

lemma visit_all:
  "[] \<notin> set os \<Longrightarrow> os \<noteq> [] \<Longrightarrow> last os \<in> S \<union> set (butlast os) \<Longrightarrow> S \<union> set (visit st S os) = S \<union> set os"
proof (induction st S os rule: visit.induct)
  case (2 st S x xs)
  show ?case
  proof (cases "xs = []")
    case True
    with "2.prems" show ?thesis by auto
  next
    case False
    with 2 show ?thesis by (cases "x \<in> S") (auto split: if_splits)
  qed
qed simp

lemma set_circle:
  assumes "ring_ok h M" and "nodes h \<noteq> []" and "0 < replicas h"
  shows "set (circle h k) = M"
proof -
  have "set (circle h k) = go_lookup (nodeMap h) ` dom (nodeMap h)"
    using assms(1) by (auto simp: circle_def owners_def ring_ok_def)
  also have "\<dots> = ran (nodeMap h)"
    by (force simp: go_lookup_def ran_def dom_def image_def)
  also have "\<dots> = M"
    using assms(1,3) unfolding ring_ok_def ran_def positions_def by (auto simp: image_def) force
  finally show ?thesis .
qed

section \<open>A ring of two brokers\<close>

definition ring_ab :: hash_ring where
  "ring_ab = AddNode (AddNode (NewHashRing 1) ''a'') ''b''"

lemma ring_ab_replicas [simp]: "replicas ring_ab = 1"
  by (simp add: ring_ab_def AddNode_sel NewHashRing_def)

lemma ring_ab_nonempty [simp]: "nodes ring_ab \<noteq> []"
  by code_simp

lemma vhash_abc:
  "vhash ''a'' 0 \<noteq> vhash ''b'' 0" "vhash ''a'' 0 \<noteq> vhash ''c'' 0" "vhash ''b'' 0 \<noteq> vhash ''c'' 0"
  by code_simp+

lemma ring_abc_no_collision: "no_collision 1 {''c'', ''a'', ''b''}"
  using vhash_abc by (auto simp: no_collision_def inj_on_def)

lemma ring_ab_no_collision: "no_collision 1 {''a'', ''b''}"
  using ring_abc_no_collision by (auto simp: no_collision_def intro: inj_on_subset)

lemma ring_ab_ok: "ring_ok ring_ab {''a'', ''b''}"
proof -
  have "no_collision 1 {''a''}" "no_collision 1 {''b'', ''a''}"
    using ring_abc_no_collision by (auto simp: no_collision_def intro: inj_on_subset)
  then have "ring_ok (AddNode (NewHashRing 1) ''a'') {''a''}"
    using ring_ok_AddNode [OF ring_ok_New, of "''a''" 1] by (simp add: NewHashRing_def)
  from ring_ok_AddNode [OF this, of "''b''"] \<open>no_collision 1 {''b'', ''a''}\<close>
  show ?thesis by (simp add: ring_ab_def AddNode_sel NewHashRing_def insert_commute)
qed

section \<open>Properties\<close>

lemma RemoveNode_nodes_subset: "distinct (nodes h) \<Longrightarrow>
  set (nodes (RemoveNode h node)) = set (nodes h) - positions (replicas h) node"
  using remove_virtual_fold_distinct [of h node "[0..<nat (replicas h)]"]
  by (simp add: RemoveNode_def positions_def)

text \<open>
  C20: Minimal disruption. When a broker leaves the ring, every key that another broker served
  is still served by that broker: \<^verbatim>\<open>GetNode\<close> changes its answer only for keys of the broker that
  left.
\<close>

theorem RemoveNode_minimal_disruption:
  assumes "ring_ok h M" and "no_collision (replicas h) M" and "node \<in> M"
    and "nodes h \<noteq> []" and "GetNode h k \<noteq> node"
  shows "GetNode (RemoveNode h node) k = GetNode h k"
proof -
  have ok': "ring_ok (RemoveNode h node) (M - {node})"
    using assms(1-3) by (rule ring_ok_RemoveNode)
  obtain y where y: "is_succ (set (nodes h)) (hash k) y" "nodeMap h y = Some (GetNode h k)"
    using GetNode_succ [OF assms(1,4)] .
  have notin: "y \<notin> positions (replicas h) node"
    using y(2) assms(1,3,5) by (metis option.inject ring_ok_def)
  have set': "set (nodes (RemoveNode h node)) = set (nodes h) - positions (replicas h) node"
    using assms(1) by (intro RemoveNode_nodes_subset) (simp add: ring_ok_def)
  then have y': "is_succ (set (nodes (RemoveNode h node))) (hash k) y"
    using y(1) notin by (auto intro: is_succ_subset simp: is_succ_def)
  then have "nodes (RemoveNode h node) \<noteq> []" by (auto simp: is_succ_def)
  then obtain z where "is_succ (set (nodes (RemoveNode h node))) (hash k) z"
    "nodeMap (RemoveNode h node) z = Some (GetNode (RemoveNode h node) k)"
    by (rule GetNode_succ [OF ok'])
  moreover from this(1) y' have "z = y" by (rule is_succ_unique)
  ultimately show ?thesis using y(2) notin by (simp add: RemoveNode_sel)
qed

theorem RemoveNode_minimal_disruption_witness:
  "GetNode (RemoveNode ring_ab ''b'') ''t'' = GetNode ring_ab ''t'' \<and> GetNode ring_ab ''t'' = ''a''"
proof -
  have "GetNode ring_ab ''t'' = ''a''" and "nodes ring_ab \<noteq> []" by code_simp+
  then show ?thesis
    using RemoveNode_minimal_disruption [OF ring_ab_ok, of "''b''" "''t''"] ring_ab_no_collision
    by (simp add: ring_ab_def NewHashRing_def AddNode_sel)
qed

text \<open>
  C21: A broker that joins takes keys only for itself: after \<^verbatim>\<open>AddNode\<close>, \<^verbatim>\<open>GetNode\<close> returns either
  what it returned before or the new broker.
\<close>

theorem AddNode_minimal_disruption:
  assumes "ring_ok h M" and "node \<notin> M" and "no_collision (replicas h) (insert node M)"
    and "nodes h \<noteq> []"
  shows "GetNode (AddNode h node) k \<in> {GetNode h k, node}"
proof -
  have ok': "ring_ok (AddNode h node) (insert node M)"
    using assms(1-3) by (rule ring_ok_AddNode)
  obtain y where y: "is_succ (set (nodes h)) (hash k) y" "nodeMap h y = Some (GetNode h k)"
    using GetNode_succ [OF assms(1,4)] .
  have sub: "set (nodes h) \<subseteq> set (nodes (AddNode h node))" by (auto simp: AddNode_sel)
  with assms(4) have "nodes (AddNode h node) \<noteq> []" by auto
  then obtain z where z: "is_succ (set (nodes (AddNode h node))) (hash k) z"
    "nodeMap (AddNode h node) z = Some (GetNode (AddNode h node) k)"
    by (rule GetNode_succ [OF ok'])
  show ?thesis
  proof (cases "z \<in> positions (replicas h) node")
    case True
    with z(2) show ?thesis by (simp add: AddNode_sel)
  next
    case False
    with z(2) have "z \<in> set (nodes h)" and "nodeMap h z = Some (GetNode (AddNode h node) k)"
      using assms(1) by (auto simp: AddNode_sel ring_ok_def)
    with is_succ_superset [OF y(1) sub z(1)] y(2) show ?thesis by simp
  qed
qed

theorem AddNode_minimal_disruption_witness:
  "GetNode (AddNode ring_ab ''c'') ''t'' \<in> {GetNode ring_ab ''t'', ''c''}"
  using AddNode_minimal_disruption [OF ring_ab_ok, of "''c''" "''t''"] ring_abc_no_collision
  by (simp add: ring_ab_replicas ring_ab_nonempty)

text \<open>
  C22: The ring stays well formed. Adding a broker that is not a member and removing a member
  keep the positions sorted, without repetition and owned by exactly the members, as long as no
  two virtual nodes collide; and removing a broker right after adding it restores the ring.
\<close>

theorem ring_membership:
  assumes "ring_ok h M" and "node \<notin> M" and "no_collision (replicas h) (insert node M)"
  shows "ring_ok (AddNode h node) (insert node M) \<and>
    (\<forall>m \<in> M. ring_ok (RemoveNode h m) (M - {m})) \<and>
    RemoveNode (AddNode h node) node = h"
proof (intro conjI ballI)
  show "ring_ok (AddNode h node) (insert node M)" using assms by (rule ring_ok_AddNode)
next
  fix m assume "m \<in> M"
  moreover have "no_collision (replicas h) M"
    using assms(3) by (auto simp: no_collision_def intro: inj_on_subset)
  ultimately show "ring_ok (RemoveNode h m) (M - {m})"
    using assms(1) by (intro ring_ok_RemoveNode)
next
  have "nodeMap h x = None" if "x \<in> positions (replicas h) node" for x
    using assms that positions_disjoint [OF assms(3), of node]
    by (cases "nodeMap h x") (auto simp: ring_ok_def)
  then have "nodeMap (RemoveNode (AddNode h node) node) = nodeMap h"
    by (auto simp: fun_eq_iff RemoveNode_sel AddNode_sel)
  moreover have "nodes (RemoveNode (AddNode h node) node) = nodes h"
    using assms(1) by (intro nodes_Remove_Add) (simp add: ring_ok_def)
  ultimately show "RemoveNode (AddNode h node) node = h"
    by (simp add: RemoveNode_sel AddNode_sel)
qed

theorem ring_membership_witness:
  "ring_ok (AddNode ring_ab ''c'') {''a'', ''b'', ''c''} \<and> ring_ok (RemoveNode ring_ab ''a'') {''b''} \<and>
   RemoveNode (AddNode ring_ab ''c'') ''c'' = ring_ab"
proof -
  have "{''c'', ''a'', ''b''} = {''a'', ''b'', ''c''}" and "{''a'', ''b''} - {''a''} = {''b''}" by auto
  then show ?thesis
    using ring_membership [OF ring_ab_ok, of "''c''"] ring_abc_no_collision
    by (simp add: ring_ab_replicas)
qed

text \<open>
  C23: \<^verbatim>\<open>GetNodes\<close> computes the clockwise walk: for a count that is not negative it returns the
  first \<open>cnt\<close> entries of \<open>visit\<close> on the circle of the key. So the nodes are pairwise different,
  none is empty, each owns a position of the ring, and there are at most \<open>cnt\<close> of them.
\<close>

theorem GetNodes_walk:
  assumes "0 \<le> cnt"
  shows "\<exists>ns. GetNodes h k cnt = Some ns \<and> ns = take (nat cnt) (visit False {} (circle h k)) \<and>
    distinct ns \<and> [] \<notin> set ns \<and> set ns \<subseteq> go_lookup (nodeMap h) ` set (nodes h) \<and>
    length ns \<le> nat cnt"
proof -
  let ?v = "visit False {} (circle h k)"
  have "set (circle h k) \<subseteq> go_lookup (nodeMap h) ` set (nodes h)"
    by (auto simp: circle_def owners_def)
  then have "set (take (nat cnt) ?v) \<subseteq> go_lookup (nodeMap h) ` set (nodes h)"
    using visit_subset [of False "{}" "circle h k"] set_take_subset [of "nat cnt" ?v] by blast
  moreover have "distinct (take (nat cnt) ?v)" and "[] \<notin> set (take (nat cnt) ?v)"
    using visit_distinct [of False "{}" "circle h k"] by (auto dest: in_set_takeD)
  ultimately show ?thesis
    using GetNodes_eq_walk [OF assms, of h k] by simp
qed

theorem GetNodes_walk_witness:
  "\<exists>ns. GetNodes ring_ab ''t'' 1 = Some ns \<and> ns = take (nat 1) (visit False {} (circle ring_ab ''t'')) \<and>
     distinct ns \<and> [] \<notin> set ns \<and> set ns \<subseteq> go_lookup (nodeMap ring_ab) ` set (nodes ring_ab) \<and>
     length ns \<le> nat 1"
  using GetNodes_walk [of 1 ring_ab "''t''"] by simp

text \<open>
  A broker that is added twice cannot be removed. One \<^verbatim>\<open>RemoveNode\<close> leaves its virtual
  nodes on the ring while it deletes their owner, so the ring has positions that belong to
  nobody: this is what recovery from etcd followed by the loss of a broker produces.
\<close>

theorem RemoveNode_after_double_add:
  assumes "i < nat (replicas h)"
  shows "hash (virtualNode node i) \<in> set (nodes (RemoveNode (AddNode (AddNode h node) node) node)) \<and>
    nodeMap (RemoveNode (AddNode (AddNode h node) node) node) (hash (virtualNode node i)) = None"
  using assms by (auto simp: nodes_Remove_Add_Add AddNode_sel RemoveNode_sel positions_def vhash_def)

theorem RemoveNode_after_double_add_witness:
  "hash ''a:0'' \<in> set (nodes (RemoveNode (AddNode (AddNode (NewHashRing 1) ''a'') ''a'') ''a'')) \<and>
   nodeMap (RemoveNode (AddNode (AddNode (NewHashRing 1) ''a'') ''a'') ''a'') (hash ''a:0'') = None"
proof -
  have "virtualNode ''a'' 0 = ''a:0''" by code_simp
  then show ?thesis
    using RemoveNode_after_double_add [of 0 "NewHashRing 1" "''a''"] by (simp add: NewHashRing_def)
qed

text \<open>
  The walk can lose a broker. With one virtual node for each of two brokers the circle has
  two positions; the second broker comes with the error that announces the end of the circle,
  and \<^verbatim>\<open>GetNodes\<close> drops it: two nodes are asked for, two exist, one is returned.
\<close>

theorem GetNodes_drops_last:
  "GetNodes ring_ab ''t'' 2 = Some [''a''] \<and> set (circle ring_ab ''t'') = {''a'', ''b''}"
proof
  show "GetNodes ring_ab ''t'' 2 = Some [''a'']" by code_simp
  show "set (circle ring_ab ''t'') = {''a'', ''b''}" by code_simp
qed

text \<open>
  The walk is complete when the last position of the circle repeats an owner that was met
  before: then \<^verbatim>\<open>GetNodes\<close> with a large enough count returns every broker of the ring.
\<close>

theorem GetNodes_complete:
  assumes "ring_ok h M" and "[] \<notin> M" and "nodes h \<noteq> []"
    and "last (circle h k) \<in> set (butlast (circle h k)) \<or> length (nodes h) = 1"
    and "int (card M) \<le> cnt" and "0 < replicas h"
  shows "\<exists>ns. GetNodes h k cnt = Some ns \<and> set ns = M"
proof -
  have M: "set (circle h k) = M"
    using assms(1,3,6) by (rule set_circle)
  have len: "length (circle h k) = length (nodes h)" by (simp add: circle_def)
  have all: "set (visit False {} (circle h k)) = M"
  proof (cases "length (nodes h) = 1")
    case True
    with len obtain x where "circle h k = [x]" by (cases "circle h k") auto
    with M assms(2) show ?thesis by auto
  next
    case False
    moreover have "circle h k \<noteq> []" using len assms(3) by auto
    ultimately show ?thesis
      using assms(2,4) visit_all [of "circle h k" "{}" False] M by simp
  qed
  have "length (visit False {} (circle h k)) = card M"
    using all visit_distinct [of False "{}" "circle h k"] distinct_card by metis
  with all assms(5) show ?thesis
    using GetNodes_eq_walk [of cnt h k] by simp
qed

theorem GetNodes_complete_witness:
  "\<exists>ns. GetNodes (AddNode (NewHashRing 1) ''a'') ''t'' 3 = Some ns \<and> set ns = {''a''}"
proof -
  have "no_collision 1 {''a''}" by (simp add: no_collision_def inj_on_def)
  then have "ring_ok (AddNode (NewHashRing 1) ''a'') {''a''}"
    using ring_ok_AddNode [OF ring_ok_New, of "''a''" 1] by (simp add: NewHashRing_def)
  moreover have "length (nodes (AddNode (NewHashRing 1) ''a'')) = 1"
    by (simp add: AddNode_sel NewHashRing_def)
  moreover from this have "nodes (AddNode (NewHashRing 1) ''a'') \<noteq> []" by auto
  ultimately show ?thesis
    by (intro GetNodes_complete [where M = "{''a''}"]) (simp_all add: AddNode_sel NewHashRing_def)
qed

end
