(* ===== verification/WAL.thy ===== *)
theory WAL
  imports FileSys "HOL-Library.List_Lexorder" "HOL-Library.Char_ord"
begin

text \<open>
  The write-ahead log of \<^verbatim>\<open>internal/storage/wal.go\<close>: the entry format, \<^verbatim>\<open>Write\<close> with its
  rotation check, \<^verbatim>\<open>Flush\<close>, \<^verbatim>\<open>Close\<close>, and replay. The mutex of the log is a field of the
  state, because \<^verbatim>\<open>Write\<close> calls \<^verbatim>\<open>createNewFile\<close> while it holds it: locking a held mutex never
  returns. The name of a new file comes from the clock (\<^verbatim>\<open>time.Now().Format\<close>); the formatted
  second is the argument \<open>stamp\<close>.
\<close>

section \<open>State\<close>

record wal_entry =
  we_Type :: u8
  we_Topic :: string
  we_MessageID :: u64
  we_Payload :: bytes
  we_Timestamp :: i64

record wal =
  w_dir :: string
  w_currentFile :: "os_file option"
  w_currentPath :: string
  w_mu :: bool
  w_maxFileSize :: int
  w_flushInterval :: time
  w_stopped :: bool

datatype parse_error =
  ShortEntry | NoTopicLength | NoTopic | NoMessageID | NoPayloadLength | NoPayload | NoTimestamp

datatype wal_error =
  WMkdir | WCreate | WMagic | WVersion
| WEntrySize | WEntryType | WTopicLength | WTopic | WMessageID | WPayloadLength | WPayload | WTimestamp
| WSync io_error | WClose io_error
| WOpen | WReadMagic | WBadMagic | WReadVersion | WReadEntrySize | WReadEntryData
| WParse parse_error | WHandler

section \<open>Operations\<close>

definition wal_magic :: bytes where
  "wal_magic = str_bytes ''WAL1''"

definition wal_header :: bytes where
  "wal_header = wal_magic @ put_u32 1"

definition close_current :: "wal \<Rightarrow> fsys \<Rightarrow> wal \<times> fsys" where
  "close_current w fs =
     (case w_currentFile w of
        None \<Rightarrow> (w, fs)
      | Some f \<Rightarrow> (case file_Close f fs of ((f', _), fs') \<Rightarrow> (w\<lparr>w_currentFile := Some f'\<rparr>, fs')))"

definition createNewFile :: "string \<Rightarrow> wal \<Rightarrow> fsys \<Rightarrow> ((wal_error option \<times> wal) \<times> fsys) call" where
  "createNewFile stamp w fs =
     (if w_mu w then Blocks
      else case close_current w fs of (w1, fs1) \<Rightarrow>
        let path = filepath_Join [w_dir w1, ''wal_'' @ stamp @ ''.log'']
        in case os_Create path fs1 of
             (Inl _, fs2) \<Rightarrow> Returns ((Some WCreate, w1), fs2)
           | (Inr f, fs2) \<Rightarrow>
               (case write_fields f [(WMagic, wal_magic), (WVersion, put_u32 1)] fs2 of
                  ((f', Some e), fs3) \<Rightarrow> Returns ((Some e, w1), snd (file_Close f' fs3))
                | ((f', None), fs3) \<Rightarrow>
                    Returns ((None, w1\<lparr>w_currentFile := Some f', w_currentPath := path\<rparr>), fs3)))"

definition NewWAL :: "string \<Rightarrow> string \<Rightarrow> int \<Rightarrow> time \<Rightarrow> fsys \<Rightarrow> ((wal_error + wal) \<times> fsys) call" where
  "NewWAL stamp dir maxFileSize flushInterval fs =
     (case os_MkdirAll dir fs of
        (Some _, fs1) \<Rightarrow> Returns (Inl WMkdir, fs1)
      | (None, fs1) \<Rightarrow>
          bind_call
            (createNewFile stamp
               \<lparr>w_dir = dir, w_currentFile = None, w_currentPath = [], w_mu = False,
                w_maxFileSize = maxFileSize, w_flushInterval = flushInterval, w_stopped = False\<rparr> fs1)
            (\<lambda>((err, w), fs2). Returns (case err of Some e \<Rightarrow> Inl e | None \<Rightarrow> Inr w, fs2)))"

definition entrySize :: "wal_entry \<Rightarrow> nat" where
  "entrySize e = 1 + 4 + length (we_Topic e) + 8 + 4 + length (we_Payload e) + 8"

definition entry_fields :: "wal_entry \<Rightarrow> (wal_error \<times> bytes) list" where
  "entry_fields e =
     [(WEntrySize, put_u32 (word_of_nat (entrySize e))),
      (WEntryType, [we_Type e]),
      (WTopicLength, put_u32 (word_of_nat (length (we_Topic e)))),
      (WTopic, str_bytes (we_Topic e)),
      (WMessageID, put_u64 (we_MessageID e)),
      (WPayloadLength, put_u32 (word_of_nat (length (we_Payload e)))),
      (WPayload, we_Payload e),
      (WTimestamp, put_u64 (we_Timestamp e))]"

text \<open>
  The rotation check of \<^verbatim>\<open>Write\<close>: the size is only read when there is a current file, and an
  error of \<^verbatim>\<open>Stat\<close> skips the rotation.
\<close>

definition rotate_if_full :: "string \<Rightarrow> wal \<Rightarrow> fsys \<Rightarrow> ((wal_error option \<times> wal) \<times> fsys) call" where
  "rotate_if_full stamp w fs =
     (case w_currentFile w of
        None \<Rightarrow> Returns ((None, w), fs)
      | Some f \<Rightarrow>
          (case file_Size f fs of
             (Inl _, fs1) \<Rightarrow> Returns ((None, w), fs1)
           | (Inr sz, fs1) \<Rightarrow>
               if w_maxFileSize w \<le> int sz then createNewFile stamp w fs1
               else Returns ((None, w), fs1)))"

definition Write :: "string \<Rightarrow> wal_entry \<Rightarrow> wal \<Rightarrow> fsys \<Rightarrow> ((wal_error option \<times> wal) \<times> fsys) call" where
  "Write stamp e w fs =
     (if w_mu w then Blocks
      else bind_call (rotate_if_full stamp (w\<lparr>w_mu := True\<rparr>) fs)
        (\<lambda>((err, w1), fs1). Returns
          (case err of
             Some x \<Rightarrow> ((Some x, w1\<lparr>w_mu := False\<rparr>), fs1)
           | None \<Rightarrow>
               (case w_currentFile w1 of
                  None \<Rightarrow> ((Some WEntrySize, w1\<lparr>w_mu := False\<rparr>), fs1)
                | Some f \<Rightarrow>
                    (case write_fields f (entry_fields e) fs1 of
                       ((f', r), fs2) \<Rightarrow> ((r, w1\<lparr>w_currentFile := Some f', w_mu := False\<rparr>), fs2))))))"

definition WriteMessage ::
  "string \<Rightarrow> time \<Rightarrow> string \<Rightarrow> u64 \<Rightarrow> bytes \<Rightarrow> wal \<Rightarrow> fsys \<Rightarrow> ((wal_error option \<times> wal) \<times> fsys) call" where
  "WriteMessage stamp now topic messageID payload w fs =
     Write stamp \<lparr>we_Type = 1, we_Topic = topic, we_MessageID = messageID, we_Payload = payload,
                  we_Timestamp = word_of_int (Unix now)\<rparr> w fs"

definition WriteRemoveTopic ::
  "string \<Rightarrow> time \<Rightarrow> string \<Rightarrow> string \<Rightarrow> wal \<Rightarrow> fsys \<Rightarrow> ((wal_error option \<times> wal) \<times> fsys) call" where
  "WriteRemoveTopic stamp now topic reason w fs =
     Write stamp \<lparr>we_Type = 2, we_Topic = topic, we_MessageID = 0, we_Payload = str_bytes reason,
                  we_Timestamp = word_of_int (Unix now)\<rparr> w fs"

definition Flush :: "wal \<Rightarrow> fsys \<Rightarrow> (wal_error option \<times> fsys) call" where
  "Flush w fs =
     (if w_mu w then Blocks
      else case w_currentFile w of
        None \<Rightarrow> Returns (None, fs)
      | Some f \<Rightarrow> (case file_Sync f fs of (r, fs') \<Rightarrow> Returns (map_option WSync r, fs')))"

text \<open>
  The flush goroutine: it flushes at every tick of its ticker; when the stop channel is closed
  it flushes once more and ends. Its flush errors are ignored.
\<close>

datatype flush_event = FlushTick | FlushStop

definition flushRoutine_step :: "flush_event \<Rightarrow> wal \<Rightarrow> fsys \<Rightarrow> (bool \<times> fsys) call" where
  "flushRoutine_step ev w fs =
     bind_call (Flush w fs) (\<lambda>(_, fs'). Returns (ev = FlushStop, fs'))"

text \<open>\<^verbatim>\<open>Close\<close> waits for the last flush of the goroutine; closing the channel twice panics.\<close>

definition Close :: "wal \<Rightarrow> fsys \<Rightarrow> ((wal_error option \<times> wal) \<times> fsys) call" where
  "Close w fs =
     (if w_stopped w then Panics
      else bind_call (flushRoutine_step FlushStop (w\<lparr>w_stopped := True\<rparr>) fs)
        (\<lambda>(_, fs1).
          if w_mu w then Blocks
          else case w_currentFile w of
            None \<Rightarrow> Returns ((None, w\<lparr>w_stopped := True\<rparr>), fs1)
          | Some f \<Rightarrow>
              (case file_Close f fs1 of
                 ((f', r), fs2) \<Rightarrow>
                   Returns ((map_option WClose r, w\<lparr>w_stopped := True, w_currentFile := Some f'\<rparr>), fs2))))"

section \<open>Replay\<close>

definition parseEntry :: "bytes \<Rightarrow> parse_error + wal_entry" where
  "parseEntry data =
     (if length data < 1 then Inl ShortEntry
      else if 1 + 4 > length data then Inl NoTopicLength
      else
        let entryType = data ! 0;
            topicLen = unat (get_u32 (drop 1 data));
            off1 = 1 + 4
        in if off1 + topicLen > length data then Inl NoTopic
      else
        let topic = bytes_str (take topicLen (drop off1 data));
            off2 = off1 + topicLen
        in if off2 + 8 > length data then Inl NoMessageID
      else
        let messageID = get_u64 (drop off2 data);
            off3 = off2 + 8
        in if off3 + 4 > length data then Inl NoPayloadLength
      else
        let payloadLen = unat (get_u32 (drop off3 data));
            off4 = off3 + 4
        in if off4 + payloadLen > length data then Inl NoPayload
      else
        let payload = take payloadLen (drop off4 data);
            off5 = off4 + payloadLen
        in if off5 + 8 > length data then Inl NoTimestamp
      else Inr \<lparr>we_Type = entryType, we_Topic = topic, we_MessageID = messageID,
                we_Payload = payload, we_Timestamp = get_u64 (drop off5 data)\<rparr>)"

text \<open>
  The handler may change any state \<open>'s\<close>, the file system included: the broker's handler writes
  fragments.
\<close>

type_synonym 's replay_handler = "wal_entry \<Rightarrow> 's \<Rightarrow> bool \<times> 's"

function replay_loop :: "'s replay_handler \<Rightarrow> bytes \<Rightarrow> 's \<Rightarrow> wal_error option \<times> 's" where
  "replay_loop handler bs s =
     (if bs = [] then (None, s)
      else case read_full 4 bs of
        None \<Rightarrow> (Some WReadEntrySize, s)
      | Some (a, r) \<Rightarrow>
          (case read_full (unat (get_u32 a)) r of
             None \<Rightarrow> (Some WReadEntryData, s)
           | Some (d, r') \<Rightarrow>
               (case parseEntry d of
                  Inl e \<Rightarrow> (Some (WParse e), s)
                | Inr en \<Rightarrow>
                    (case handler en s of
                       (False, s') \<Rightarrow> (Some WHandler, s')
                     | (True, s') \<Rightarrow> replay_loop handler r' s'))))"
  by pat_completeness auto
termination
  by (relation "measure (\<lambda>(_, bs, _). length bs)") (auto dest!: read_full_length)

declare replay_loop.simps [simp del]

definition replay_bytes :: "'s replay_handler \<Rightarrow> bytes \<Rightarrow> 's \<Rightarrow> wal_error option \<times> 's" where
  "replay_bytes handler bs s =
     (case read_full 4 bs of
        None \<Rightarrow> (Some WReadMagic, s)
      | Some (m, r) \<Rightarrow>
          if m \<noteq> wal_magic then (Some WBadMagic, s)
          else case read_full 4 r of
            None \<Rightarrow> (Some WReadVersion, s)
          | Some (_, r') \<Rightarrow> replay_loop handler r' s)"

definition replayFile ::
  "(wal_entry \<Rightarrow> 's \<times> fsys \<Rightarrow> bool \<times> 's \<times> fsys) \<Rightarrow> string \<Rightarrow> 's \<times> fsys \<Rightarrow> wal_error option \<times> 's \<times> fsys" where
  "replayFile handler path s =
     (case s of (st, fs) \<Rightarrow>
        case os_Open path fs of
          (Inl _, fs1) \<Rightarrow> (Some WOpen, st, fs1)
        | (Inr bs, fs1) \<Rightarrow> replay_bytes handler bs (st, fs1))"

text \<open>
  \<^verbatim>\<open>filepath.Glob\<close> of \<^verbatim>\<open>wal_*.log\<close> in the log's directory: the names in byte order. The star
  matches no separator.
\<close>

definition wal_path :: "string \<Rightarrow> string \<Rightarrow> bool" where
  "wal_path dir p \<longleftrightarrow>
     (let pre = join_prefix dir @ ''wal_'';
          rest = drop (length pre) p
      in take (length pre) p = pre \<and> CHR ''/'' \<notin> set rest \<and> 4 \<le> length rest \<and>
         drop (length rest - 4) rest = ''.log'')"

definition wal_files :: "string \<Rightarrow> fsys \<Rightarrow> string list" where
  "wal_files dir fs = sort (filter (wal_path dir) (map fst (dirents fs)))"

text \<open>A file that cannot be replayed is reported and skipped; \<^verbatim>\<open>Replay\<close> itself never fails.\<close>

definition Replay ::
  "(wal_entry \<Rightarrow> 's \<times> fsys \<Rightarrow> bool \<times> 's \<times> fsys) \<Rightarrow> wal \<Rightarrow> 's \<times> fsys \<Rightarrow> 's \<times> fsys" where
  "Replay handler w s =
     foldl (\<lambda>s path. snd (replayFile handler path s)) s (wal_files (w_dir w) (snd s))"

section \<open>The entry format\<close>

definition entry_body :: "wal_entry \<Rightarrow> bytes" where
  "entry_body e = concat (map snd (tl (entry_fields e)))"

definition enc_entry :: "wal_entry \<Rightarrow> bytes" where
  "enc_entry e = concat (map snd (entry_fields e))"

text \<open>The sizes are written as \<^verbatim>\<open>uint32\<close>; an entry is representable when they fit.\<close>

definition entry_ok :: "wal_entry \<Rightarrow> bool" where
  "entry_ok e \<longleftrightarrow> entrySize e < 2 ^ 32"

definition dec_frame :: "bytes \<Rightarrow> (wal_entry \<times> bytes) option" where
  "dec_frame bs =
     (case read_full 4 bs of None \<Rightarrow> None
      | Some (a, r) \<Rightarrow>
          (case read_full (unat (get_u32 a)) r of None \<Rightarrow> None
           | Some (d, r') \<Rightarrow> (case parseEntry d of Inl _ \<Rightarrow> None | Inr e \<Rightarrow> Some (e, r'))))"

lemma enc_entry_frame: "enc_entry e = put_u32 (word_of_nat (entrySize e)) @ entry_body e"
  by (simp add: enc_entry_def entry_body_def entry_fields_def)

lemma length_entry_body [simp]: "length (entry_body e) = entrySize e"
  by (simp add: entry_body_def entry_fields_def entrySize_def)

lemma unat_u32_of_nat: "n < 2 ^ 32 \<Longrightarrow> unat (word_of_nat n :: u32) = n"
  by (simp add: unat_of_nat)

lemma entry_ok_lengths:
  assumes "entry_ok e"
  shows "unat (word_of_nat (entrySize e) :: u32) = entrySize e"
    and "unat (word_of_nat (length (we_Topic e)) :: u32) = length (we_Topic e)"
    and "unat (word_of_nat (length (we_Payload e)) :: u32) = length (we_Payload e)"
proof -
  have "entrySize e < 2 ^ 32" "length (we_Topic e) < 2 ^ 32" "length (we_Payload e) < 2 ^ 32"
    using assms by (simp_all add: entry_ok_def entrySize_def)
  then show "unat (word_of_nat (entrySize e) :: u32) = entrySize e"
    and "unat (word_of_nat (length (we_Topic e)) :: u32) = length (we_Topic e)"
    and "unat (word_of_nat (length (we_Payload e)) :: u32) = length (we_Payload e)"
    by (simp_all only: unat_u32_of_nat)
qed

lemma parseEntry_body_append:
  assumes "entry_ok e"
  shows "parseEntry (entry_body e @ rest) = Inr e"
proof -
  define a where "a = [we_Type e]"
  define t where "t = str_bytes (we_Topic e)"
  have a: "length a = 1" "a ! 0 = we_Type e" and t: "length t = length (we_Topic e)" "bytes_str t = we_Topic e"
    by (simp_all add: a_def t_def)
  have "entry_body e = a @ put_u32 (word_of_nat (length (we_Topic e))) @ t @ put_u64 (we_MessageID e) @
      put_u32 (word_of_nat (length (we_Payload e))) @ we_Payload e @ put_u64 (we_Timestamp e)"
    by (simp add: entry_body_def entry_fields_def a_def t_def)
  then show ?thesis
    using a t entry_ok_lengths [OF assms]
    by (simp add: parseEntry_def Let_def nth_append)
qed

lemma parseEntry_body: "entry_ok e \<Longrightarrow> parseEntry (entry_body e) = Inr e"
  using parseEntry_body_append [of e "[]"] by simp

text \<open>Conversely, what is parsed is the body of the result: the parser loses nothing.\<close>

lemma parseEntry_sound:
  assumes "parseEntry data = Inr e"
  shows "take (entrySize e) data = entry_body e" and "entrySize e \<le> length data"
proof -
  define tl where "tl = unat (get_u32 (drop 1 data))"
  define pl where "pl = unat (get_u32 (drop (5 + tl + 8) data))"
  have len: "5 + tl + 8 + 4 + pl + 8 \<le> length data"
    and e: "e = \<lparr>we_Type = data ! 0, we_Topic = bytes_str (take tl (drop 5 data)),
      we_MessageID = get_u64 (drop (5 + tl) data), we_Payload = take pl (drop (5 + tl + 8 + 4) data),
      we_Timestamp = get_u64 (drop (5 + tl + 8 + 4 + pl) data)\<rparr>"
    using assms by (auto simp: parseEntry_def Let_def tl_def pl_def add.commute split: if_splits)
  have lens: "length (we_Topic e) = tl" "length (we_Payload e) = pl" and size: "entrySize e = 5 + tl + 8 + 4 + pl + 8"
    using len by (simp_all add: e entrySize_def)
  then show "entrySize e \<le> length data" using len by simp
  have "take (entrySize e) data = take 1 data @ take 4 (drop 1 data) @ take tl (drop 5 data) @
      take 8 (drop (5 + tl) data) @ take 4 (drop (5 + tl + 8) data) @
      take pl (drop (5 + tl + 8 + 4) data) @ take 8 (drop (5 + tl + 8 + 4 + pl) data)"
    by (simp add: size take_add [symmetric] flip: append_assoc)
  moreover have "take 1 data = [data ! 0]" using len by (cases data) auto
  ultimately show "take (entrySize e) data = entry_body e"
    using len lens by (simp add: entry_body_def entry_fields_def put_get_u32 put_get_u64 e tl_def pl_def)
qed

lemma dec_frame_enc: "entry_ok e \<Longrightarrow> dec_frame (enc_entry e @ r) = Some (e, r)"
  using get_put_u32 [of _ "[]"]
  by (simp add: dec_frame_def enc_entry_frame entry_ok_lengths parseEntry_body)

interpretation wal_codec: codec enc_entry dec_frame entry_ok
  by unfold_locales (simp_all add: dec_frame_enc, simp add: dec_frame_def)

section \<open>Replaying what was written\<close>

text \<open>What a replay does to the handler's state: the entries in order, up to the first refusal.\<close>

fun run_handler :: "'s replay_handler \<Rightarrow> wal_entry list \<Rightarrow> 's \<Rightarrow> wal_error option \<times> 's" where
  "run_handler handler [] s = (None, s)"
| "run_handler handler (e # es) s =
     (case handler e s of (False, s') \<Rightarrow> (Some WHandler, s') | (True, s') \<Rightarrow> run_handler handler es s')"

lemma replay_loop_entry:
  assumes "entry_ok e"
  shows "replay_loop handler (enc_entry e @ r) s =
    (case handler e s of (False, s') \<Rightarrow> (Some WHandler, s') | (True, s') \<Rightarrow> replay_loop handler r s')"
  using assms get_put_u32 [of _ "[]"]
  by (subst replay_loop.simps) (simp add: enc_entry_frame entry_ok_lengths parseEntry_body)

lemma replay_loop_entries:
  "\<forall>e \<in> set es. entry_ok e \<Longrightarrow> replay_loop handler (concat (map enc_entry es) @ r) s =
    (case run_handler handler es s of (None, s') \<Rightarrow> replay_loop handler r s' | (Some x, s') \<Rightarrow> (Some x, s'))"
  by (induction es arbitrary: s) (auto simp: replay_loop_entry split: prod.splits bool.splits)

lemma replay_loop_Nil: "replay_loop handler [] s = (None, s)"
  by (subst replay_loop.simps) simp

lemma replay_bytes_entries:
  assumes "\<forall>e \<in> set es. entry_ok e"
  shows "replay_bytes handler (wal_header @ concat (map enc_entry es)) s = run_handler handler es s"
proof -
  have "length wal_magic = 4" by (simp add: wal_magic_def)
  then show ?thesis
    using replay_loop_entries [OF assms, of handler "[]" s]
    by (simp add: replay_bytes_def wal_header_def replay_loop_Nil split: prod.splits option.splits)
qed

text \<open>An entry that was cut off stops the loop with a read error.\<close>

lemma replay_loop_torn:
  assumes "entry_ok e" and "0 < k" and "k < length (enc_entry e)"
  shows "replay_loop handler (take k (enc_entry e)) s =
    (Some (if k < 4 then WReadEntrySize else WReadEntryData), s)"
proof (cases "k < 4")
  case True
  then show ?thesis
    using assms by (subst replay_loop.simps) (auto simp: enc_entry_frame)
next
  case False
  then have "take k (enc_entry e) = put_u32 (word_of_nat (entrySize e)) @ take (k - 4) (entry_body e)"
    by (simp add: enc_entry_frame)
  moreover have "length (take (k - 4) (entry_body e)) < entrySize e"
    using assms(3) False by (simp add: enc_entry_frame)
  ultimately show ?thesis
    using False get_put_u32 [of _ "[]"]
    by (subst replay_loop.simps) (simp add: entry_ok_lengths(1) [OF assms(1)])
qed

section \<open>A log that holds entries\<close>

text \<open>
  \<open>wal_has w fs es\<close>: the log is unlocked, its current file is open at its end, and that file
  holds the header and the entries \<open>es\<close>.
\<close>

definition wal_has :: "wal \<Rightarrow> fsys \<Rightarrow> wal_entry list \<Rightarrow> bool" where
  "wal_has w fs es \<longleftrightarrow> \<not> w_mu w \<and> (\<forall>e \<in> set es. entry_ok e) \<and>
     (\<exists>f. w_currentFile w = Some f \<and> f_open f \<and> lookup_ino fs (w_currentPath w) = Some (f_ino f) \<and>
          inodes fs (f_ino f) = wal_header @ concat (map enc_entry es) \<and>
          f_off f = length (inodes fs (f_ino f)))"

definition wal_size :: "wal_entry list \<Rightarrow> nat" where
  "wal_size es = length (wal_header @ concat (map enc_entry es))"

lemma wal_size_snoc: "wal_size (es @ [e]) = wal_size es + length (enc_entry e)"
  by (simp add: wal_size_def)

lemma wal_has_content:
  "wal_has w fs es \<Longrightarrow> fs_content fs (w_currentPath w) = Some (wal_header @ concat (map enc_entry es))"
  by (auto simp: wal_has_def fs_content_def)

lemma rotate_if_full_room:
  "healthy fs \<Longrightarrow> wal_has w fs es \<Longrightarrow> int (wal_size es) < w_maxFileSize w \<Longrightarrow>
   rotate_if_full stamp (w\<lparr>w_mu := b\<rparr>) fs = Returns ((None, w\<lparr>w_mu := b\<rparr>), tick fs)"
  by (auto simp: rotate_if_full_def wal_has_def file_Size_def wal_size_def)

lemma Write_room:
  assumes "healthy fs" and "fs_wf fs" and "wal_has w fs es" and "entry_ok e"
    and "int (wal_size es) < w_maxFileSize w"
  obtains w' fs' where "Write stamp e w fs = Returns ((None, w'), fs')"
    and "wal_has w' fs' (es @ [e])" and "healthy fs'" "fs_wf fs'"
    and "w_maxFileSize w' = w_maxFileSize w" "w_currentPath w' = w_currentPath w" "w_dir w' = w_dir w"
    and "w_stopped w' = w_stopped w" and "lookup_ino fs' = lookup_ino fs"
    and "\<And>i. lookup_ino fs (w_currentPath w) \<noteq> Some i \<Longrightarrow> inodes fs' i = inodes fs i"
proof -
  from assms(3) obtain f where f: "w_currentFile w = Some f" "f_open f" "\<not> w_mu w"
    "lookup_ino fs (w_currentPath w) = Some (f_ino f)"
    "inodes fs (f_ino f) = wal_header @ concat (map enc_entry es)"
    "f_off f = length (inodes fs (f_ino f))"
    by (auto simp: wal_has_def)
  define f' where "f' = f\<lparr>f_off := f_off f + length (enc_entry e)\<rparr>"
  define fs' where "fs' = (tick fs)\<lparr>inodes := (inodes fs)(f_ino f := inodes fs (f_ino f) @ enc_entry e),
    ticks := ticks (tick fs) + length (entry_fields e)\<rparr>"
  define w' where "w' = w\<lparr>w_currentFile := Some f', w_mu := False\<rparr>"
  have "write_fields f (entry_fields e) (tick fs) = ((f', None), fs')"
    using write_fields_healthy [of "tick fs" f "entry_fields e"] assms(1) f
    by (simp add: f'_def fs'_def enc_entry_def)
  then have "Write stamp e w fs = Returns ((None, w'), fs')"
    using f rotate_if_full_room [OF assms(1,3,5), of stamp True]
    by (simp add: Write_def w'_def)
  moreover have "wal_has w' fs' (es @ [e])"
    using f assms(3,4) by (simp add: wal_has_def w'_def fs'_def f'_def)
  ultimately show ?thesis
    using f assms(1,2) by (intro that [of w' fs']) (auto simp: w'_def fs'_def fun_eq_iff)
qed

text \<open>Writing a list of entries, stopping at the first error.\<close>

fun write_entries :: "string \<Rightarrow> wal_entry list \<Rightarrow> wal \<Rightarrow> fsys \<Rightarrow> ((wal_error option \<times> wal) \<times> fsys) call" where
  "write_entries stamp [] w fs = Returns ((None, w), fs)"
| "write_entries stamp (e # es) w fs =
     bind_call (Write stamp e w fs)
       (\<lambda>((err, w'), fs'). case err of
          Some x \<Rightarrow> Returns ((Some x, w'), fs') | None \<Rightarrow> write_entries stamp es w' fs')"

lemma write_entries_room:
  assumes "healthy fs" and "fs_wf fs" and "wal_has w fs ds" and "\<forall>e \<in> set es. entry_ok e"
    and "int (wal_size (ds @ es)) \<le> w_maxFileSize w"
  shows "\<exists>w' fs'. write_entries stamp es w fs = Returns ((None, w'), fs') \<and>
    wal_has w' fs' (ds @ es) \<and> healthy fs' \<and> fs_wf fs' \<and> w_currentPath w' = w_currentPath w"
  using assms
proof (induction es arbitrary: w fs ds)
  case (Cons e es)
  have "1 \<le> length (enc_entry e)" by (simp add: enc_entry_frame)
  moreover have "wal_size (ds @ e # es) = wal_size ds + length (enc_entry e) + length (concat (map enc_entry es))"
    by (simp add: wal_size_def)
  ultimately have room: "int (wal_size ds) < w_maxFileSize w"
    using Cons.prems(5) by linarith
  from Cons.prems(4) have ok: "entry_ok e" by simp
  from Write_room [OF Cons.prems(1-3) ok room, of stamp] obtain w1 fs1 where
    w1: "Write stamp e w fs = Returns ((None, w1), fs1)" "wal_has w1 fs1 (ds @ [e])" "healthy fs1" "fs_wf fs1"
    "w_maxFileSize w1 = w_maxFileSize w" "w_currentPath w1 = w_currentPath w" by metis
  then show ?case
    using Cons.IH [OF w1(3,4,2)] Cons.prems(4,5) by simp
qed auto

lemma createNewFile_has:
  assumes "healthy fs" and "fs_wf fs" and "\<not> w_mu w"
  obtains w' fs' where "createNewFile stamp w fs = Returns ((None, w'), fs')"
    and "wal_has w' fs' []" and "healthy fs'" "fs_wf fs'"
    and "w_currentPath w' = filepath_Join [w_dir w, ''wal_'' @ stamp @ ''.log'']"
    and "w_maxFileSize w' = w_maxFileSize w" "w_dir w' = w_dir w" "w_stopped w' = w_stopped w"
proof -
  obtain w1 fs1 where c: "close_current w fs = (w1, fs1)" by fastforce
  then have w1: "\<not> w_mu w1" "w_dir w1 = w_dir w" "w_maxFileSize w1 = w_maxFileSize w"
    "w_stopped w1 = w_stopped w" "healthy fs1" "fs_wf fs1"
    using assms by (auto simp: close_current_def file_Close_def split: option.splits)
  let ?p = "filepath_Join [w_dir w, ''wal_'' @ stamp @ ''.log'']"
  obtain f fs2 where f: "os_Create ?p fs1 = (Inr f, fs2)" "f_name f = ?p" "f_off f = 0" "f_open f"
    "lookup_ino fs2 = (lookup_ino fs1)(?p \<mapsto> f_ino f)" "inodes fs2 = (inodes fs1)(f_ino f := [])"
    "healthy fs2" "fs_wf fs2"
    using os_Create_healthy [OF w1(5,6), of ?p] by blast
  define f' where "f' = f\<lparr>f_off := length wal_header\<rparr>"
  define fs3 where "fs3 = fs2\<lparr>inodes := (inodes fs2)(f_ino f := wal_header), ticks := ticks fs2 + 2\<rparr>"
  have "write_fields f [(WMagic, wal_magic), (WVersion, put_u32 1)] fs2 = ((f', None), fs3)"
    using write_fields_healthy [OF f(7,4), of "[(WMagic, wal_magic), (WVersion, put_u32 1)]"] f
    by (simp add: f'_def fs3_def wal_header_def)
  then have "createNewFile stamp w fs =
      Returns ((None, w1\<lparr>w_currentFile := Some f', w_currentPath := ?p\<rparr>), fs3)"
    using assms(3) c f(1) w1(2) by (simp add: createNewFile_def Let_def)
  then show ?thesis
    by (rule that) (use w1 f in \<open>auto simp: wal_has_def fs3_def f'_def\<close>)
qed

section \<open>Properties\<close>

text \<open>
  C4: The log keeps what is written. Starting from a fresh log on a file system without faults,
  any list of representable entries that fits below the size limit is written without an error,
  and replaying the file calls the handler with exactly these entries, in order, stopping only
  where the handler refuses one.
\<close>

theorem WAL_write_replay:
  assumes "healthy fs" and "fs_wf fs" and "\<forall>e \<in> set es. entry_ok e"
    and "int (wal_size es) \<le> maxSize"
  shows "\<exists>w0 fs0 w fs'. NewWAL stamp dir maxSize interval fs = Returns (Inr w0, fs0) \<and>
    write_entries stamp es w0 fs0 = Returns ((None, w), fs') \<and>
    (\<forall>handler st. replayFile handler (w_currentPath w) (st, fs') = run_handler handler es (st, tick fs'))"
proof -
  define w where "w = \<lparr>w_dir = dir, w_currentFile = None, w_currentPath = [], w_mu = False,
      w_maxFileSize = maxSize, w_flushInterval = interval, w_stopped = False\<rparr>"
  have "healthy (tick fs)" "fs_wf (tick fs)" "\<not> w_mu w" using assms by (simp_all add: w_def)
  then obtain w0 fs0 where w0: "createNewFile stamp w (tick fs) = Returns ((None, w0), fs0)"
    "wal_has w0 fs0 []" "healthy fs0" "fs_wf fs0" "w_maxFileSize w0 = maxSize"
    using createNewFile_has [of "tick fs" w stamp thesis] by (simp add: w_def)
  have new: "NewWAL stamp dir maxSize interval fs = Returns (Inr w0, fs0)"
    using assms(1) w0(1) by (simp add: NewWAL_def os_MkdirAll_def w_def)
  obtain w1 fs1 where w1: "write_entries stamp es w0 fs0 = Returns ((None, w1), fs1)"
    "wal_has w1 fs1 es" "healthy fs1"
    using write_entries_room [OF w0(3,4,2) assms(3), of stamp] assms(4) w0(5) by auto
  have "replayFile handler (w_currentPath w1) (st, fs1) = run_handler handler es (st, tick fs1)"
    for handler :: "wal_entry \<Rightarrow> 'a \<times> fsys \<Rightarrow> bool \<times> 'a \<times> fsys" and st
    using w1(3) wal_has_content [OF w1(2)] assms(3)
    by (simp add: replayFile_def os_Open_def replay_bytes_entries)
  with new w1(1) show ?thesis by blast
qed

definition sample_entry :: wal_entry where
  "sample_entry = \<lparr>we_Type = 1, we_Topic = ''orders'', we_MessageID = 7, we_Payload = [1, 2, 3], we_Timestamp = 1700000000\<rparr>"

lemma sample_entry_ok: "entry_ok sample_entry"
  by (simp add: entry_ok_def entrySize_def sample_entry_def)

theorem WAL_write_replay_witness:
  "\<exists>w0 fs0 w fs'. NewWAL ''20240101_000000'' ''data/wal'' 1000 2 empty_fs = Returns (Inr w0, fs0) \<and>
    write_entries ''20240101_000000'' [sample_entry, sample_entry] w0 fs0 = Returns ((None, w), fs') \<and>
    (\<forall>handler (st :: nat). replayFile handler (w_currentPath w) (st, fs') =
       run_handler handler [sample_entry, sample_entry] (st, tick fs'))"
proof -
  have "wal_size [sample_entry, sample_entry] = 84"
    by (simp add: wal_size_def wal_header_def wal_magic_def enc_entry_frame entrySize_def sample_entry_def)
  then show ?thesis
    by (intro WAL_write_replay) (simp_all add: sample_entry_ok)
qed

text \<open>
  C19: Crash recovery. A log file that ends in the middle of an entry, as after a crash during
  \<^verbatim>\<open>Write\<close>, is replayed up to the last complete entry: the handler sees exactly the complete
  entries, and the replay reports a read error for the torn one.
\<close>

theorem replay_torn_write:
  assumes "\<forall>x \<in> set es. entry_ok x" and "entry_ok e" and "0 < k" and "k < length (enc_entry e)"
    and "run_handler handler es s = (None, s')"
  shows "replay_bytes handler (wal_header @ concat (map enc_entry es) @ take k (enc_entry e)) s =
    (Some (if k < 4 then WReadEntrySize else WReadEntryData), s')"
proof -
  have "length wal_magic = 4" by (simp add: wal_magic_def)
  then show ?thesis
    using replay_loop_entries [OF assms(1), of handler "take k (enc_entry e)" s]
      replay_loop_torn [OF assms(2-4), of handler s'] assms(5)
    by (simp add: replay_bytes_def wal_header_def)
qed

theorem replay_torn_write_witness:
  "replay_bytes (\<lambda>e s. (True, s @ [e])) (wal_header @ concat (map enc_entry [sample_entry]) @ take 9 (enc_entry sample_entry)) [] =
    (Some WReadEntryData, [sample_entry])"
  using replay_torn_write [of "[sample_entry]" sample_entry 9 "\<lambda>e s. (True, s @ [e])" "[]" "[sample_entry]"]
    sample_entry_ok
  by (simp add: enc_entry_frame entrySize_def sample_entry_def)

text \<open>
  The entry parser is exact: \<^verbatim>\<open>parseEntry\<close> accepts a byte string exactly when it starts with
  the body of the entry it returns; trailing bytes are ignored. (An entry of four gigabytes or more
  has no size field; such data is excluded.)
\<close>

theorem parseEntry_exact:
  assumes "length data < 2 ^ 32"
  shows "parseEntry data = Inr e \<longleftrightarrow> (\<exists>rest. data = entry_body e @ rest)"
proof
  assume "parseEntry data = Inr e"
  then show "\<exists>rest. data = entry_body e @ rest"
    using parseEntry_sound by (metis append_take_drop_id)
next
  assume "\<exists>rest. data = entry_body e @ rest"
  then obtain rest where "data = entry_body e @ rest" ..
  with assms show "parseEntry data = Inr e"
    by (simp add: parseEntry_body_append entry_ok_def)
qed

theorem parseEntry_exact_witness:
  "length (entry_body sample_entry @ [0, 0]) < 2 ^ 32 \<and>
   parseEntry (entry_body sample_entry @ [0, 0]) = Inr sample_entry"
  using parseEntry_exact [of "entry_body sample_entry @ [0, 0]" sample_entry]
  by (auto simp: entrySize_def sample_entry_def)

text \<open>
  C40: Rotation deadlocks. \<^verbatim>\<open>Write\<close> waits for ever exactly when its mutex is already held or when the
  current file has reached the size limit (and its size could be read): the rotation it then starts
  locks the mutex that \<^verbatim>\<open>Write\<close> itself holds. In every other state it returns.
\<close>

theorem Write_blocks_iff:
  "Write stamp e w fs = Blocks \<longleftrightarrow>
     w_mu w \<or> (\<exists>f. w_currentFile w = Some f \<and> f_open f \<and> fault fs = None \<and>
                  w_maxFileSize w \<le> int (length (inodes fs (f_ino f))))"
  by (cases "w_currentFile w")
    (auto simp: Write_def rotate_if_full_def createNewFile_def file_Size_def split: option.splits)

definition wal_in :: "string \<Rightarrow> wal" where
  "wal_in dir = \<lparr>w_dir = dir, w_currentFile = None, w_currentPath = [], w_mu = False,
     w_maxFileSize = 1000, w_flushInterval = 2, w_stopped = False\<rparr>"

text \<open>
  Opening a log in the second in which another file was created destroys that file: if the
  name for the second is in use, \<^verbatim>\<open>createNewFile\<close> truncates it, and nothing but the header is left.
\<close>

theorem createNewFile_truncates:
  assumes "healthy fs" and "fs_wf fs" and "\<not> w_mu w"
    and "fs_content fs (filepath_Join [w_dir w, ''wal_'' @ stamp @ ''.log'']) = Some old"
  shows "\<exists>w' fs'. createNewFile stamp w fs = Returns ((None, w'), fs') \<and>
    fs_content fs' (filepath_Join [w_dir w, ''wal_'' @ stamp @ ''.log'']) = Some wal_header"
proof -
  obtain w' fs' where "createNewFile stamp w fs = Returns ((None, w'), fs')" "wal_has w' fs' []"
    "w_currentPath w' = filepath_Join [w_dir w, ''wal_'' @ stamp @ ''.log'']"
    using createNewFile_has [OF assms(1-3), of stamp] by metis
  with wal_has_content [of w' fs' "[]"] show ?thesis by simp
qed

theorem createNewFile_truncates_witness:
  "\<exists>w' fs'. createNewFile ''20240101_000000'' (wal_in ''data/wal'') (fs_with ''data/wal/wal_20240101_000000.log'' [1, 2]) =
      Returns ((None, w'), fs') \<and>
    fs_content fs' ''data/wal/wal_20240101_000000.log'' = Some wal_header"
proof -
  have "filepath_Join [w_dir (wal_in ''data/wal''), ''wal_'' @ ''20240101_000000'' @ ''.log''] =
      ''data/wal/wal_20240101_000000.log''"
    by (simp add: wal_in_def filepath_Join_def filepath_Clean_def Let_def)
  then show ?thesis
    using createNewFile_truncates [of "fs_with ''data/wal/wal_20240101_000000.log'' [1, 2]" "wal_in ''data/wal''"
        "''20240101_000000''" "[1, 2]"]
    by (simp add: wal_in_def)
qed

end
