(* ===== verification/Fragment.thy ===== *)
theory Fragment
  imports FileSys
begin

text \<open>
  The fragment store of \<^verbatim>\<open>internal/storage/fragment.go\<close>: every topic has a list of fragment
  files, messages are appended to the last one, and a full one is followed by a new one. The map
  from topics to fragments is a partial function; the order in which Go iterates over it is an
  argument. A \<^verbatim>\<open>*Fragment\<close> is the position of the fragment in its topic's list. The readings of the
  clock during one operation are the argument \<open>clk\<close>, in the order in which they are made.
\<close>

section \<open>State\<close>

record fragment =
  fr_ID :: u64
  fr_Topic :: string
  fr_Path :: string
  fr_Size :: int
  fr_MessageCount :: int
  fr_CreatedAt :: time
  fr_file :: "os_file option"

record message_entry =
  me_MessageID :: u64
  me_Timestamp :: i64
  me_PayloadSize :: u32
  me_Payload :: bytes

record fragment_manager =
  fm_baseDir :: string
  fm_fragments :: "string \<rightharpoonup> fragment list"
  fm_maxSize :: int
  fm_maxMessages :: int
  fm_ttl :: time
  fm_ticker :: bool
  fm_stopped :: bool

datatype frag_error =
  FMkdir | FCreate | FMagic | FVersion | FTopicLength | FTopic | FCreatedAt
| FMessageID | FTimestamp | FPayloadSize | FPayload | FSync
| FTempFile | FData | FSyncTemp | FCloseTemp | FRename
| FOpen

text \<open>A missing key of a Go map reads as the empty slice.\<close>

definition frags :: "fragment_manager \<Rightarrow> string \<Rightarrow> fragment list" where
  "frags fm topic = (case fm_fragments fm topic of None \<Rightarrow> [] | Some xs \<Rightarrow> xs)"

section \<open>Operations\<close>

text \<open>With a TTL the constructor starts the clean-up task, whose ticks call \<open>cleanupExpiredFragments\<close>.\<close>

definition NewFragmentManager :: "string \<Rightarrow> int \<Rightarrow> int \<Rightarrow> time \<Rightarrow> fragment_manager" where
  "NewFragmentManager baseDir maxSize maxMessages ttl =
     \<lparr>fm_baseDir = baseDir, fm_fragments = Map.empty, fm_maxSize = maxSize, fm_maxMessages = maxMessages,
      fm_ttl = ttl, fm_ticker = (0 < ttl), fm_stopped = False\<rparr>"

definition close_file :: "fragment \<Rightarrow> fsys \<Rightarrow> fragment \<times> fsys" where
  "close_file fr fs =
     (case fr_file fr of
        None \<Rightarrow> (fr, fs)
      | Some f \<Rightarrow> (case file_Close f fs of ((f', _), fs') \<Rightarrow> (fr\<lparr>fr_file := Some f'\<rparr>, fs')))"

definition expired :: "time \<Rightarrow> time \<Rightarrow> fragment \<Rightarrow> bool" where
  "expired now ttl fr \<longleftrightarrow> ttl < now - fr_CreatedAt fr"

text \<open>The inner loop of the clean-up: an expired fragment is closed and removed, the others stay.\<close>

fun cleanup_fragments :: "time \<Rightarrow> time \<Rightarrow> fragment list \<Rightarrow> fsys \<Rightarrow> fragment list \<times> fsys" where
  "cleanup_fragments now ttl [] fs = ([], fs)"
| "cleanup_fragments now ttl (fr # frs) fs =
     (if expired now ttl fr then
        cleanup_fragments now ttl frs (snd (os_Remove (fr_Path fr) (snd (close_file fr fs))))
      else case cleanup_fragments now ttl frs fs of (valid, fs') \<Rightarrow> (fr # valid, fs'))"

fun cleanup_topics :: "time \<Rightarrow> string list \<Rightarrow> fragment_manager \<Rightarrow> fsys \<Rightarrow> fragment_manager \<times> fsys" where
  "cleanup_topics now [] fm fs = (fm, fs)"
| "cleanup_topics now (topic # topics) fm fs =
     (case cleanup_fragments now (fm_ttl fm) (frags fm topic) fs of
        (valid, fs') \<Rightarrow>
          cleanup_topics now topics
            (fm\<lparr>fm_fragments := (fm_fragments fm)(topic := if valid = [] then None else Some valid)\<rparr>) fs')"

text \<open>\<open>order\<close> is the iteration order over the keys of the map.\<close>

definition cleanupExpiredFragments ::
  "time \<Rightarrow> string list \<Rightarrow> fragment_manager \<Rightarrow> fsys \<Rightarrow> fragment_manager \<times> fsys" where
  "cleanupExpiredFragments now order fm fs =
     (if fm_ttl fm \<le> 0 then (fm, fs) else cleanup_topics now order fm fs)"

definition fragment_name :: "u64 \<Rightarrow> string" where
  "fragment_name i = ''fragment_'' @ itoa (unat i) @ ''.frag''"

definition fragment_header :: "string \<Rightarrow> time \<Rightarrow> (frag_error \<times> bytes) list" where
  "fragment_header topic now =
     [(FMagic, str_bytes ''FRAG''),
      (FVersion, put_u32 1),
      (FTopicLength, put_u32 (word_of_nat (length topic))),
      (FTopic, str_bytes topic),
      (FCreatedAt, put_u64 (word_of_int (Unix now)))]"

text \<open>The new fragment is the last one of its topic; its position is the result.\<close>

definition CreateFragment ::
  "(nat \<Rightarrow> time) \<Rightarrow> string \<Rightarrow> fragment_manager \<Rightarrow> fsys \<Rightarrow> ((frag_error + nat) \<times> fragment_manager) \<times> fsys" where
  "CreateFragment clk topic fm fs =
     (let topicDir = filepath_Join [fm_baseDir fm, topic]
      in case os_MkdirAll topicDir fs of
        (Some _, fs1) \<Rightarrow> ((Inl FMkdir, fm), fs1)
      | (None, fs1) \<Rightarrow>
          let fragments = frags fm topic;
              fragmentID = word_of_nat (length fragments);
              path = filepath_Join [topicDir, fragment_name fragmentID]
          in case os_Create path fs1 of
               (Inl _, fs2) \<Rightarrow> ((Inl FCreate, fm), fs2)
             | (Inr f, fs2) \<Rightarrow>
                 (case write_fields f (fragment_header topic (clk 0)) fs2 of
                    ((f', Some e), fs3) \<Rightarrow> ((Inl e, fm), snd (file_Close f' fs3))
                  | ((f', None), fs3) \<Rightarrow>
                      let fragment = \<lparr>fr_ID = fragmentID, fr_Topic = topic, fr_Path = path, fr_Size = 0,
                            fr_MessageCount = 0, fr_CreatedAt = clk 1, fr_file = Some f'\<rparr>
                      in ((Inr (length fragments),
                           fm\<lparr>fm_fragments := (fm_fragments fm)(topic \<mapsto> fragments @ [fragment])\<rparr>), fs3)))"

definition full :: "fragment_manager \<Rightarrow> fragment \<Rightarrow> bool" where
  "full fm fr \<longleftrightarrow> fm_maxSize fm \<le> fr_Size fr \<or> fm_maxMessages fm \<le> fr_MessageCount fr"

definition GetCurrentFragment ::
  "(nat \<Rightarrow> time) \<Rightarrow> string \<Rightarrow> fragment_manager \<Rightarrow> fsys \<Rightarrow> ((frag_error + nat) \<times> fragment_manager) \<times> fsys" where
  "GetCurrentFragment clk topic fm fs =
     (let fragments = frags fm topic
      in if fragments = [] then CreateFragment clk topic fm fs
         else if full fm (last fragments) then CreateFragment clk topic fm fs
         else ((Inr (length fragments - 1), fm), fs))"

definition message_fields :: "message_entry \<Rightarrow> (frag_error \<times> bytes) list" where
  "message_fields e =
     [(FMessageID, put_u64 (me_MessageID e)),
      (FTimestamp, put_u64 (me_Timestamp e)),
      (FPayloadSize, put_u32 (me_PayloadSize e)),
      (FPayload, me_Payload e)]"

definition new_entry :: "time \<Rightarrow> u64 \<Rightarrow> bytes \<Rightarrow> message_entry" where
  "new_entry now messageID payload =
     \<lparr>me_MessageID = messageID, me_Timestamp = word_of_int (Unix now),
      me_PayloadSize = word_of_nat (length payload), me_Payload = payload\<rparr>"

definition set_fragment :: "string \<Rightarrow> nat \<Rightarrow> fragment \<Rightarrow> fragment_manager \<Rightarrow> fragment_manager" where
  "set_fragment topic i fr fm =
     fm\<lparr>fm_fragments := (fm_fragments fm)(topic \<mapsto> (frags fm topic)[i := fr])\<rparr>"

text \<open>
  The part of \<^verbatim>\<open>WriteMessage\<close> that works on the current fragment. A failed write leaves the bytes
  that went out in the file; the counters change only when all four fields were written, and a
  failed \<^verbatim>\<open>Sync\<close> reports an error for a message that is already counted.
\<close>

definition write_entry ::
  "string \<Rightarrow> nat \<Rightarrow> message_entry \<Rightarrow> fragment_manager \<Rightarrow> fsys \<Rightarrow> (frag_error option \<times> fragment_manager) \<times> fsys" where
  "write_entry topic i e fm fs =
     (let fr = frags fm topic ! i
      in case fr_file fr of
           None \<Rightarrow> ((Some FMessageID, fm), fs)
         | Some f \<Rightarrow>
             (case write_fields f (message_fields e) fs of
                ((f', Some err), fs1) \<Rightarrow> ((Some err, set_fragment topic i (fr\<lparr>fr_file := Some f'\<rparr>) fm), fs1)
              | ((f', None), fs1) \<Rightarrow>
                  (let fr' = fr\<lparr>fr_file := Some f',
                                fr_Size := fr_Size fr + int (8 + 8 + 4 + length (me_Payload e)),
                                fr_MessageCount := fr_MessageCount fr + 1\<rparr>
                   in case file_Sync f' fs1 of
                        (r, fs2) \<Rightarrow> ((case r of Some _ \<Rightarrow> Some FSync | None \<Rightarrow> None, set_fragment topic i fr' fm), fs2))))"

definition WriteMessage ::
  "(nat \<Rightarrow> time) \<Rightarrow> string \<Rightarrow> u64 \<Rightarrow> bytes \<Rightarrow> fragment_manager \<Rightarrow> fsys \<Rightarrow>
   (frag_error option \<times> fragment_manager) \<times> fsys" where
  "WriteMessage clk topic messageID payload fm fs =
     (case GetCurrentFragment clk topic fm fs of
        ((Inl e, fm1), fs1) \<Rightarrow> ((Some e, fm1), fs1)
      | ((Inr i, fm1), fs1) \<Rightarrow> write_entry topic i (new_entry (clk 2) messageID payload) fm1 fs1)"

text \<open>
  One message of a fragment file: four reads, each of which may hit the end of the file.
\<close>

definition read_entry :: "bytes \<Rightarrow> (message_entry \<times> bytes) option" where
  "read_entry bs =
     (case read_full 8 bs of None \<Rightarrow> None
      | Some (a, r1) \<Rightarrow>
          (case read_full 8 r1 of None \<Rightarrow> None
           | Some (b, r2) \<Rightarrow>
               (case read_full 4 r2 of None \<Rightarrow> None
                | Some (c, r3) \<Rightarrow>
                    (case read_full (unat (get_u32 c)) r3 of None \<Rightarrow> None
                     | Some (d, r4) \<Rightarrow>
                         Some (\<lparr>me_MessageID = get_u64 a, me_Timestamp = get_u64 b,
                                me_PayloadSize = get_u32 c, me_Payload = d\<rparr>, r4)))))"

lemma read_entry_length: "read_entry bs = Some (e, r) \<Longrightarrow> length r < length bs"
  by (auto simp: read_entry_def dest!: read_full_length split: option.splits)

text \<open>
  The loops of \<^verbatim>\<open>ReadMessages\<close>. \<open>bound\<close> is \<^verbatim>\<open>offset+uint64(limit)\<close>, which wraps at \<open>2 ^ 64\<close>;
  \<^verbatim>\<open>currentOffset++\<close> cannot, because it stays below \<open>bound\<close>.
\<close>

function read_loop :: "nat \<Rightarrow> nat \<Rightarrow> bytes \<Rightarrow> nat \<Rightarrow> message_entry list \<Rightarrow> nat \<times> message_entry list" where
  "read_loop offset bound bs currentOffset messages =
     (if bound \<le> currentOffset then (currentOffset, messages)
      else case read_entry bs of
        None \<Rightarrow> (currentOffset, messages)
      | Some (e, r) \<Rightarrow>
          read_loop offset bound r (Suc currentOffset)
            (if offset \<le> currentOffset then messages @ [e] else messages))"
  by pat_completeness auto
termination
  by (relation "measure (\<lambda>(_, _, bs, _, _). length bs)") (auto dest: read_entry_length)

declare read_loop.simps [simp del]

definition headerSize :: "fragment \<Rightarrow> nat" where
  "headerSize fr = 4 + 4 + 4 + length (fr_Topic fr) + 8"

fun read_fragments :: "nat \<Rightarrow> nat \<Rightarrow> fragment list \<Rightarrow> nat \<Rightarrow> message_entry list \<Rightarrow> fsys \<Rightarrow> message_entry list \<times> fsys" where
  "read_fragments offset bound [] currentOffset messages fs = (messages, fs)"
| "read_fragments offset bound (fr # frs) currentOffset messages fs =
     (if bound \<le> currentOffset then (messages, fs)
      else case os_Open (fr_Path fr) fs of
        (Inl _, fs1) \<Rightarrow> read_fragments offset bound frs currentOffset messages fs1
      | (Inr bs, fs1) \<Rightarrow>
          (case read_loop offset bound (drop (headerSize fr) bs) currentOffset messages of
             (currentOffset', messages') \<Rightarrow> read_fragments offset bound frs currentOffset' messages' fs1))"

definition ReadMessages ::
  "string \<Rightarrow> u64 \<Rightarrow> int \<Rightarrow> fragment_manager \<Rightarrow> fsys \<Rightarrow> message_entry list \<times> fsys" where
  "ReadMessages topic offset limit fm fs =
     (if frags fm topic = [] then ([], fs)
      else read_fragments (unat offset) (u64_add (unat offset) (u64_of_int limit)) (frags fm topic) 0 [] fs)"

fun close_files :: "fragment list \<Rightarrow> fsys \<Rightarrow> fragment list \<times> fsys" where
  "close_files [] fs = ([], fs)"
| "close_files (fr # frs) fs =
     (case close_file fr fs of (fr', fs1) \<Rightarrow>
        case close_files frs fs1 of (frs', fs2) \<Rightarrow> (fr' # frs', fs2))"

definition CloseTopic :: "string \<Rightarrow> fragment_manager \<Rightarrow> fsys \<Rightarrow> fragment_manager \<times> fsys" where
  "CloseTopic topic fm fs =
     (case fm_fragments fm topic of
        None \<Rightarrow> (fm, fs)
      | Some frs \<Rightarrow> (fm\<lparr>fm_fragments := (fm_fragments fm)(topic := None)\<rparr>, snd (close_files frs fs)))"

fun close_topics :: "string list \<Rightarrow> fragment_manager \<Rightarrow> fsys \<Rightarrow> fragment_manager \<times> fsys" where
  "close_topics [] fm fs = (fm, fs)"
| "close_topics (topic # topics) fm fs =
     (case close_files (frags fm topic) fs of
        (frs', fs') \<Rightarrow> close_topics topics (fm\<lparr>fm_fragments := (fm_fragments fm)(topic \<mapsto> frs')\<rparr>) fs')"

text \<open>A second \<^verbatim>\<open>Close\<close> of a manager with a TTL closes the stop channel twice and panics.\<close>

definition Close :: "string list \<Rightarrow> fragment_manager \<Rightarrow> fsys \<Rightarrow> (fragment_manager \<times> fsys) call" where
  "Close order fm fs =
     (if fm_ticker fm \<and> fm_stopped fm then Panics
      else Returns (close_topics order (fm\<lparr>fm_stopped := fm_ticker fm\<rparr>) fs))"

definition GetFragments :: "string \<Rightarrow> fragment_manager \<Rightarrow> fragment list" where
  "GetFragments topic fm = frags fm topic"

definition BaseDir :: "fragment_manager \<Rightarrow> string" where
  "BaseDir fm = fm_baseDir fm"

text \<open>
  The two deferred calls run on every path after the temporary file exists: it is closed (again),
  and its name is removed, which after the rename is no longer there.
\<close>

definition replicate_cleanup :: "os_file \<Rightarrow> fsys \<Rightarrow> fsys" where
  "replicate_cleanup f fs = snd (os_Remove (f_name f) (snd (file_Close f fs)))"

definition ReplicateFragmentToFile ::
  "string \<Rightarrow> string \<Rightarrow> u64 \<Rightarrow> bytes \<Rightarrow> string \<Rightarrow> fsys \<Rightarrow> frag_error option \<times> fsys" where
  "ReplicateFragmentToFile rnd topic fragmentID data targetPath fs =
     (case os_MkdirAll (filepath_Dir targetPath) fs of
        (Some _, fs1) \<Rightarrow> (Some FMkdir, fs1)
      | (None, fs1) \<Rightarrow>
          (case os_CreateTemp (filepath_Dir targetPath) ''fragment_tmp_'' rnd fs1 of
             (Inl _, fs2) \<Rightarrow> (Some FTempFile, fs2)
           | (Inr f, fs2) \<Rightarrow>
               (case file_Write f data fs2 of
                  ((f1, Some _), fs3) \<Rightarrow> (Some FData, replicate_cleanup f1 fs3)
                | ((f1, None), fs3) \<Rightarrow>
                    (case file_Sync f1 fs3 of
                       (Some _, fs4) \<Rightarrow> (Some FSyncTemp, replicate_cleanup f1 fs4)
                     | (None, fs4) \<Rightarrow>
                         (case file_Close f1 fs4 of
                            ((f2, Some _), fs5) \<Rightarrow> (Some FCloseTemp, replicate_cleanup f2 fs5)
                          | ((f2, None), fs5) \<Rightarrow>
                              (case os_Rename (f_name f2) targetPath fs5 of
                                 (Some _, fs6) \<Rightarrow> (Some FRename, replicate_cleanup f2 fs6)
                               | (None, fs6) \<Rightarrow> (None, replicate_cleanup f2 fs6)))))))"

definition GetFragmentPath :: "fragment_manager \<Rightarrow> string \<Rightarrow> u64 \<Rightarrow> string" where
  "GetFragmentPath fm topic fragmentID = filepath_Join [fm_baseDir fm, topic, fragment_name fragmentID]"

definition ReadFragmentFile :: "string \<Rightarrow> u64 \<Rightarrow> fragment_manager \<Rightarrow> fsys \<Rightarrow> (frag_error + bytes) \<times> fsys" where
  "ReadFragmentFile topic fragmentID fm fs =
     (case os_Open (filepath_Join [fm_baseDir fm, topic, fragment_name fragmentID]) fs of
        (Inl _, fs1) \<Rightarrow> (Inl FOpen, fs1)
      | (Inr bs, fs1) \<Rightarrow> (Inr bs, fs1))"

text \<open>\<^verbatim>\<open>fragment.ID % n\<close> panics for \<open>n = 0\<close>, as soon as the topic has a fragment.\<close>

definition SelectFragmentsForReplication :: "string \<Rightarrow> u64 \<Rightarrow> u64 \<Rightarrow> fragment_manager \<Rightarrow> fragment list call" where
  "SelectFragmentsForReplication topic idx n fm =
     (if n = 0 \<and> frags fm topic \<noteq> [] then Panics
      else Returns (filter (\<lambda>fr. fr_ID fr mod n = idx) (frags fm topic)))"

definition IsFragmentFullyConsumed :: "string \<Rightarrow> u64 \<Rightarrow> bool" where
  "IsFragmentFullyConsumed topic fragmentID = False"

section \<open>The message format\<close>

definition enc_msg :: "message_entry \<Rightarrow> bytes" where
  "enc_msg e = concat (map snd (message_fields e))"

definition msg_ok :: "message_entry \<Rightarrow> bool" where
  "msg_ok e \<longleftrightarrow> unat (me_PayloadSize e) = length (me_Payload e)"

lemma length_enc_msg: "length (enc_msg e) = 8 + 8 + 4 + length (me_Payload e)"
  by (simp add: enc_msg_def message_fields_def)

lemma msg_ok_new_entry: "length payload < 2 ^ 32 \<Longrightarrow> msg_ok (new_entry now messageID payload)"
  by (simp add: msg_ok_def new_entry_def unat_of_nat)

lemma read_entry_enc: "msg_ok e \<Longrightarrow> read_entry (enc_msg e @ r) = Some (e, r)"
  using get_put_u64 [of _ "[]"] get_put_u32 [of _ "[]"]
  by (simp add: read_entry_def enc_msg_def message_fields_def msg_ok_def)

lemma read_entry_Nil [simp]: "read_entry [] = None"
  by (simp add: read_entry_def)

interpretation msg_codec: codec enc_msg read_entry msg_ok
  by unfold_locales (simp_all add: read_entry_enc)

text \<open>
  The loop over a file of messages returns the messages with positions from \<open>offset\<close> up to \<open>bound\<close>,
  where the first message of the file has position \<open>currentOffset\<close>.
\<close>

lemma read_loop_messages:
  "\<forall>e \<in> set es. msg_ok e \<Longrightarrow>
   read_loop offset bound (concat (map enc_msg es)) cur messages =
     (cur + min (length es) (bound - cur), messages @ drop (offset - cur) (take (bound - cur) es))"
proof (induction es arbitrary: cur messages)
  case Nil
  then show ?case by (subst read_loop.simps) simp
next
  case (Cons e es)
  show ?case
  proof (cases "bound \<le> cur")
    case True
    then show ?thesis by (subst read_loop.simps) simp
  next
    case False
    then have "bound - cur = Suc (bound - Suc cur)" by simp
    moreover have "offset - cur = (if offset \<le> cur then 0 else Suc (offset - Suc cur))" by auto
    ultimately show ?thesis
      using False Cons by (subst read_loop.simps) (auto simp: read_entry_enc)
  qed
qed

section \<open>The abstract log\<close>

text \<open>
  \<open>frag_rep fs fr es\<close>: the fragment's file is open at its end, its path leads to that file, the
  file holds the header and the messages \<open>es\<close>, and the two counters count them. \<open>fm_rep fm fs L\<close>:
  the topic \<open>t\<close> has the fragments \<open>L t\<close>, numbered from zero, each at its own path.
\<close>

definition frag_rep :: "fsys \<Rightarrow> fragment \<Rightarrow> message_entry list \<Rightarrow> bool" where
  "frag_rep fs fr es \<longleftrightarrow> (\<forall>e \<in> set es. msg_ok e) \<and>
     fr_Size fr = int (length (concat (map enc_msg es))) \<and> fr_MessageCount fr = int (length es) \<and>
     (\<exists>f h. fr_file fr = Some f \<and> f_open f \<and> lookup_ino fs (fr_Path fr) = Some (f_ino f) \<and>
          length h = headerSize fr \<and> inodes fs (f_ino f) = h @ concat (map enc_msg es) \<and>
          f_off f = length (inodes fs (f_ino f)))"

lemma list_all2_in1: "list_all2 P xs ys \<Longrightarrow> x \<in> set xs \<Longrightarrow> \<exists>y \<in> set ys. P x y"
  by (fastforce simp: list_all2_conv_all_nth in_set_conv_nth)

lemma list_all2_butlast: "list_all2 P xs ys \<Longrightarrow> list_all2 P (butlast xs) (butlast ys)"
  by (auto simp: list_all2_conv_all_nth nth_butlast)

type_synonym message_log = "string \<Rightarrow> message_entry list list"

definition fm_rep :: "fragment_manager \<Rightarrow> fsys \<Rightarrow> message_log \<Rightarrow> bool" where
  "fm_rep fm fs L \<longleftrightarrow>
     (\<forall>t. list_all2 (frag_rep fs) (frags fm t) (L t)) \<and>
     (\<forall>t. \<forall>i < length (frags fm t). plain t \<and>
        fr_ID (frags fm t ! i) = word_of_nat i \<and> fr_Topic (frags fm t ! i) = t \<and>
        fr_Path (frags fm t ! i) = GetFragmentPath fm t (word_of_nat i))"

lemma frags_upd [simp]:
  "frags (fm\<lparr>fm_fragments := (fm_fragments fm)(t \<mapsto> frs)\<rparr>) t' = (if t' = t then frs else frags fm t')"
  by (simp add: frags_def)

lemma frags_set_fragment [simp]:
  "frags (set_fragment t i fr fm) t' = (if t' = t then (frags fm t)[i := fr] else frags fm t')"
  by (simp add: set_fragment_def)

lemma GetFragmentPath_upd [simp]:
  "GetFragmentPath (fm\<lparr>fm_fragments := m\<rparr>) = GetFragmentPath fm"
  "GetFragmentPath (set_fragment t i fr fm) = GetFragmentPath fm"
  by (simp_all add: GetFragmentPath_def set_fragment_def fun_eq_iff)

lemma plain_fragment_name: "plain (fragment_name i)"
  by (auto simp: plain_def fragment_name_def itoa_no_slash)

lemma fragment_name_inject: "fragment_name i = fragment_name j \<longleftrightarrow> i = j"
  by (simp add: fragment_name_def word_unat_eq_iff)

lemma GetFragmentPath_inject:
  "plain t \<Longrightarrow> plain t' \<Longrightarrow> GetFragmentPath fm t i = GetFragmentPath fm t' j \<longleftrightarrow> t = t' \<and> i = j"
  by (simp add: GetFragmentPath_def filepath_Join_plain_inject plain_fragment_name fragment_name_inject)

lemma word_of_nat_u64_inject: "i < 2 ^ 64 \<Longrightarrow> j < 2 ^ 64 \<Longrightarrow> (word_of_nat i :: u64) = word_of_nat j \<longleftrightarrow> i = j"
  by (auto dest: arg_cong [where f = unat] simp: unat_of_nat)

lemma frag_rep_frame:
  assumes "frag_rep fs fr es" and "lookup_ino fs' (fr_Path fr) = lookup_ino fs (fr_Path fr)"
    and "\<And>i. lookup_ino fs (fr_Path fr) = Some i \<Longrightarrow> inodes fs' i = inodes fs i"
  shows "frag_rep fs' fr es"
  using assms unfolding frag_rep_def by fastforce

lemma fm_rep_length: "fm_rep fm fs L \<Longrightarrow> length (frags fm t) = length (L t)"
  by (auto simp: fm_rep_def dest: list_all2_lengthD)

section \<open>Reading\<close>

definition readable :: "(string \<Rightarrow> bytes option) \<Rightarrow> fragment \<Rightarrow> message_entry list \<Rightarrow> bool" where
  "readable content fr es \<longleftrightarrow> (\<forall>e \<in> set es. msg_ok e) \<and>
     (\<exists>h. content (fr_Path fr) = Some (h @ concat (map enc_msg es)) \<and> length h = headerSize fr)"

lemma frag_rep_readable: "frag_rep fs fr es \<Longrightarrow> readable (fs_content fs) fr es"
  by (auto simp: frag_rep_def readable_def fs_content_def)

lemma drop_take_append:
  "drop m (take n (xs @ ys)) = drop m (take n xs) @ drop (m - min (length xs) n) (take (n - length xs) ys)"
  by (simp add: min_def)

lemma read_fragments_readable:
  assumes "list_all2 (readable content) frs Ls" and "healthy fs" and "fs_content fs = content"
  shows "\<exists>n. read_fragments offset bound frs cur messages fs =
    (messages @ drop (offset - cur) (take (bound - cur) (concat Ls)), fs\<lparr>ticks := ticks fs + n\<rparr>)"
  using assms
proof (induction frs Ls arbitrary: cur messages fs rule: list_all2_induct)
  case Nil
  then show ?case by (auto intro: exI [of _ 0])
next
  case (Cons fr frs es Ls)
  show ?case
  proof (cases "bound \<le> cur")
    case True
    then show ?thesis by (auto intro: exI [of _ 0])
  next
    case False
    from Cons.hyps(1) obtain h where h: "content (fr_Path fr) = Some (h @ concat (map enc_msg es))"
      "length h = headerSize fr" and ok: "\<forall>e \<in> set es. msg_ok e"
      by (auto simp: readable_def)
    have "os_Open (fr_Path fr) fs = (Inr (h @ concat (map enc_msg es)), tick fs)"
      using Cons.prems h by (simp add: os_Open_def)
    moreover define c' where "c' = cur + min (length es) (bound - cur)"
    moreover define m' where "m' = messages @ drop (offset - cur) (take (bound - cur) es)"
    moreover have "healthy (tick fs)" "fs_content (tick fs) = content" using Cons.prems by simp_all
    from Cons.IH [OF this, where cur = c' and messages = m'] obtain n where
      "read_fragments offset bound frs c' m' (tick fs) =
       (m' @ drop (offset - c') (take (bound - c') (concat Ls)), (tick fs)\<lparr>ticks := ticks (tick fs) + n\<rparr>)" ..
    moreover have "bound - c' = bound - cur - length es" "offset - c' = offset - cur - min (length es) (bound - cur)"
      by (simp_all add: c'_def)
    ultimately show ?thesis
      using False h(2) read_loop_messages [OF ok, of offset bound cur messages]
      by (intro exI [of _ "Suc n"]) (simp add: drop_take_append tick_def)
  qed
qed

lemma fm_rep_readable: "fm_rep fm fs L \<Longrightarrow> list_all2 (readable (fs_content fs)) (frags fm t) (L t)"
  by (auto simp: fm_rep_def intro: list.rel_mono_strong frag_rep_readable)

lemma ReadMessages_rep:
  assumes "healthy fs" and "fm_rep fm fs L" and "unat offset + limit < 2 ^ 64"
  shows "\<exists>n. ReadMessages topic offset (int limit) fm fs =
    (take limit (drop (unat offset) (concat (L topic))), fs\<lparr>ticks := ticks fs + n\<rparr>)"
proof (cases "frags fm topic = []")
  case True
  then show ?thesis
    using fm_rep_length [OF assms(2), of topic] by (auto simp: ReadMessages_def intro: exI [of _ 0])
next
  case False
  then show ?thesis
    using read_fragments_readable [OF fm_rep_readable [OF assms(2)] assms(1) refl, of "unat offset" "unat offset + limit" topic 0 "[]"]
      assms(3) by (simp add: ReadMessages_def u64_add_exact u64_of_int_exact take_drop add.commute)
qed

section \<open>Writing\<close>

text \<open>A file that an operation leaves alone.\<close>

definition kept :: "fsys \<Rightarrow> fsys \<Rightarrow> string \<Rightarrow> bool" where
  "kept fs fs' q \<longleftrightarrow> lookup_ino fs' q = lookup_ino fs q \<and> (\<forall>j. lookup_ino fs q = Some j \<longrightarrow> inodes fs' j = inodes fs j)"

lemma kept_trans: "kept fs fs1 q \<Longrightarrow> kept fs1 fs2 q \<Longrightarrow> kept fs fs2 q"
  by (simp add: kept_def)

text \<open>
  The fragments that an operation does not touch keep what they hold: their paths differ from the
  path the operation works on.
\<close>

lemma fm_rep_path_eq:
  assumes "fm_rep fm fs L" and "i < length (frags fm t)" and "plain t'"
  shows "fr_Path (frags fm t ! i) = GetFragmentPath fm t' j \<longleftrightarrow> t = t' \<and> j = word_of_nat i"
  using assms by (auto simp: fm_rep_def GetFragmentPath_inject)

lemma CreateFragment_rep:
  assumes fs: "healthy fs" "fs_wf fs" and rep: "fm_rep fm fs L" and topic: "plain topic"
    and len: "length (L topic) < 2 ^ 64"
  shows "\<exists>fr fs'. CreateFragment clk topic fm fs =
      ((Inr (length (L topic)), fm\<lparr>fm_fragments := (fm_fragments fm)(topic \<mapsto> frags fm topic @ [fr])\<rparr>), fs') \<and>
    fm_rep (fm\<lparr>fm_fragments := (fm_fragments fm)(topic \<mapsto> frags fm topic @ [fr])\<rparr>) fs' (L(topic := L topic @ [[]])) \<and>
    healthy fs' \<and> fs_wf fs' \<and> fr_CreatedAt fr = clk 1 \<and> (\<forall>q. (\<forall>i. q \<noteq> GetFragmentPath fm topic i) \<longrightarrow> kept fs fs' q)"
proof -
  define n where "n = length (frags fm topic)"
  define path where "path = GetFragmentPath fm topic (word_of_nat n)"
  have n: "n = length (L topic)" using rep by (simp add: n_def fm_rep_length)
  have join: "filepath_Join [filepath_Join [fm_baseDir fm, topic], fragment_name (word_of_nat n)] = path"
    using topic by (simp add: path_def GetFragmentPath_def filepath_Join_nested plain_fragment_name)
  obtain f fs2 where f: "os_Create path (tick fs) = (Inr f, fs2)" "f_name f = path" "f_off f = 0" "f_open f"
    "lookup_ino fs2 = (lookup_ino fs)(path \<mapsto> f_ino f)" "inodes fs2 = (inodes fs)(f_ino f := [])"
    "healthy fs2" "fs_wf fs2" "\<forall>q. q \<noteq> path \<longrightarrow> lookup_ino fs q \<noteq> Some (f_ino f)"
    using os_Create_healthy [of "tick fs" path] fs by auto
  define h where "h = concat (map snd (fragment_header topic (clk 0)))"
  define fs3 where "fs3 = fs2\<lparr>inodes := (inodes fs2)(f_ino f := h), ticks := ticks fs2 + 5\<rparr>"
  define fr where "fr = \<lparr>fr_ID = word_of_nat n, fr_Topic = topic, fr_Path = path, fr_Size = 0,
    fr_MessageCount = 0, fr_CreatedAt = clk 1, fr_file = Some (f\<lparr>f_off := length h\<rparr>)\<rparr>"
  have w: "write_fields f (fragment_header topic (clk 0)) fs2 = ((f\<lparr>f_off := length h\<rparr>, None), fs3)"
    using write_fields_healthy [OF f(7,4), of "fragment_header topic (clk 0)"] f
    by (simp add: h_def fs3_def) (simp add: fragment_header_def)
  have create: "CreateFragment clk topic fm fs =
      ((Inr n, fm\<lparr>fm_fragments := (fm_fragments fm)(topic \<mapsto> frags fm topic @ [fr])\<rparr>), fs3)"
    using fs f(1) w join [unfolded n_def]
    by (simp add: CreateFragment_def os_MkdirAll_def Let_def fr_def n_def)
  have "length h = headerSize fr"
    by (simp add: h_def fragment_header_def headerSize_def fr_def)
  then have new: "frag_rep fs3 fr []"
    using f by (simp add: frag_rep_def fr_def fs3_def)
  have old: "frag_rep fs3 (frags fm t ! i) (L t ! i)" if "i < length (frags fm t)" for t i
  proof (rule frag_rep_frame)
    show "frag_rep fs (frags fm t ! i) (L t ! i)"
      using rep that by (auto simp: fm_rep_def list_all2_conv_all_nth)
    have "t = topic \<Longrightarrow> i < 2 ^ 64 \<and> n < 2 ^ 64 \<and> i \<noteq> n"
      using that len n n_def by simp
    then have neq: "fr_Path (frags fm t ! i) \<noteq> path"
      using word_of_nat_u64_inject [of n i] by (auto simp: path_def fm_rep_path_eq [OF rep that topic])
    then show "lookup_ino fs3 (fr_Path (frags fm t ! i)) = lookup_ino fs (fr_Path (frags fm t ! i))"
      by (simp add: fs3_def f(5))
    show "inodes fs3 j = inodes fs j" if "lookup_ino fs (fr_Path (frags fm t ! i)) = Some j" for j
      using f(9) neq that by (auto simp: fs3_def f(6))
  qed
  have "fm_rep (fm\<lparr>fm_fragments := (fm_fragments fm)(topic \<mapsto> frags fm topic @ [fr])\<rparr>) fs3 (L(topic := L topic @ [[]]))"
    using rep old new topic
    by (auto simp: fm_rep_def list_all2_conv_all_nth nth_append less_Suc_eq fr_def path_def n_def)
  moreover have "healthy fs3" "fs_wf fs3" using f by (simp_all add: fs3_def)
  moreover have "kept fs fs3 q" if "\<forall>i. q \<noteq> GetFragmentPath fm topic i" for q
    using that f(5,6,9) by (auto simp: kept_def fs3_def path_def)
  ultimately show ?thesis using create by (auto simp: n fr_def)
qed

lemma write_entry_rep:
  assumes fs: "healthy fs" "fs_wf fs" and rep: "fm_rep fm fs L" and L: "L topic = Ls @ [es]"
    and len: "length (L topic) \<le> 2 ^ 64" and e: "msg_ok e"
  shows "\<exists>fr fs'. write_entry topic (length Ls) e fm fs = ((None, set_fragment topic (length Ls) fr fm), fs') \<and>
    fm_rep (set_fragment topic (length Ls) fr fm) fs' (L(topic := Ls @ [es @ [e]])) \<and>
    healthy fs' \<and> fs_wf fs' \<and> fr_CreatedAt fr = fr_CreatedAt (frags fm topic ! length Ls) \<and>
    (\<forall>q. (\<forall>i. q \<noteq> GetFragmentPath fm topic i) \<longrightarrow> kept fs fs' q)"
proof -
  define i where "i = length Ls"
  define fr where "fr = frags fm topic ! i"
  have i: "i < length (frags fm topic)" "length (frags fm topic) \<le> 2 ^ 64"
    using L len fm_rep_length [OF rep, of topic] by (simp_all add: i_def)
  have topic: "plain topic" using rep i(1) unfolding fm_rep_def by blast
  have fr: "frag_rep fs fr es"
    using rep i L unfolding fm_rep_def list_all2_conv_all_nth fr_def by (metis i_def nth_append_length)
  then obtain f h where f: "fr_file fr = Some f" "f_open f" "lookup_ino fs (fr_Path fr) = Some (f_ino f)"
    "length h = headerSize fr" "inodes fs (f_ino f) = h @ concat (map enc_msg es)" "f_off f = length (inodes fs (f_ino f))"
    and es: "\<forall>x \<in> set es. msg_ok x" and counts: "fr_Size fr = int (length (concat (map enc_msg es)))"
      "fr_MessageCount fr = int (length es)"
    unfolding frag_rep_def by blast
  define f' where "f' = f\<lparr>f_off := f_off f + length (enc_msg e)\<rparr>"
  define fs1 where "fs1 = fs\<lparr>inodes := (inodes fs)(f_ino f := inodes fs (f_ino f) @ enc_msg e), ticks := ticks fs + 4\<rparr>"
  define fr' where "fr' = fr\<lparr>fr_file := Some f', fr_Size := fr_Size fr + int (8 + 8 + 4 + length (me_Payload e)),
    fr_MessageCount := fr_MessageCount fr + 1\<rparr>"
  have "write_fields f (message_fields e) fs = ((f', None), fs1)"
    using write_fields_healthy [OF fs(1) f(2,6), of "message_fields e"]
    by (simp add: f'_def fs1_def enc_msg_def) (simp add: message_fields_def)
  then have wr: "write_entry topic i e fm fs = ((None, set_fragment topic i fr' fm), tick fs1)"
    using f(1,2) fs(1) by (simp add: write_entry_def fr'_def file_Sync_def fr_def [symmetric] f'_def fs1_def Let_def)
  have new: "frag_rep (tick fs1) fr' (es @ [e])"
    using f es e counts by (simp add: frag_rep_def fr'_def fs1_def f'_def headerSize_def length_enc_msg)
  have old: "frag_rep (tick fs1) (frags fm t ! k) (L t ! k)" if "k < length (frags fm t)" "t \<noteq> topic \<or> k \<noteq> i" for t k
  proof (rule frag_rep_frame)
    show "frag_rep fs (frags fm t ! k) (L t ! k)"
      using rep that by (auto simp: fm_rep_def list_all2_conv_all_nth)
    show "lookup_ino (tick fs1) (fr_Path (frags fm t ! k)) = lookup_ino fs (fr_Path (frags fm t ! k))"
      by (simp add: fs1_def)
    have "t = topic \<Longrightarrow> i < 2 ^ 64 \<and> k < 2 ^ 64" using that(1) i by simp
    moreover have "fr_Path fr = GetFragmentPath fm topic (word_of_nat i)" using rep i by (simp add: fm_rep_def fr_def)
    ultimately have "fr_Path (frags fm t ! k) \<noteq> fr_Path fr"
      using that(2) word_of_nat_u64_inject [of i k] by (auto simp: fm_rep_path_eq [OF rep that(1) topic])
    then have "lookup_ino fs (fr_Path (frags fm t ! k)) \<noteq> Some (f_ino f)"
      using fs(2) f(3) by (auto simp: fs_wf_def)
    then show "inodes (tick fs1) j = inodes fs j" if "lookup_ino fs (fr_Path (frags fm t ! k)) = Some j" for j
      using that by (auto simp: fs1_def)
  qed
  have old': "frag_rep (tick fs1) (frags fm topic ! k) (Ls ! k)" if "k < length Ls" for k
    using old [of k topic] that L i(1) by (simp add: i_def nth_append)
  have "fr_ID fr' = fr_ID fr" "fr_Topic fr' = fr_Topic fr" "fr_Path fr' = fr_Path fr" by (simp_all add: fr'_def)
  then have "fm_rep (set_fragment topic i fr' fm) (tick fs1) (L(topic := Ls @ [es @ [e]]))"
    using rep old old' new i fm_rep_length [OF rep, of topic] L
    by (auto simp: fm_rep_def list_all2_conv_all_nth nth_list_update nth_append i_def fr_def)
  moreover have "healthy (tick fs1)" "fs_wf (tick fs1)" using fs by (simp_all add: fs1_def)
  moreover have "fr_CreatedAt fr' = fr_CreatedAt (frags fm topic ! i)" by (simp add: fr'_def fr_def)
  moreover have "kept fs (tick fs1) q" if "\<forall>i. q \<noteq> GetFragmentPath fm topic i" for q
  proof -
    have "fr_Path fr = GetFragmentPath fm topic (word_of_nat i)" using rep i by (simp add: fm_rep_def fr_def)
    with that f(3) fs(2) have "lookup_ino fs q \<noteq> Some (f_ino f)" by (auto simp: fs_wf_def)
    then show ?thesis by (auto simp: kept_def fs1_def)
  qed
  ultimately show ?thesis using wr unfolding i_def by blast
qed

text \<open>
  What \<^verbatim>\<open>WriteMessage\<close> does to the fragments of a topic: the message goes to the last fragment, or to
  a new one when there is none or the last one is full.
\<close>

definition add_message :: "int \<Rightarrow> int \<Rightarrow> message_entry \<Rightarrow> message_entry list list \<Rightarrow> message_entry list list" where
  "add_message maxSize maxMessages e Ls =
     (if Ls = [] \<or> maxSize \<le> int (length (concat (map enc_msg (last Ls)))) \<or> maxMessages \<le> int (length (last Ls))
      then Ls @ [[e]] else butlast Ls @ [last Ls @ [e]])"

lemma concat_add_message: "concat (add_message a b e Ls) = concat Ls @ [e]"
proof (cases "Ls = []")
  case False
  then have "concat Ls = concat (butlast Ls) @ last Ls"
    by (metis append_butlast_last_id concat.simps concat_append append_Nil2)
  then show ?thesis by (simp add: add_message_def)
qed (simp add: add_message_def)

lemma GetCurrentFragment_rep:
  assumes fs: "healthy fs" "fs_wf fs" and rep: "fm_rep fm fs L" and topic: "plain topic"
    and len: "length (L topic) < 2 ^ 64"
    and Ls: "Ls = (if L topic = [] \<or> full fm (last (frags fm topic)) then L topic @ [[]] else L topic)"
  shows "\<exists>fm' fs'. GetCurrentFragment clk topic fm fs = ((Inr (length Ls - 1), fm'), fs') \<and>
    fm_rep fm' fs' (L(topic := Ls)) \<and> healthy fs' \<and> fs_wf fs' \<and> (\<exists>m. fm' = fm\<lparr>fm_fragments := m\<rparr>) \<and>
    (\<forall>q. (\<forall>i. q \<noteq> GetFragmentPath fm topic i) \<longrightarrow> kept fs fs' q)"
proof (cases "L topic = [] \<or> full fm (last (frags fm topic))")
  case True
  then have "GetCurrentFragment clk topic fm fs = CreateFragment clk topic fm fs"
    using fm_rep_length [OF rep, of topic] by (auto simp: GetCurrentFragment_def Let_def)
  with CreateFragment_rep [OF fs rep topic len, of clk] True show ?thesis
    unfolding Ls by fastforce
next
  case False
  then have "GetCurrentFragment clk topic fm fs = ((Inr (length Ls - 1), fm), fs)"
    using fm_rep_length [OF rep, of topic] by (auto simp: GetCurrentFragment_def Let_def Ls)
  moreover have "L(topic := Ls) = L" "fm = fm\<lparr>fm_fragments := fm_fragments fm\<rparr>" "kept fs fs q" for q
    using False by (auto simp: Ls kept_def)
  ultimately show ?thesis using fs rep by metis
qed

lemma full_rep:
  assumes "fm_rep fm fs L" and "L topic \<noteq> []"
  shows "full fm (last (frags fm topic)) \<longleftrightarrow>
    fm_maxSize fm \<le> int (length (concat (map enc_msg (last (L topic))))) \<or> fm_maxMessages fm \<le> int (length (last (L topic)))"
proof -
  have "list_all2 (frag_rep fs) (frags fm topic) (L topic)" "frags fm topic \<noteq> []"
    using assms fm_rep_length [OF assms(1), of topic] by (auto simp: fm_rep_def)
  then have "frag_rep fs (last (frags fm topic)) (last (L topic))"
    using assms(2) by (simp add: last_conv_nth list_all2_conv_all_nth)
  then show ?thesis by (simp add: full_def frag_rep_def)
qed

lemma WriteMessage_rep:
  assumes fs: "healthy fs" "fs_wf fs" and rep: "fm_rep fm fs L" and topic: "plain topic"
    and len: "length (L topic) < 2 ^ 64" and payload: "length payload < 2 ^ 32"
  shows "\<exists>fm' fs'. WriteMessage clk topic messageID payload fm fs = ((None, fm'), fs') \<and>
    fm_rep fm' fs' (L(topic := add_message (fm_maxSize fm) (fm_maxMessages fm) (new_entry (clk 2) messageID payload) (L topic))) \<and>
    healthy fs' \<and> fs_wf fs' \<and> (\<exists>m. fm' = fm\<lparr>fm_fragments := m\<rparr>) \<and>
    (\<forall>q. (\<forall>i. q \<noteq> GetFragmentPath fm topic i) \<longrightarrow> kept fs fs' q)"
proof -
  define Ls where "Ls = (if L topic = [] \<or> full fm (last (frags fm topic)) then L topic @ [[]] else L topic)"
  define e where "e = new_entry (clk 2) messageID payload"
  obtain fm1 fs1 m where 1: "GetCurrentFragment clk topic fm fs = ((Inr (length Ls - 1), fm1), fs1)"
    "fm_rep fm1 fs1 (L(topic := Ls))" "healthy fs1" "fs_wf fs1" "fm1 = fm\<lparr>fm_fragments := m\<rparr>"
    "\<forall>q. (\<forall>i. q \<noteq> GetFragmentPath fm topic i) \<longrightarrow> kept fs fs1 q"
    using GetCurrentFragment_rep [OF fs rep topic len Ls_def, of clk] by blast
  have ne: "Ls \<noteq> []" by (simp add: Ls_def)
  have "(L(topic := Ls)) topic = butlast Ls @ [last Ls]" using ne by simp
  moreover have "length ((L(topic := Ls)) topic) \<le> 2 ^ 64" using len by (simp add: Ls_def)
  ultimately obtain fr fs' where 2: "write_entry topic (length Ls - 1) e fm1 fs1 = ((None, set_fragment topic (length Ls - 1) fr fm1), fs')"
    "fm_rep (set_fragment topic (length Ls - 1) fr fm1) fs' (L(topic := butlast Ls @ [last Ls @ [e]]))" "healthy fs'" "fs_wf fs'"
    "\<forall>q. (\<forall>i. q \<noteq> GetFragmentPath fm1 topic i) \<longrightarrow> kept fs1 fs' q"
    using write_entry_rep [OF 1(3,4,2) _ _ msg_ok_new_entry [OF payload], of topic "butlast Ls" "last Ls" "clk 2" messageID]
    unfolding e_def by fastforce
  have "butlast Ls @ [last Ls @ [e]] = add_message (fm_maxSize fm) (fm_maxMessages fm) e (L topic)"
    using full_rep [OF rep, of topic] by (auto simp: Ls_def add_message_def)
  moreover have "GetFragmentPath fm1 = GetFragmentPath fm" by (simp add: 1(5) GetFragmentPath_def fun_eq_iff)
  then have "\<forall>q. (\<forall>i. q \<noteq> GetFragmentPath fm topic i) \<longrightarrow> kept fs fs' q" using 1(6) 2(5) kept_trans by metis
  ultimately show ?thesis
    using 1 2 by (auto simp: WriteMessage_def e_def set_fragment_def)
qed

section \<open>The message log interface\<close>

text \<open>
  What the broker relies on: appends succeed and extend the log of their topic only, and a read
  returns a window of the log. \<open>holds s H\<close> relates a state to the logs it stands for.
\<close>

fun run_appends :: "(string \<Rightarrow> 'c \<Rightarrow> 's \<Rightarrow> bool \<times> 's) \<Rightarrow> (string \<times> 'c) list \<Rightarrow> 's \<Rightarrow> bool \<times> 's" where
  "run_appends app [] s = (True, s)"
| "run_appends app ((t, c) # xs) s =
     (case app t c s of (False, s') \<Rightarrow> (False, s') | (True, s') \<Rightarrow> run_appends app xs s')"

definition of_topic :: "string \<Rightarrow> (string \<times> 'c) list \<Rightarrow> 'c list" where
  "of_topic t xs = map snd (filter (\<lambda>x. fst x = t) xs)"

lemma of_topic_simps [simp]:
  "of_topic t [] = []"
  "of_topic t ((t', c) # xs) = (if t' = t then c # of_topic t xs else of_topic t xs)"
  by (simp_all add: of_topic_def)

locale message_log =
  fixes app :: "string \<Rightarrow> 'c \<Rightarrow> 's \<Rightarrow> bool \<times> 's"
    and rd :: "string \<Rightarrow> nat \<Rightarrow> nat \<Rightarrow> 's \<Rightarrow> 'm list"
    and entry :: "'c \<Rightarrow> 'm"
    and good :: "string \<Rightarrow> 'c \<Rightarrow> bool"
    and holds :: "'s \<Rightarrow> (string \<Rightarrow> 'm list) \<Rightarrow> bool"
  assumes app_holds: "holds s H \<Longrightarrow> good t c \<Longrightarrow> length (H t) < 2 ^ 64 \<Longrightarrow>
      \<exists>s'. app t c s = (True, s') \<and> holds s' (H(t := H t @ [entry c]))"
    and rd_holds: "holds s H \<Longrightarrow> off + lim < 2 ^ 64 \<Longrightarrow> rd t off lim s = take lim (drop off (H t))"
begin

lemma run_appends_holds:
  "holds s H \<Longrightarrow> \<forall>(t, c) \<in> set xs. good t c \<Longrightarrow> \<forall>t. length (H t) + length xs < 2 ^ 64 \<Longrightarrow>
   \<exists>s'. run_appends app xs s = (True, s') \<and> holds s' (\<lambda>t. H t @ map entry (of_topic t xs))"
proof (induction xs arbitrary: s H)
  case (Cons x xs)
  obtain t c where x: "x = (t, c)" by force
  have "length (H t) < 2 ^ 64" using spec [OF Cons.prems(3), of t] by simp
  then obtain s1 where s1: "app t c s = (True, s1)" "holds s1 (H(t := H t @ [entry c]))"
    using app_holds [of s H t c] Cons.prems x by auto
  have "\<forall>u. length ((H(t := H t @ [entry c])) u) + length xs < 2 ^ 64"
  proof
    show "length ((H(t := H t @ [entry c])) u) + length xs < 2 ^ 64" for u
      using spec [OF Cons.prems(3), of u] by (cases "u = t") simp_all
  qed
  with Cons.IH [OF s1(2)] Cons.prems(2) obtain s2 where
    "run_appends app xs s1 = (True, s2)" "holds s2 (\<lambda>u. (H(t := H t @ [entry c])) u @ map entry (of_topic u xs))"
    by auto
  moreover have "(\<lambda>u. (H(t := H t @ [entry c])) u @ map entry (of_topic u xs)) = (\<lambda>u. H u @ map entry (of_topic u (x # xs)))"
    by (simp add: x fun_eq_iff)
  ultimately show ?case using s1(1) x by simp
qed simp

lemma read_after_appends:
  assumes "holds s (\<lambda>_. [])" and "\<forall>(t, c) \<in> set xs. good t c" and "length xs < 2 ^ 64"
  shows "\<exists>s'. run_appends app xs s = (True, s') \<and> (\<forall>t off lim. off + lim < 2 ^ 64 \<longrightarrow>
    rd t off lim s' = take lim (drop off (map entry (of_topic t xs))))"
  using run_appends_holds [OF assms(1,2)] assms(3) rd_holds by fastforce

end

text \<open>
  The fragment manager as such a log. Its representation keeps one more fact: every fragment holds a
  message, at most \<^verbatim>\<open>maxMessages\<close> of them (or one), all but the last message of a fragment are below
  \<^verbatim>\<open>maxSize\<close>, and all fragments but the last are full.
\<close>

type_synonym write_args = "(nat \<Rightarrow> time) \<times> u64 \<times> bytes"

definition fm_app :: "string \<Rightarrow> write_args \<Rightarrow> fragment_manager \<times> fsys \<Rightarrow> bool \<times> fragment_manager \<times> fsys" where
  "fm_app t c s =
     (case c of (clk, messageID, payload) \<Rightarrow>
        case s of (fm, fs) \<Rightarrow>
          case WriteMessage clk t messageID payload fm fs of ((r, fm'), fs') \<Rightarrow> (r = None, fm', fs'))"

definition fm_rd :: "string \<Rightarrow> nat \<Rightarrow> nat \<Rightarrow> fragment_manager \<times> fsys \<Rightarrow> message_entry list" where
  "fm_rd t off lim s = fst (ReadMessages t (word_of_nat off) (int lim) (fst s) (snd s))"

definition fm_entry :: "write_args \<Rightarrow> message_entry" where
  "fm_entry c = (case c of (clk, messageID, payload) \<Rightarrow> new_entry (clk 2) messageID payload)"

definition fm_good :: "string \<Rightarrow> write_args \<Rightarrow> bool" where
  "fm_good t c \<longleftrightarrow> plain t \<and> length (snd (snd c)) < 2 ^ 32"

definition msgs_size :: "message_entry list \<Rightarrow> int" where
  "msgs_size es = int (length (concat (map enc_msg es)))"

definition rotated :: "int \<Rightarrow> int \<Rightarrow> message_entry list list \<Rightarrow> bool" where
  "rotated maxSize maxMessages Ls \<longleftrightarrow>
     (\<forall>es \<in> set Ls. es \<noteq> [] \<and> (length es = 1 \<or> int (length es) \<le> maxMessages \<and> msgs_size (butlast es) < maxSize)) \<and>
     (\<forall>es \<in> set (butlast Ls). maxSize \<le> msgs_size es \<or> maxMessages \<le> int (length es))"

definition fm_holds :: "int \<Rightarrow> int \<Rightarrow> fragment_manager \<times> fsys \<Rightarrow> (string \<Rightarrow> message_entry list) \<Rightarrow> bool" where
  "fm_holds maxSize maxMessages s H \<longleftrightarrow> healthy (snd s) \<and> fs_wf (snd s) \<and>
     fm_maxSize (fst s) = maxSize \<and> fm_maxMessages (fst s) = maxMessages \<and>
     (\<exists>L. fm_rep (fst s) (snd s) L \<and> (\<forall>t. rotated maxSize maxMessages (L t) \<and> concat (L t) = H t))"

lemma rotated_add_message:
  assumes "rotated a b Ls"
  shows "rotated a b (add_message a b e Ls)"
proof (cases "Ls = []")
  case False
  then obtain Ms es where "Ls = Ms @ [es]" by (metis rev_exhaust)
  with assms show ?thesis
    by (auto simp: rotated_def add_message_def msgs_size_def butlast_append)
qed (simp add: rotated_def add_message_def)

lemma rotated_length: "rotated a b Ls \<Longrightarrow> length Ls \<le> length (concat Ls)"
proof -
  assume "rotated a b Ls"
  then have "\<forall>es \<in> set Ls. es \<noteq> []" by (simp add: rotated_def)
  then show ?thesis
    by (induction Ls) (auto simp: neq_Nil_conv)
qed

lemma fm_holds_new: "healthy fs \<Longrightarrow> fs_wf fs \<Longrightarrow> fm_holds a b (NewFragmentManager dir a b ttl, fs) (\<lambda>_. [])"
  by (auto simp: fm_holds_def NewFragmentManager_def fm_rep_def frags_def rotated_def intro!: exI [of _ "\<lambda>_. []"])

text \<open>A write adds its message to the log of its topic, and leaves alone every file that is no fragment of the topic.\<close>

lemma fm_holds_write:
  assumes h: "fm_holds maxSize maxMessages (fm, fs) H" and "plain t" and "length p < 2 ^ 32" and len: "length (H t) < 2 ^ 64"
  shows "\<exists>fm' fs'. WriteMessage clk t i p fm fs = ((None, fm'), fs') \<and>
    fm_holds maxSize maxMessages (fm', fs') (H(t := H t @ [new_entry (clk 2) i p])) \<and>
    GetFragmentPath fm' = GetFragmentPath fm \<and> (\<forall>q. (\<forall>j. q \<noteq> GetFragmentPath fm t j) \<longrightarrow> kept fs fs' q)"
proof -
  obtain L where L: "healthy fs" "fs_wf fs" "fm_rep fm fs L" "\<forall>t. rotated maxSize maxMessages (L t)" "\<forall>t. concat (L t) = H t"
    "fm_maxSize fm = maxSize" "fm_maxMessages fm = maxMessages"
    using h by (auto simp: fm_holds_def)
  have "length (L t) < 2 ^ 64" using rotated_length [of maxSize maxMessages "L t"] L(4,5) len by fastforce
  then obtain fm' fs' m where w: "WriteMessage clk t i p fm fs = ((None, fm'), fs')"
    "fm_rep fm' fs' (L(t := add_message maxSize maxMessages (new_entry (clk 2) i p) (L t)))"
    "healthy fs'" "fs_wf fs'" "fm' = fm\<lparr>fm_fragments := m\<rparr>" "\<forall>q. (\<forall>j. q \<noteq> GetFragmentPath fm t j) \<longrightarrow> kept fs fs' q"
    using WriteMessage_rep [OF L(1-3), of t p clk i] assms(2,3) L(6,7) by auto
  have "fm_holds maxSize maxMessages (fm', fs') (H(t := H t @ [new_entry (clk 2) i p]))"
    using w L by (auto simp: fm_holds_def rotated_add_message concat_add_message
        intro!: exI [of _ "L(t := add_message maxSize maxMessages (new_entry (clk 2) i p) (L t))"])
  with w(1,5,6) show ?thesis by (auto simp: GetFragmentPath_def fun_eq_iff)
qed

text \<open>An operation on other files does not change what the manager holds.\<close>

lemma fm_holds_frame:
  assumes h: "fm_holds maxSize maxMessages (fm, fs) H" and "healthy fs'" and "fs_wf fs'"
    and kept: "\<And>t i. plain t \<Longrightarrow> kept fs fs' (GetFragmentPath fm t i)"
  shows "fm_holds maxSize maxMessages (fm, fs') H"
proof -
  obtain L where L: "fm_rep fm fs L" "\<forall>t. rotated maxSize maxMessages (L t) \<and> concat (L t) = H t"
    "fm_maxSize fm = maxSize" "fm_maxMessages fm = maxMessages"
    using h by (auto simp: fm_holds_def)
  have "frag_rep fs' (frags fm t ! i) (L t ! i)" if "i < length (frags fm t)" for t i
  proof -
    have "frag_rep fs (frags fm t ! i) (L t ! i)" "plain t" "fr_Path (frags fm t ! i) = GetFragmentPath fm t (word_of_nat i)"
      using L(1) that by (auto simp: fm_rep_def list_all2_conv_all_nth)
    with kept [of t "word_of_nat i"] show ?thesis by (auto simp: kept_def intro: frag_rep_frame)
  qed
  then have "fm_rep fm fs' L" using L(1) by (auto simp: fm_rep_def list_all2_conv_all_nth)
  with L assms(2,3) show ?thesis by (auto simp: fm_holds_def)
qed

interpretation fm_log: message_log fm_app fm_rd fm_entry fm_good "fm_holds maxSize maxMessages"
  for maxSize maxMessages
proof
  fix s H t and c :: write_args
  assume h: "fm_holds maxSize maxMessages s H" and g: "fm_good t c" and len: "length (H t) < 2 ^ 64"
  obtain fm fs clk i p where s: "s = (fm, fs)" and c: "c = (clk, i, p)" by (metis prod.exhaust)
  show "\<exists>s'. fm_app t c s = (True, s') \<and> fm_holds maxSize maxMessages s' (H(t := H t @ [fm_entry c]))"
    using fm_holds_write [OF h [unfolded s], of t p clk i] g len by (auto simp: fm_good_def fm_app_def fm_entry_def s c)
next
  fix s H and off lim :: nat and t
  assume h: "fm_holds maxSize maxMessages s H" and b: "off + lim < 2 ^ 64"
  then have "unat (word_of_nat off :: u64) = off" by (simp add: unat_of_nat)
  with h b show "fm_rd t off lim s = take lim (drop off (H t))"
    using ReadMessages_rep [of "snd s" "fst s" _ "word_of_nat off" lim t] by (fastforce simp: fm_holds_def fm_rd_def)
qed

section \<open>Clean-up and replication\<close>

text \<open>Removing the expired paths of a list of fragments, whatever the paths are.\<close>

lemma close_file_frame [simp]:
  "healthy (snd (close_file fr fs)) = healthy fs" "fs_content (snd (close_file fr fs)) = fs_content fs"
  by (simp_all add: close_file_def file_Close_def split: option.splits)

lemma fs_content_Remove: "healthy fs \<Longrightarrow> fs_content (snd (os_Remove p fs)) = (fs_content fs)(p := None)"
  by (simp add: fs_content_def fun_eq_iff lookup_ino_Remove)

lemma cleanup_fragments_spec:
  "healthy fs \<Longrightarrow> cleanup_fragments now ttl frs fs = (valid, fs') \<Longrightarrow>
   valid = filter (\<lambda>fr. \<not> expired now ttl fr) frs \<and> healthy fs' \<and>
   (\<forall>p. fs_content fs' p = (if \<exists>fr \<in> set frs. expired now ttl fr \<and> fr_Path fr = p then None else fs_content fs p))"
proof (induction frs arbitrary: fs valid)
  case (Cons fr frs)
  show ?case
  proof (cases "expired now ttl fr")
    case True
    then show ?thesis
      using Cons.prems Cons.IH [of "snd (os_Remove (fr_Path fr) (snd (close_file fr fs)))" valid]
      by (auto simp: fs_content_Remove)
  next
    case False
    then show ?thesis using Cons.prems Cons.IH [of fs] by (auto split: prod.splits)
  qed
qed simp

lemma cleanup_topics_spec:
  "healthy fs \<Longrightarrow> distinct order \<Longrightarrow> cleanup_topics now order fm fs = (fm', fs') \<Longrightarrow>
   fm_ttl fm' = fm_ttl fm \<and>
   (\<forall>t. frags fm' t = (if t \<in> set order then filter (\<lambda>fr. \<not> expired now (fm_ttl fm) fr) (frags fm t) else frags fm t)) \<and>
   (\<forall>p. fs_content fs' p =
     (if \<exists>t \<in> set order. \<exists>fr \<in> set (frags fm t). expired now (fm_ttl fm) fr \<and> fr_Path fr = p then None else fs_content fs p))"
proof (induction order arbitrary: fm fs)
  case (Cons t ts)
  obtain valid fs1 where v: "cleanup_fragments now (fm_ttl fm) (frags fm t) fs = (valid, fs1)" by force
  note v' = cleanup_fragments_spec [OF Cons.prems(1) v]
  define fm1 where "fm1 = fm\<lparr>fm_fragments := (fm_fragments fm)(t := if valid = [] then None else Some valid)\<rparr>"
  have fm1: "frags fm1 u = (if u = t then valid else frags fm u)" "fm_ttl fm1 = fm_ttl fm" for u
    by (simp_all add: fm1_def frags_def)
  have "cleanup_topics now ts fm1 fs1 = (fm', fs')" using Cons.prems(3) v by (simp add: fm1_def)
  with Cons.IH [of fs1 fm1] Cons.prems(2) v' show ?case
    by (auto simp: fm1)
qed simp

text \<open>The temporary file's name never exists before, so \<^verbatim>\<open>ReplicateFragmentToFile\<close> touches no other file.\<close>

lemma healthy_or_not_ops [simp]:
  "fs_content (snd (file_Sync f fs)) = fs_content fs"
  "fs_content (snd (file_Close f fs)) = fs_content fs"
  "fs_content (snd (os_MkdirAll p fs)) = fs_content fs"
  by (simp_all add: file_Sync_def file_Close_def os_MkdirAll_def)

section \<open>Properties\<close>

text \<open>
  C3: The fragment manager is a message log. Whatever sequence of messages is written to whatever
  topics (with names that are plain path elements), on a file system without faults and with
  whatever limits on the fragments, every write succeeds, and \<^verbatim>\<open>ReadMessages\<close> of a topic then
  returns the requested window of exactly the messages written to that topic, in order.
\<close>

theorem FragmentManager_is_log:
  assumes "healthy fs" and "fs_wf fs" and "\<forall>(t, c) \<in> set xs. fm_good t c" and "length xs < 2 ^ 64"
  shows "\<exists>fm' fs'. run_appends fm_app xs (NewFragmentManager dir maxSize maxMessages ttl, fs) = (True, fm', fs') \<and>
    (\<forall>t off lim. off + lim < 2 ^ 64 \<longrightarrow>
      fst (ReadMessages t (word_of_nat off) (int lim) fm' fs') = take lim (drop off (map fm_entry (of_topic t xs))))"
  using fm_log.read_after_appends [OF fm_holds_new [OF assms(1,2)] assms(3,4), of dir maxSize maxMessages ttl]
  by (simp add: fm_rd_def)

definition sample_writes :: "(string \<times> write_args) list" where
  "sample_writes = [(''orders'', (\<lambda>_. 10, 1, [65])), (''users'', (\<lambda>_. 20, 2, [])), (''orders'', (\<lambda>_. 30, 3, [66, 67]))]"

lemma sample_writes_good: "\<forall>(t, c) \<in> set sample_writes. fm_good t c" "length sample_writes < 2 ^ 64"
  by (simp_all add: sample_writes_def fm_good_def plain_def)

theorem FragmentManager_is_log_witness:
  "\<exists>fm' fs'. run_appends fm_app sample_writes (NewFragmentManager ''data'' 4096 1 0, empty_fs) = (True, fm', fs') \<and>
    (\<forall>t off lim. off + lim < 2 ^ 64 \<longrightarrow>
      fst (ReadMessages t (word_of_nat off) (int lim) fm' fs') = take lim (drop off (map fm_entry (of_topic t sample_writes))))"
  by (rule FragmentManager_is_log [OF empty_fs_ok(1,2) sample_writes_good])

text \<open>
  C24: Rotation keeps the limits. After any such sequence of writes, every fragment of every topic
  holds at least one message and at most \<^verbatim>\<open>maxMessages\<close> (a single message where the limit is below
  two), and every fragment except the last one of its topic has reached one of the two limits.
\<close>

theorem WriteMessage_rotation:
  assumes "healthy fs" and "fs_wf fs" and "\<forall>(t, c) \<in> set xs. fm_good t c" and "length xs < 2 ^ 64"
  shows "\<exists>fm' fs'. run_appends fm_app xs (NewFragmentManager dir maxSize maxMessages ttl, fs) = (True, fm', fs') \<and>
    (\<forall>t. (\<forall>fr \<in> set (frags fm' t). 1 \<le> fr_MessageCount fr \<and> (fr_MessageCount fr = 1 \<or> fr_MessageCount fr \<le> maxMessages)) \<and>
         (\<forall>fr \<in> set (butlast (frags fm' t)). maxSize \<le> fr_Size fr \<or> maxMessages \<le> fr_MessageCount fr))"
proof -
  obtain fm' fs' L where run: "run_appends fm_app xs (NewFragmentManager dir maxSize maxMessages ttl, fs) = (True, fm', fs')"
    and L: "fm_rep fm' fs' L" "\<forall>t. rotated maxSize maxMessages (L t)"
    using fm_log.run_appends_holds [OF fm_holds_new [OF assms(1,2), where a = maxSize and b = maxMessages and dir = dir and ttl = ttl] assms(3)] assms(4)
    by (auto simp: fm_holds_def)
  have rel: "list_all2 (\<lambda>fr es. fr_MessageCount fr = int (length es) \<and> fr_Size fr = msgs_size es) (frags fm' t) (L t)" for t
    using L(1) by (auto simp: fm_rep_def frag_rep_def msgs_size_def intro: list.rel_mono_strong)
  have "1 \<le> fr_MessageCount fr \<and> (fr_MessageCount fr = 1 \<or> fr_MessageCount fr \<le> maxMessages)" if fr: "fr \<in> set (frags fm' t)" for t fr
    using L(2) list_all2_in1 [OF rel fr] by (fastforce simp: rotated_def neq_Nil_conv)
  moreover have "maxSize \<le> fr_Size fr \<or> maxMessages \<le> fr_MessageCount fr" if fr: "fr \<in> set (butlast (frags fm' t))" for t fr
    using L(2) list_all2_in1 [OF list_all2_butlast [OF rel] fr] by (fastforce simp: rotated_def)
  ultimately show ?thesis using run by blast
qed

theorem WriteMessage_rotation_witness:
  "\<exists>fm' fs'. run_appends fm_app sample_writes (NewFragmentManager ''data'' 4096 1 0, empty_fs) = (True, fm', fs') \<and>
    (\<forall>t. (\<forall>fr \<in> set (frags fm' t). 1 \<le> fr_MessageCount fr \<and> (fr_MessageCount fr = 1 \<or> fr_MessageCount fr \<le> 1)) \<and>
         (\<forall>fr \<in> set (butlast (frags fm' t)). 4096 \<le> fr_Size fr \<or> 1 \<le> fr_MessageCount fr))"
  by (rule WriteMessage_rotation [OF empty_fs_ok(1,2) sample_writes_good])

text \<open>
  C25: Clean-up is exact. With a positive TTL and whatever order Go iterates over the topics in, the
  clean-up keeps of every topic exactly the fragments that are not expired, in their order, and on
  a file system without faults it removes exactly the files of the expired ones.
\<close>

theorem cleanup_exact:
  assumes "healthy fs" and "0 < fm_ttl fm" and "distinct order" and "set order = dom (fm_fragments fm)"
  shows "\<exists>fm' fs'. cleanupExpiredFragments now order fm fs = (fm', fs') \<and>
    (\<forall>t. frags fm' t = filter (\<lambda>fr. now - fr_CreatedAt fr \<le> fm_ttl fm) (frags fm t)) \<and>
    (\<forall>p. fs_content fs' p =
       (if \<exists>t. \<exists>fr \<in> set (frags fm t). fm_ttl fm < now - fr_CreatedAt fr \<and> fr_Path fr = p then None else fs_content fs p))"
proof -
  obtain fm' fs' where c: "cleanup_topics now order fm fs = (fm', fs')" by force
  have none: "frags fm t = []" if "t \<notin> set order" for t
    using that assms(4) by (auto simp: frags_def split: option.splits)
  have "(\<lambda>fr. \<not> expired now (fm_ttl fm) fr) = (\<lambda>fr. now - fr_CreatedAt fr \<le> fm_ttl fm)"
    by (auto simp: expired_def fun_eq_iff)
  moreover have "(\<exists>t \<in> set order. \<exists>fr \<in> set (frags fm t). expired now (fm_ttl fm) fr \<and> fr_Path fr = p) \<longleftrightarrow>
      (\<exists>t. \<exists>fr \<in> set (frags fm t). fm_ttl fm < now - fr_CreatedAt fr \<and> fr_Path fr = p)" for p
    using none by (fastforce simp: expired_def)
  ultimately show ?thesis
    using cleanup_topics_spec [OF assms(1,3) c] c assms(2) none by (auto simp: cleanupExpiredFragments_def)
qed

definition one_fragment :: "fragment_manager" where
  "one_fragment = (NewFragmentManager ''data'' 4096 10 100)\<lparr>fm_fragments :=
     [''a'' \<mapsto> [\<lparr>fr_ID = 0, fr_Topic = ''a'', fr_Path = ''data/a/fragment_0.frag'', fr_Size = 0,
        fr_MessageCount = 0, fr_CreatedAt = 50, fr_file = None\<rparr>]]\<rparr>"

theorem cleanup_exact_witness:
  "\<exists>fm' fs'. cleanupExpiredFragments 151 [''a''] one_fragment (fs_with ''data/a/fragment_0.frag'' [1]) = (fm', fs') \<and>
    frags fm' ''a'' = [] \<and> fs_content fs' ''data/a/fragment_0.frag'' = None"
proof -
  have "0 < fm_ttl one_fragment" "set [''a''] = dom (fm_fragments one_fragment)"
    by (simp_all add: one_fragment_def NewFragmentManager_def)
  from cleanup_exact [OF fs_with_ok(1) this(1) _ this(2), of 151 "''data/a/fragment_0.frag''" "[1]"]
  show ?thesis
    by (fastforce simp: one_fragment_def NewFragmentManager_def frags_def split: if_splits)
qed

lemma sample_paths:
  "filepath_Join [filepath_Join [''data'', ''a''], fragment_name 0] = ''data/a/fragment_0.frag''"
  "filepath_Join [filepath_Join [''data'', ''a''], fragment_name 1] = ''data/a/fragment_1.frag''"
  "filepath_Join [filepath_Join [''data'', ''a''], fragment_name 2] = ''data/a/fragment_2.frag''"
  by code_simp+

text \<open>The equations that run the operations on a concrete file system.\<close>

lemmas fragment_run =
  fm_app_def WriteMessage_def GetCurrentFragment_def NewFragmentManager_def frags_def CreateFragment_def Let_def
  os_MkdirAll_def empty_fs_def fault_def tick_def os_Create_def lookup_ino_def fragment_header_def
  file_Write_def write_entry_def message_fields_def new_entry_def file_Sync_def set_fragment_def full_def
  cleanupExpiredFragments_def expired_def close_file_def file_Close_def os_Remove_def
  ReadMessages_def headerSize_def u64_add_def u64_of_int_def os_Open_def fs_content_def write_at_def

lemma read_loop_last:
  "cur < bound \<Longrightarrow> unat n = length p \<Longrightarrow>
   read_loop off bound (put_u64 i @ put_u64 t @ put_u32 n @ p) cur ms =
     (Suc cur, if off \<le> cur then ms @ [\<lparr>me_MessageID = i, me_Timestamp = t, me_PayloadSize = n, me_Payload = p\<rparr>] else ms)"
  using read_loop_messages [of "[\<lparr>me_MessageID = i, me_Timestamp = t, me_PayloadSize = n, me_Payload = p\<rparr>]" off bound cur ms]
  by (auto simp: enc_msg_def message_fields_def msg_ok_def Suc_diff_le)

definition ttl_scenario :: "message_entry list" where
  "ttl_scenario =
     (let (_, fm1, fs1) = run_appends fm_app
            [(''a'', (\<lambda>_. 0, 1, [1])), (''a'', (\<lambda>_. 90, 2, [2])), (''a'', (\<lambda>_. 95, 3, [3]))]
            (NewFragmentManager ''data'' 4096 1 100, empty_fs);
          (fm2, fs2) = cleanupExpiredFragments 150 [''a''] fm1 fs1;
          (_, fm3, fs3) = fm_app ''a'' (\<lambda>_. 160, 4, [4]) (fm2, fs2)
      in fst (ReadMessages ''a'' 0 10 fm3 fs3))"

text \<open>
  Clean-up and numbering do not fit together. A new fragment is numbered by the length of the
  list, not after the last number in use. Three messages in three fragments, the first one expires,
  a fourth message is written: its fragment takes the number and the file of the third one, which
  is still live. The third message is lost and the fourth is delivered twice.
\<close>

theorem cleanup_loses_live_messages: "map me_MessageID ttl_scenario = [2, 4, 4]"
  by (simp add: ttl_scenario_def fragment_run sample_paths read_loop_last)

definition partial_write_scenario :: "(frag_error option \<times> frag_error option) \<times> message_entry list" where
  "partial_write_scenario =
     (let fs0 = empty_fs\<lparr>faults := (\<lambda>n. if n = 10 then Some 0 else None)\<rparr>;
          ((r1, fm1), fs1) = WriteMessage (\<lambda>_. 10) ''a'' 2 (replicate 21 7) (NewFragmentManager ''data'' 4096 10 0) fs0;
          ((r2, fm2), fs2) = WriteMessage (\<lambda>_. 20) ''a'' 3 [3] fm1 fs1
      in ((r1, r2), fst (ReadMessages ''a'' 0 10 fm2 fs2)))"

text \<open>
  A write that fails half way is not undone. Here the payload of message 2 (21 bytes) cannot be
  written and \<^verbatim>\<open>WriteMessage\<close> reports it, then message 3 is written without an error. A reader gets
  message 2, with the bytes of message 3 as its payload, and never gets message 3.
\<close>

theorem failed_write_corrupts_log:
  "partial_write_scenario =
     ((Some FPayload, None),
      [(new_entry 10 2 (replicate 21 7))\<lparr>me_Payload := enc_msg (new_entry 20 3 [3])\<rparr>])"
  by (simp add: partial_write_scenario_def fragment_run sample_paths read_loop_last enc_msg_def)

lemma fs_content_replicate_cleanup: "q \<noteq> f_name f \<Longrightarrow> fs_content (replicate_cleanup f fs) q = fs_content fs q"
  by (auto simp: replicate_cleanup_def os_Remove_def fs_content_def lookup_ino_def file_Close_def delete_conv
      split: option.splits)

lemma os_CreateTemp_fresh:
  assumes "fs_wf fs" and "os_CreateTemp dir pre r fs = (Inr f, fs')" and "tmp = filepath_Join [dir, pre @ r]"
  shows "f_name f = tmp \<and> f_off f = 0 \<and> f_open f \<and> lookup_ino fs' = (lookup_ino fs)(tmp \<mapsto> f_ino f) \<and>
    inodes fs' = (inodes fs)(f_ino f := []) \<and> (\<forall>q. lookup_ino fs q \<noteq> Some (f_ino f))"
proof -
  have "\<forall>q. lookup_ino fs q \<noteq> Some (next_ino fs)" using assms(1) by (auto simp: fs_wf_def)
  then show ?thesis
    using assms(2,3)
    by (auto simp: os_CreateTemp_def os_Create_def Let_def lookup_ino_def fun_eq_iff split: if_splits option.splits)
qed

lemma os_Rename_content:
  "os_Rename old new fs = (r, fs') \<Longrightarrow> old \<noteq> new \<Longrightarrow>
   (\<forall>q. q \<noteq> old \<longrightarrow> q \<noteq> new \<longrightarrow> fs_content fs' q = fs_content fs q) \<and>
   fs_content fs' new = (if r = None then fs_content fs old else fs_content fs new)"
  by (auto simp: os_Rename_def fs_content_def lookup_ino_def delete_conv split: option.splits)

lemma file_Write_fresh:
  assumes "file_Write f d fs = ((f', r), fs')" and "inodes fs (f_ino f) = []" and "f_off f = 0" and "f_open f"
  shows "f_name f' = f_name f \<and> lookup_ino fs' = lookup_ino fs \<and>
    (\<forall>i. i \<noteq> f_ino f \<longrightarrow> inodes fs' i = inodes fs i) \<and> (r = None \<longrightarrow> inodes fs' (f_ino f) = d)"
  using assms by (auto simp: file_Write_def Let_def write_at_def split: option.splits)

text \<open>
  C16: Replicating a fragment is atomic for its target, whatever file operation fails: if the call
  reports success the target holds exactly the data, if it reports an error the target is as it
  was, and every other file but the temporary one is untouched in both cases.
\<close>

theorem ReplicateFragmentToFile_atomic:
  assumes "fs_wf fs" and tmp: "tmp = filepath_Join [filepath_Dir target, ''fragment_tmp_'' @ rnd]" "tmp \<noteq> target"
    and run: "ReplicateFragmentToFile rnd topic fragmentID data target fs = (r, fs')"
  shows "fs_content fs' target = (if r = None then Some data else fs_content fs target) \<and>
    (\<forall>p. p \<noteq> target \<longrightarrow> p \<noteq> tmp \<longrightarrow> fs_content fs' p = fs_content fs p)"
proof -
  have mk: "snd (os_MkdirAll (filepath_Dir target) fs) = tick fs" by (simp add: os_MkdirAll_def)
  obtain c fs2 where c: "os_CreateTemp (filepath_Dir target) ''fragment_tmp_'' rnd (tick fs) = (c, fs2)" by force
  show ?thesis
  proof (cases c)
    case (Inl e)
    then have "fs_content fs2 = fs_content fs"
      using c by (auto simp: os_CreateTemp_def os_Create_def Let_def split: if_splits option.splits)
    then show ?thesis
      using run c Inl mk by (auto simp: ReplicateFragmentToFile_def os_MkdirAll_def split: option.splits)
  next
    case (Inr f)
    note f = os_CreateTemp_fresh [of "tick fs", OF _ c [unfolded Inr] tmp(1), simplified, OF assms(1)]
    obtain f1 w fs3 where w: "file_Write f data fs2 = ((f1, w), fs3)" by (metis prod.exhaust)
    with f have w': "f_name f1 = tmp" "lookup_ino fs3 = (lookup_ino fs)(tmp \<mapsto> f_ino f)"
      "\<forall>i. i \<noteq> f_ino f \<longrightarrow> inodes fs3 i = inodes fs i" "w = None \<longrightarrow> inodes fs3 (f_ino f) = data"
      using file_Write_fresh [OF w] by auto
    have other: "fs_content fs3 q = fs_content fs q" if "q \<noteq> tmp" for q
    proof (cases "lookup_ino fs q")
      case (Some i)
      then have "i \<noteq> f_ino f" using f by blast
      with Some that w'(2,3) show ?thesis by (simp add: fs_content_def)
    qed (use that w'(2) in \<open>simp add: fs_content_def\<close>)
    have data: "w = None \<Longrightarrow> fs_content fs3 tmp = Some data"
      using w' by (simp add: fs_content_def)
    define fs5 where "fs5 = tick (tick fs3)"
    obtain r6 fs6 where m: "os_Rename tmp target fs5 = (r6, fs6)" by force
    note m' = os_Rename_content [OF m tmp(2)]
    have clean: "fs_content (replicate_cleanup g s) q = fs_content s q" if "f_name g = tmp" "q \<noteq> tmp" for g s q
      using that by (simp add: fs_content_replicate_cleanup)
    show ?thesis
      using run c Inr w w'(1) other data m m' clean tmp(2)
      by (auto simp: ReplicateFragmentToFile_def os_MkdirAll_def file_Sync_def file_Close_def fs5_def
          split: option.splits prod.splits if_splits)
  qed
qed

theorem ReplicateFragmentToFile_atomic_witness:
  "\<exists>fs'. ReplicateFragmentToFile ''42'' ''a'' 0 [1, 2] ''data/a/fragment_0.frag'' empty_fs = (None, fs') \<and>
    fs_content fs' ''data/a/fragment_0.frag'' = Some [1, 2]"
proof -
  let ?tmp = "filepath_Join [filepath_Dir ''data/a/fragment_0.frag'', ''fragment_tmp_'' @ ''42'']"
  have tmp: "?tmp = ''data/a/fragment_tmp_42''" by code_simp
  have dir: "filepath_Dir ''data/a/fragment_0.frag'' = ''data/a''" by code_simp
  obtain fs' where run: "ReplicateFragmentToFile ''42'' ''a'' 0 [1, 2] ''data/a/fragment_0.frag'' empty_fs = (None, fs')"
    using tmp by (simp add: ReplicateFragmentToFile_def os_CreateTemp_def os_Rename_def fragment_run dir)
  have "?tmp \<noteq> ''data/a/fragment_0.frag''" unfolding tmp by simp
  from ReplicateFragmentToFile_atomic [OF empty_fs_ok(2) refl this run] show ?thesis using run by simp
qed

text \<open>
  Selecting fragments for replication. For \<open>n > 0\<close> every fragment of the topic is selected for
  exactly one index, its number modulo \<open>n\<close>, so the selections for the indices below \<open>n\<close> together are
  the whole topic; for \<open>n = 0\<close> the division panics as soon as there is a fragment.
\<close>

theorem SelectFragments_partition:
  "(n \<noteq> 0 \<longrightarrow> (\<forall>idx. \<exists>sel. SelectFragmentsForReplication topic idx n fm = Returns sel \<and>
      set sel = {fr \<in> set (frags fm topic). fr_ID fr mod n = idx}) \<and>
      (\<forall>fr \<in> set (frags fm topic). fr_ID fr mod n < n)) \<and>
   (SelectFragmentsForReplication topic idx 0 fm = Panics \<longleftrightarrow> frags fm topic \<noteq> [])"
  by (auto simp: SelectFragmentsForReplication_def word_mod_less_divisor word_gt_0)

theorem SelectFragments_partition_witness:
  "SelectFragmentsForReplication ''a'' 0 0 one_fragment = Panics \<and>
   (\<exists>sel. SelectFragmentsForReplication ''a'' 0 2 one_fragment = Returns sel \<and>
      set sel = {fr \<in> set (frags one_fragment ''a''). fr_ID fr mod 2 = 0})"
  using SelectFragments_partition [of 2 "''a''" one_fragment 0] by (auto simp: one_fragment_def frags_def)

text \<open>
  Topic names are not checked. A topic that contains \<^verbatim>\<open>..\<close> leads to the files of another topic:
  \<^verbatim>\<open>x/../t\<close> and \<^verbatim>\<open>t\<close> are different topics of the manager with the same fragment files.
\<close>

theorem topics_share_files:
  assumes "plain x" and "plain t" and "fm_baseDir fm \<noteq> []"
  shows "x @ ''/../'' @ t \<noteq> t \<and> GetFragmentPath fm (x @ ''/../'' @ t) i = GetFragmentPath fm t i"
proof
  have "CHR ''/'' \<in> set (x @ ''/../'' @ t)" by simp
  then show "x @ ''/../'' @ t \<noteq> t" using assms(2) by (auto simp: plain_def)
  let ?b = "fm_baseDir fm" and ?f = "fragment_name i"
  have xt: "split_path (?b @ CHR ''/'' # x @ CHR ''/'' # CHR ''.'' # CHR ''.'' # CHR ''/'' # t @ CHR ''/'' # ?f) =
      split_path ?b @ [x, ''..'', t, ?f]"
    using assms plain_fragment_name [of i] split_path_append [of "''..''"]
    by (simp add: split_path_append split_path_noslash plain_def)
  have tt: "split_path (?b @ CHR ''/'' # t @ CHR ''/'' # ?f) = split_path ?b @ [t, ?f]"
    using assms plain_fragment_name [of i] by (simp add: split_path_append split_path_noslash plain_def)
  have "foldl (clean_step r) [] (split_path ?b @ [x, ''..'', t, ?f]) = foldl (clean_step r) [] (split_path ?b @ [t, ?f])" for r
    using assms(1) by (simp add: plain_def)
  with xt tt show "GetFragmentPath fm (x @ ''/../'' @ t) i = GetFragmentPath fm t i"
    using assms by (simp add: GetFragmentPath_def filepath_Join_def filepath_Clean_def Let_def)
qed

theorem topics_share_files_witness:
  "GetFragmentPath one_fragment ''x/../orders'' 0 = GetFragmentPath one_fragment ''orders'' 0"
  using topics_share_files [of "''x''" "''orders''" one_fragment 0]
  by (simp add: plain_def one_fragment_def NewFragmentManager_def)

text \<open>
  A restart forgets the fragments. A new manager on the directory of an old one reads nothing, and
  its first write to a topic truncates the topic's first fragment file: whatever that held, it
  then holds a header and the one new message.
\<close>

theorem restart_truncates_first_fragment:
  assumes "healthy fs" and "fs_wf fs" and "plain topic" and "length payload < 2 ^ 32"
  shows "ReadMessages topic offset limit (NewFragmentManager dir maxSize maxMessages ttl) fs = ([], fs) \<and>
    (\<exists>fm' fs' h. WriteMessage clk topic messageID payload (NewFragmentManager dir maxSize maxMessages ttl) fs = ((None, fm'), fs') \<and>
      fs_content fs' (GetFragmentPath fm' topic 0) = Some (h @ enc_msg (new_entry (clk 2) messageID payload)) \<and>
      length h = 20 + length topic)"
proof
  let ?fm = "NewFragmentManager dir maxSize maxMessages ttl"
  show "ReadMessages topic offset limit ?fm fs = ([], fs)"
    by (simp add: ReadMessages_def NewFragmentManager_def frags_def)
  have "fm_rep ?fm fs (\<lambda>_. [])" by (simp add: fm_rep_def NewFragmentManager_def frags_def)
  from WriteMessage_rep [OF assms(1,2) this assms(3) _ assms(4), of clk messageID] obtain fm' fs' where
    w: "WriteMessage clk topic messageID payload ?fm fs = ((None, fm'), fs')"
      "fm_rep fm' fs' ((\<lambda>_. [])(topic := [[new_entry (clk 2) messageID payload]]))"
    by (auto simp: add_message_def)
  then obtain fr where fr: "frags fm' topic = [fr]" "readable (fs_content fs') fr [new_entry (clk 2) messageID payload]"
    using fm_rep_readable [OF w(2), of topic] by (auto simp: list_all2_Cons2)
  then have "fr_Path fr = GetFragmentPath fm' topic 0" "fr_Topic fr = topic"
    using w(2) by (auto simp: fm_rep_def dest: spec [of _ topic])
  with fr(2) w(1) show "\<exists>fm' fs' h. WriteMessage clk topic messageID payload ?fm fs = ((None, fm'), fs') \<and>
      fs_content fs' (GetFragmentPath fm' topic 0) = Some (h @ enc_msg (new_entry (clk 2) messageID payload)) \<and>
      length h = 20 + length topic"
    by (auto simp: readable_def headerSize_def)
qed

theorem restart_truncates_first_fragment_witness:
  "ReadMessages ''a'' 0 10 (NewFragmentManager ''data'' 4096 10 0) (fs_with ''data/a/fragment_0.frag'' [1, 2, 3]) =
     ([], fs_with ''data/a/fragment_0.frag'' [1, 2, 3]) \<and>
   (\<exists>fm' fs' h. WriteMessage (\<lambda>_. 10) ''a'' 7 [65] (NewFragmentManager ''data'' 4096 10 0)
        (fs_with ''data/a/fragment_0.frag'' [1, 2, 3]) = ((None, fm'), fs') \<and>
      fs_content fs' (GetFragmentPath fm' ''a'' 0) = Some (h @ enc_msg (new_entry 10 7 [65])) \<and>
      length h = 20 + length ''a'')"
  by (rule restart_truncates_first_fragment [where clk = "\<lambda>_. 10", OF fs_with_ok(1,2)]) (simp_all add: plain_def)

end
