(* ===== verification/RaftNode.thy ===== *)
theory RaftNode
  imports Prelude
begin

text \<open>
  One Raft node of \<^verbatim>\<open>internal/raft/raft.go\<close>: its state, the steps of its main loop and its four
  message handlers. Terms and indices are naturals with the wrap-around of \<^verbatim>\<open>uint64\<close> written out.
  A goroutine that a step starts is a task of the node; it runs later and reads the state of that
  moment, as the code does, which takes no lock there. The commands that a step hands to \<^verbatim>\<open>applyFunc\<close>
  are part of its result. A step that reads a slice out of range panics.
\<close>

section \<open>State\<close>

datatype raft_state = Follower | Candidate | Leader

record 'c log_entry =
  le_Term :: nat
  le_Index :: nat
  le_Command :: "'c option"

record vote_request =
  vq_Term :: nat
  vq_CandidateID :: string
  vq_LastLogIndex :: nat
  vq_LastLogTerm :: nat

record vote_response =
  vr_Term :: nat
  vr_VoteGranted :: bool

record 'c append_request =
  aq_Term :: nat
  aq_LeaderID :: string
  aq_PrevLogIndex :: nat
  aq_PrevLogTerm :: nat
  aq_Entries :: "'c log_entry list"
  aq_LeaderCommit :: nat

record append_response =
  ar_Term :: nat
  ar_Success :: bool

text \<open>A started goroutine: \<^verbatim>\<open>requestVote(peerID)\<close> or \<^verbatim>\<open>sendAppendEntries(peerID, isHeartbeat)\<close>.\<close>

datatype raft_task = TaskVote string | TaskAppend string bool

text \<open>
  The maps \<^verbatim>\<open>nextIndex\<close> and \<^verbatim>\<open>matchIndex\<close> are only read by key, and a missing key reads as zero; the
  set \<^verbatim>\<open>votes\<close> is a list without repetition; \<^verbatim>\<open>rn_timer\<close> says whether \<^verbatim>\<open>electionTimer\<close> is set.
\<close>

record 'c raft_node =
  rn_currentTerm :: nat
  rn_votedFor :: string
  rn_log :: "'c log_entry list"
  rn_commitIndex :: nat
  rn_lastApplied :: nat
  rn_nextIndex :: "string \<Rightarrow> nat"
  rn_matchIndex :: "string \<Rightarrow> nat"
  rn_nodeID :: string
  rn_state :: raft_state
  rn_leaderID :: string
  rn_votes :: "string list"
  rn_peers :: "(string \<times> string) list"
  rn_timer :: bool
  rn_tasks :: "raft_task list"
  rn_stopped :: bool

section \<open>Operations\<close>

definition other_peers :: "'c raft_node \<Rightarrow> string list" where
  "other_peers n = filter (\<lambda>p. p \<noteq> rn_nodeID n) (map fst (rn_peers n))"

definition NewRaftNode :: "string \<Rightarrow> (string \<times> string) list \<Rightarrow> 'c raft_node" where
  "NewRaftNode nodeID peers =
     \<lparr>rn_currentTerm = 0, rn_votedFor = [],
      rn_log = [\<lparr>le_Term = 0, le_Index = 0, le_Command = None\<rparr>],
      rn_commitIndex = 0, rn_lastApplied = 0,
      rn_nextIndex = (\<lambda>p. if p \<noteq> nodeID \<and> p \<in> set (map fst peers) then 1 else 0),
      rn_matchIndex = (\<lambda>_. 0),
      rn_nodeID = nodeID, rn_state = Follower, rn_leaderID = [], rn_votes = [], rn_peers = peers,
      rn_timer = False, rn_tasks = [], rn_stopped = False\<rparr>"

definition resetElectionTimer :: "'c raft_node \<Rightarrow> 'c raft_node" where
  "resetElectionTimer n = n\<lparr>rn_timer := True\<rparr>"

definition getLastLogIndex :: "'c raft_node \<Rightarrow> nat" where
  "getLastLogIndex n = u64_of_int (int (length (rn_log n)) - 1)"

definition getLastLogTerm :: "'c raft_node \<Rightarrow> nat" where
  "getLastLogTerm n = (if rn_log n = [] then 0 else le_Term (last (rn_log n)))"

definition getLogTerm :: "nat \<Rightarrow> 'c raft_node \<Rightarrow> nat" where
  "getLogTerm index n =
     (if index = 0 \<or> length (rn_log n) < index then 0 else le_Term (rn_log n ! (index - 1)))"

definition startElection :: "'c raft_node \<Rightarrow> 'c raft_node" where
  "startElection n =
     (let n1 = resetElectionTimer
                 (n\<lparr>rn_currentTerm := u64_add (rn_currentTerm n) 1, rn_state := Candidate,
                    rn_votedFor := rn_nodeID n, rn_votes := [rn_nodeID n]\<rparr>)
      in n1\<lparr>rn_tasks := rn_tasks n1 @ map TaskVote (other_peers n1)\<rparr>)"

definition sendHeartbeat :: "'c raft_node \<Rightarrow> 'c raft_node" where
  "sendHeartbeat n = n\<lparr>rn_tasks := rn_tasks n @ map (\<lambda>p. TaskAppend p True) (other_peers n)\<rparr>"

text \<open>The loops of the two passive states are the same; \<open>fired\<close> says whether the timer has expired.\<close>

definition runFollower :: "bool \<Rightarrow> 'c raft_node \<Rightarrow> 'c raft_node" where
  "runFollower fired n =
     (let n1 = (if rn_timer n then n else resetElectionTimer n)
      in if fired then startElection n1 else n1)"

definition runCandidate :: "bool \<Rightarrow> 'c raft_node \<Rightarrow> 'c raft_node" where
  "runCandidate fired n =
     (let n1 = (if rn_timer n then n else resetElectionTimer n)
      in if fired then startElection n1 else n1)"

definition runLeader :: "'c raft_node \<Rightarrow> 'c raft_node" where
  "runLeader n = sendHeartbeat n"

text \<open>One round of \<^verbatim>\<open>run\<close>; after \<^verbatim>\<open>Stop\<close> it does nothing.\<close>

definition run_round :: "bool \<Rightarrow> 'c raft_node \<Rightarrow> 'c raft_node" where
  "run_round fired n =
     (if rn_stopped n then n
      else case rn_state n of
        Follower \<Rightarrow> runFollower fired n
      | Candidate \<Rightarrow> runCandidate fired n
      | Leader \<Rightarrow> runLeader n)"

definition requestVote :: "'c raft_node \<Rightarrow> vote_request" where
  "requestVote n =
     \<lparr>vq_Term = rn_currentTerm n, vq_CandidateID = rn_nodeID n,
      vq_LastLogIndex = getLastLogIndex n, vq_LastLogTerm = getLastLogTerm n\<rparr>"

definition sendAppendEntries :: "string \<Rightarrow> bool \<Rightarrow> 'c raft_node \<Rightarrow> 'c append_request call" where
  "sendAppendEntries peerID isHeartbeat n =
     (let nextIndex = rn_nextIndex n peerID;
          request = (\<lambda>entries. \<lparr>aq_Term = rn_currentTerm n, aq_LeaderID = rn_nodeID n,
            aq_PrevLogIndex = u64_sub nextIndex 1, aq_PrevLogTerm = getLogTerm (u64_sub nextIndex 1) n,
            aq_Entries = entries, aq_LeaderCommit = rn_commitIndex n\<rparr>)
      in if \<not> isHeartbeat \<and> nextIndex \<le> length (rn_log n)
         then (if nextIndex = 0 then Panics else Returns (request (drop (nextIndex - 1) (rn_log n))))
         else Returns (request []))"

text \<open>\<^verbatim>\<open>Propose\<close> returns whether the command was accepted.\<close>

definition Propose :: "'c \<Rightarrow> 'c raft_node \<Rightarrow> bool \<times> 'c raft_node" where
  "Propose command n =
     (if rn_state n \<noteq> Leader then (False, n)
      else let n1 = n\<lparr>rn_log := rn_log n @
                 [\<lparr>le_Term = rn_currentTerm n, le_Index = u64_add (getLastLogIndex n) 1, le_Command = Some command\<rparr>]\<rparr>
           in (True, n1\<lparr>rn_tasks := rn_tasks n1 @ map (\<lambda>p. TaskAppend p False) (other_peers n1)\<rparr>))"

definition isLogUpToDate :: "nat \<Rightarrow> nat \<Rightarrow> 'c raft_node \<Rightarrow> bool" where
  "isLogUpToDate lastLogIndex lastLogTerm n =
     (if lastLogTerm \<noteq> getLastLogTerm n then getLastLogTerm n < lastLogTerm
      else getLastLogIndex n \<le> lastLogIndex)"

text \<open>
  The response carries the term the node had before it looked at the request.
\<close>

definition HandleRequestVote :: "vote_request \<Rightarrow> 'c raft_node \<Rightarrow> vote_response \<times> 'c raft_node" where
  "HandleRequestVote q n =
     (let term = rn_currentTerm n
      in if vq_Term q < term then (\<lparr>vr_Term = term, vr_VoteGranted = False\<rparr>, n)
      else
        let n1 = (if term < vq_Term q
                  then n\<lparr>rn_currentTerm := vq_Term q, rn_state := Follower, rn_votedFor := [], rn_leaderID := []\<rparr>
                  else n)
        in if (rn_votedFor n1 = [] \<or> rn_votedFor n1 = vq_CandidateID q) \<and>
              isLogUpToDate (vq_LastLogIndex q) (vq_LastLogTerm q) n1
           then (\<lparr>vr_Term = term, vr_VoteGranted = True\<rparr>, resetElectionTimer (n1\<lparr>rn_votedFor := vq_CandidateID q\<rparr>))
           else (\<lparr>vr_Term = term, vr_VoteGranted = False\<rparr>, n1))"

definition becomeLeader :: "'c raft_node \<Rightarrow> 'c raft_node" where
  "becomeLeader n =
     sendHeartbeat
       (n\<lparr>rn_state := Leader, rn_leaderID := rn_nodeID n,
          rn_nextIndex := (\<lambda>p. if p \<in> set (other_peers n) then u64_add (getLastLogIndex n) 1 else rn_nextIndex n p),
          rn_matchIndex := (\<lambda>p. if p \<in> set (other_peers n) then 0 else rn_matchIndex n p)\<rparr>)"

definition HandleRequestVoteResponse :: "string \<Rightarrow> vote_response \<Rightarrow> 'c raft_node \<Rightarrow> 'c raft_node" where
  "HandleRequestVoteResponse peerID r n =
     (if rn_currentTerm n < vr_Term r
      then n\<lparr>rn_currentTerm := vr_Term r, rn_state := Follower, rn_votedFor := [], rn_leaderID := []\<rparr>
      else if rn_state n \<noteq> Candidate \<or> vr_Term r \<noteq> rn_currentTerm n then n
      else if vr_VoteGranted r then
        let n1 = n\<lparr>rn_votes := List.insert peerID (rn_votes n)\<rparr>
        in if length (rn_peers n1) div 2 < length (rn_votes n1) then becomeLeader n1 else n1
      else n)"

text \<open>\<^verbatim>\<open>applyLogs\<close>: the commands in the order in which \<^verbatim>\<open>applyFunc\<close> gets them.\<close>

function apply_loop :: "'c log_entry list \<Rightarrow> nat \<Rightarrow> nat \<Rightarrow> 'c option list \<Rightarrow> (nat \<times> 'c option list) call" where
  "apply_loop log commitIndex lastApplied applied =
     (if lastApplied < commitIndex then
        (if lastApplied < length log
         then apply_loop log commitIndex (Suc lastApplied) (applied @ [le_Command (log ! lastApplied)])
         else Panics)
      else Returns (lastApplied, applied))"
  by pat_completeness auto
termination
  by (relation "measure (\<lambda>(_, c, l, _). c - l)") auto

declare apply_loop.simps [simp del]

definition applyLogs :: "'c raft_node \<Rightarrow> ('c option list \<times> 'c raft_node) call" where
  "applyLogs n =
     bind_call (apply_loop (rn_log n) (rn_commitIndex n) (rn_lastApplied n) [])
       (\<lambda>(lastApplied, applied). Returns (applied, n\<lparr>rn_lastApplied := lastApplied\<rparr>))"

text \<open>
  One entry of an \<^verbatim>\<open>AppendEntries\<close> request at its index: a conflicting suffix is cut off, a new entry is
  appended.
\<close>

definition merge_entry :: "nat \<Rightarrow> 'c log_entry \<Rightarrow> 'c log_entry list \<Rightarrow> 'c log_entry list call" where
  "merge_entry index entry log =
     (if index = 0 then Panics
      else let log1 = (if index \<le> length log \<and> le_Term (log ! (index - 1)) \<noteq> le_Term entry
                       then take (index - 1) log else log)
           in Returns (if length log1 < index then log1 @ [entry] else log1))"

fun merge_entries :: "nat \<Rightarrow> nat \<Rightarrow> 'c log_entry list \<Rightarrow> 'c log_entry list \<Rightarrow> 'c log_entry list call" where
  "merge_entries prev i [] log = Returns log"
| "merge_entries prev i (entry # entries) log =
     bind_call (merge_entry (u64_add (u64_add prev i) 1) entry log) (merge_entries prev (Suc i) entries)"

definition HandleAppendEntries ::
  "'c append_request \<Rightarrow> 'c raft_node \<Rightarrow> (append_response \<times> 'c option list \<times> 'c raft_node) call" where
  "HandleAppendEntries q n =
     (let term = rn_currentTerm n
      in if aq_Term q < term then Returns (\<lparr>ar_Term = term, ar_Success = False\<rparr>, [], n)
      else
        let n1 = (if term < aq_Term q
                  then n\<lparr>rn_currentTerm := aq_Term q, rn_state := Follower, rn_votedFor := []\<rparr> else n);
            n2 = resetElectionTimer (n1\<lparr>rn_leaderID := aq_LeaderID q\<rparr>)
        in if 0 < aq_PrevLogIndex q \<and>
              (getLastLogIndex n2 < aq_PrevLogIndex q \<or> getLogTerm (aq_PrevLogIndex q) n2 \<noteq> aq_PrevLogTerm q)
           then Returns (\<lparr>ar_Term = term, ar_Success = False\<rparr>, [], n2)
           else bind_call (merge_entries (aq_PrevLogIndex q) 0 (aq_Entries q) (rn_log n2))
             (\<lambda>log. let n3 = n2\<lparr>rn_log := log\<rparr>
                in bind_call
                     (if rn_commitIndex n3 < aq_LeaderCommit q
                      then applyLogs (n3\<lparr>rn_commitIndex := min (aq_LeaderCommit q) (getLastLogIndex n3)\<rparr>)
                      else Returns ([], n3))
                     (\<lambda>(applied, n4). Returns (\<lparr>ar_Term = term, ar_Success = True\<rparr>, applied, n4))))"

text \<open>
  The loop of \<^verbatim>\<open>tryCommitLogs\<close> over the indices \<open>i\<close> up to the last one.
\<close>

definition replica_count :: "nat \<Rightarrow> 'c raft_node \<Rightarrow> nat" where
  "replica_count i n = 1 + length (filter (\<lambda>p. i \<le> rn_matchIndex n p) (other_peers n))"

function commit_loop :: "nat \<Rightarrow> nat \<Rightarrow> 'c raft_node \<Rightarrow> 'c raft_node call" where
  "commit_loop i lastIndex n =
     (if i \<le> lastIndex then
        (if i = 0 \<or> length (rn_log n) < i then Panics
         else commit_loop (Suc i) lastIndex
           (if le_Term (rn_log n ! (i - 1)) = rn_currentTerm n \<and> length (rn_peers n) div 2 < replica_count i n
            then n\<lparr>rn_commitIndex := i\<rparr> else n))
      else Returns n)"
  by pat_completeness auto
termination
  by (relation "measure (\<lambda>(i, l, _). Suc l - i)") auto

declare commit_loop.simps [simp del]

definition tryCommitLogs :: "'c raft_node \<Rightarrow> ('c option list \<times> 'c raft_node) call" where
  "tryCommitLogs n = bind_call (commit_loop (u64_add (rn_commitIndex n) 1) (getLastLogIndex n) n) applyLogs"

definition HandleAppendEntriesResponse ::
  "string \<Rightarrow> append_response \<Rightarrow> 'c raft_node \<Rightarrow> ('c option list \<times> 'c raft_node) call" where
  "HandleAppendEntriesResponse peerID r n =
     (if rn_currentTerm n < ar_Term r
      then Returns ([], n\<lparr>rn_currentTerm := ar_Term r, rn_state := Follower, rn_votedFor := [], rn_leaderID := []\<rparr>)
      else if rn_state n \<noteq> Leader \<or> ar_Term r \<noteq> rn_currentTerm n then Returns ([], n)
      else if ar_Success r then
        let next' = u64_add (rn_nextIndex n peerID) 1
        in tryCommitLogs (n\<lparr>rn_nextIndex := (rn_nextIndex n)(peerID := next'),
                            rn_matchIndex := (rn_matchIndex n)(peerID := u64_sub next' 1)\<rparr>)
      else if 1 < rn_nextIndex n peerID
      then Returns ([], n\<lparr>rn_nextIndex := (rn_nextIndex n)(peerID := rn_nextIndex n peerID - 1)\<rparr>)
      else Returns ([], n))"

definition GetState :: "'c raft_node \<Rightarrow> nat \<times> bool" where
  "GetState n = (rn_currentTerm n, rn_state n = Leader)"

definition GetLeaderID :: "'c raft_node \<Rightarrow> string" where
  "GetLeaderID n = rn_leaderID n"

text \<open>\<^verbatim>\<open>Stop\<close> ends the main loop; closing the stop channel twice panics.\<close>

definition Stop :: "'c raft_node \<Rightarrow> 'c raft_node call" where
  "Stop n = (if rn_stopped n then Panics else Returns (n\<lparr>rn_stopped := True\<rparr>))"

section \<open>Log merging\<close>

text \<open>How far a log agrees with the entries of a request, by their terms.\<close>

fun agree :: "'c log_entry list \<Rightarrow> 'c log_entry list \<Rightarrow> nat" where
  "agree (x # xs) (e # es) = (if le_Term x = le_Term e then Suc (agree xs es) else 0)"
| "agree _ _ = 0"

definition merged :: "nat \<Rightarrow> 'c log_entry list \<Rightarrow> 'c log_entry list \<Rightarrow> 'c log_entry list" where
  "merged p es log =
     (let k = agree (drop p log) es in if k = length es then log else take (p + k) log @ drop k es)"

lemma agree_le: "agree xs es \<le> length es" "agree xs es \<le> length xs"
  by (induction xs es rule: agree.induct) auto

lemma agree_nth: "i < agree xs es \<Longrightarrow> le_Term (xs ! i) = le_Term (es ! i)"
  by (induction xs es arbitrary: i rule: agree.induct) (auto simp: nth_Cons split: nat.splits if_splits)

lemma agree_Nil [simp]: "agree [] es = 0" by (cases es) auto

lemma agree_all: "length es \<le> length xs \<Longrightarrow> (\<And>i. i < length es \<Longrightarrow> le_Term (xs ! i) = le_Term (es ! i)) \<Longrightarrow> agree xs es = length es"
proof (induction xs es rule: agree.induct)
  case (1 x xs e es)
  from 1(3) [of 0] have "le_Term x = le_Term e" by simp
  moreover have "le_Term (xs ! i) = le_Term (es ! i)" if "i < length es" for i
    using 1(3) [of "Suc i"] that by simp
  ultimately show ?case using 1 by simp
qed auto

lemma merge_entries_merged:
  "p + i \<le> length log \<Longrightarrow> p + i + length es < 2 ^ 64 \<Longrightarrow> merge_entries p i es log = Returns (merged (p + i) es log)"
proof (induction es arbitrary: i log)
  case Nil
  then show ?case by (cases "drop (p + i) log") (simp_all add: merged_def)
next
  case (Cons e es)
  have idx: "u64_add (u64_add p i) 1 = Suc (p + i)"
    using Cons.prems(2) by (simp add: u64_add_exact)
  show ?case
  proof (cases "p + i < length log \<and> le_Term (log ! (p + i)) = le_Term e")
    case True
    then have "merge_entry (Suc (p + i)) e log = Returns log" by (simp add: merge_entry_def)
    moreover have "drop (p + i) log = log ! (p + i) # drop (p + Suc i) log"
      using True by (simp add: Cons_nth_drop_Suc)
    ultimately show ?thesis
      using True Cons.prems Cons.IH [of "Suc i" log] idx by (auto simp: merged_def Let_def)
  next
    case False
    then have m: "merge_entry (Suc (p + i)) e log = Returns (take (p + i) log @ [e])"
      using Cons.prems(1) by (auto simp: merge_entry_def Let_def)
    have "agree (drop (p + i) log) (e # es) = 0"
    proof (cases "p + i < length log")
      case True
      then have "drop (p + i) log = log ! (p + i) # drop (Suc (p + i)) log" by (simp add: Cons_nth_drop_Suc)
      with True False show ?thesis by simp
    qed simp
    moreover have "drop (Suc (p + i)) (take (p + i) log @ [e]) = []" using Cons.prems(1) by simp
    ultimately show ?thesis
      using m Cons.prems Cons.IH [of "Suc i" "take (p + i) log @ [e]"] idx by (auto simp: merged_def Let_def)
  qed
qed

lemma merged_props:
  assumes "p \<le> length log"
  shows "take p (merged p es log) = take p log" and "p + length es \<le> length (merged p es log)"
    and "i < length es \<Longrightarrow> le_Term (merged p es log ! (p + i)) = le_Term (es ! i)"
    and "merged p es (merged p es log) = merged p es log"
    and "log \<noteq> [] \<Longrightarrow> merged p es log \<noteq> []"
    and "length (merged p es log) \<le> length log + length es"
proof -
  define k where "k = agree (drop p log) es"
  have k: "k \<le> length es" "p + k \<le> length log"
    using agree_le [of "drop p log" es] assms by (auto simp: k_def)
  show "take p (merged p es log) = take p log"
    using k by (simp add: merged_def k_def [symmetric] Let_def)
  show len: "p + length es \<le> length (merged p es log)"
    using k by (auto simp: merged_def k_def [symmetric] Let_def)
  show "length (merged p es log) \<le> length log + length es"
    using k by (auto simp: merged_def k_def [symmetric] Let_def)
  show t: "le_Term (merged p es log ! (p + i)) = le_Term (es ! i)" if "i < length es" for i
  proof (cases "i < k")
    case True
    then have "le_Term (log ! (p + i)) = le_Term (es ! i)"
      using agree_nth [of i "drop p log" es] k assms by (simp add: k_def)
    then show ?thesis using True k by (simp add: merged_def k_def [symmetric] nth_append Let_def)
  next
    case False
    then show ?thesis using that k by (simp add: merged_def k_def [symmetric] nth_append Let_def)
  qed
  then have "agree (drop p (merged p es log)) es = length es"
    using len by (intro agree_all) auto
  then show "merged p es (merged p es log) = merged p es log"
    unfolding merged_def [of p es "merged p es log"] by simp
  show "merged p es log \<noteq> []" if "log \<noteq> []"
    using that k by (auto simp: merged_def k_def [symmetric] Let_def)
qed

section \<open>What the steps of a node change\<close>

text \<open>
  For elections only five fields matter. Every handler either leaves them alone, or steps down to a
  higher term, or is one of the three steps of an election.
\<close>

definition same_core :: "'c raft_node \<Rightarrow> 'c raft_node \<Rightarrow> bool" where
  "same_core n n' \<longleftrightarrow> rn_nodeID n' = rn_nodeID n \<and> rn_peers n' = rn_peers n \<and> rn_currentTerm n' = rn_currentTerm n \<and>
     rn_votedFor n' = rn_votedFor n \<and> rn_state n' = rn_state n \<and> rn_votes n' = rn_votes n"

definition step_down :: "'c raft_node \<Rightarrow> 'c raft_node \<Rightarrow> bool" where
  "step_down n n' \<longleftrightarrow> rn_nodeID n' = rn_nodeID n \<and> rn_peers n' = rn_peers n \<and> rn_votes n' = rn_votes n \<and>
     rn_currentTerm n < rn_currentTerm n' \<and> rn_votedFor n' = [] \<and> rn_state n' = Follower"

lemma applyLogs_upd: "applyLogs n = Returns (a, n') \<Longrightarrow> \<exists>k. n' = n\<lparr>rn_lastApplied := k\<rparr>"
  by (auto simp: applyLogs_def bind_call_Returns split: prod.splits)

lemma commit_loop_upd: "commit_loop i l n = Returns n' \<Longrightarrow> \<exists>k. n' = n\<lparr>rn_commitIndex := k\<rparr>"
proof (induction i l n rule: commit_loop.induct)
  case (1 i l n)
  show ?case
  proof (cases "i \<le> l")
    case True
    with 1(2) have nz: "\<not> (i = 0 \<or> length (rn_log n) < i)"
      by (subst (asm) commit_loop.simps) (auto split: if_splits)
    from 1(1) [OF True nz] 1(2) True nz show ?thesis
      by (subst (asm) commit_loop.simps) (auto split: if_splits)
  next
    case False
    with 1(2) have "n' = n\<lparr>rn_commitIndex := rn_commitIndex n\<rparr>"
      by (subst (asm) commit_loop.simps) simp
    then show ?thesis by blast
  qed
qed

text \<open>The node after the term check of \<^verbatim>\<open>HandleAppendEntries\<close>, and what the rest may still change.\<close>

definition follow :: "'c append_request \<Rightarrow> 'c raft_node \<Rightarrow> 'c raft_node" where
  "follow q n =
     resetElectionTimer
       ((if rn_currentTerm n < aq_Term q
         then n\<lparr>rn_currentTerm := aq_Term q, rn_state := Follower, rn_votedFor := []\<rparr> else n)\<lparr>rn_leaderID := aq_LeaderID q\<rparr>)"

lemma follow_core: "same_core n (follow q n) \<or> step_down n (follow q n)"
  by (simp add: follow_def same_core_def step_down_def resetElectionTimer_def)

lemma follow_simps [simp]:
  "rn_log (follow q n) = rn_log n" "rn_commitIndex (follow q n) = rn_commitIndex n"
  "rn_lastApplied (follow q n) = rn_lastApplied n" "rn_nextIndex (follow q n) = rn_nextIndex n"
  by (simp_all add: follow_def resetElectionTimer_def)

lemma getLast_follow [simp]: "getLastLogIndex (follow q n) = getLastLogIndex n" "getLogTerm i (follow q n) = getLogTerm i n"
  by (simp_all add: getLastLogIndex_def getLogTerm_def)

definition prev_mismatch :: "'c append_request \<Rightarrow> 'c raft_node \<Rightarrow> bool" where
  "prev_mismatch q n \<longleftrightarrow> 0 < aq_PrevLogIndex q \<and>
     (getLastLogIndex n < aq_PrevLogIndex q \<or> getLogTerm (aq_PrevLogIndex q) n \<noteq> aq_PrevLogTerm q)"

lemma HandleAppendEntries_eq:
  "HandleAppendEntries q n =
     (if aq_Term q < rn_currentTerm n then Returns (\<lparr>ar_Term = rn_currentTerm n, ar_Success = False\<rparr>, [], n)
      else if prev_mismatch q n then Returns (\<lparr>ar_Term = rn_currentTerm n, ar_Success = False\<rparr>, [], follow q n)
      else bind_call (merge_entries (aq_PrevLogIndex q) 0 (aq_Entries q) (rn_log n))
        (\<lambda>log. let n3 = (follow q n)\<lparr>rn_log := log\<rparr>
           in bind_call
                (if rn_commitIndex n < aq_LeaderCommit q
                 then applyLogs (n3\<lparr>rn_commitIndex := min (aq_LeaderCommit q) (getLastLogIndex n3)\<rparr>)
                 else Returns ([], n3))
                (\<lambda>(applied, n4). Returns (\<lparr>ar_Term = rn_currentTerm n, ar_Success = True\<rparr>, applied, n4))))"
  unfolding HandleAppendEntries_def Let_def follow_def [symmetric] by (simp add: prev_mismatch_def)

lemma HandleAppendEntries_core:
  assumes "HandleAppendEntries q n = Returns (r, a, n')"
  shows "same_core n n' \<or> step_down n n'"
proof -
  have "n' = n \<or> n' = follow q n \<or> (\<exists>log c l. n' = (follow q n)\<lparr>rn_log := log, rn_commitIndex := c, rn_lastApplied := l\<rparr>) \<or>
      (\<exists>log. n' = (follow q n)\<lparr>rn_log := log\<rparr>)"
    using assms by (auto simp: HandleAppendEntries_eq Let_def bind_call_Returns split: if_splits dest!: applyLogs_upd)
  then show ?thesis
    using follow_core [of n q] by (auto simp: same_core_def step_down_def)
qed

lemma HandleAppendEntriesResponse_core:
  assumes "HandleAppendEntriesResponse p r n = Returns (a, n')"
  shows "same_core n n' \<or> step_down n n'"
  using assms
  by (auto simp: HandleAppendEntriesResponse_def tryCommitLogs_def Let_def bind_call_Returns same_core_def step_down_def
      split: if_splits dest!: applyLogs_upd commit_loop_upd)

section \<open>No step panics\<close>

text \<open>
  The invariant that keeps every slice access in range. The log always holds an entry, the commit
  index never runs ahead of what was applied, and the next index of a peer is never zero.
\<close>

definition node_ok :: "'c raft_node \<Rightarrow> bool" where
  "node_ok n \<longleftrightarrow> rn_log n \<noteq> [] \<and> length (rn_log n) < 2 ^ 64 \<and>
     rn_commitIndex n \<le> rn_lastApplied n \<and> rn_commitIndex n + 1 < 2 ^ 64 \<and>
     (\<forall>p \<in> set (other_peers n). 1 \<le> rn_nextIndex n p)"

lemma other_peers_upd [simp]:
  "other_peers (n\<lparr>rn_log := a\<rparr>) = other_peers n" "other_peers (n\<lparr>rn_commitIndex := b\<rparr>) = other_peers n"
  "other_peers (n\<lparr>rn_lastApplied := b\<rparr>) = other_peers n" "other_peers (n\<lparr>rn_nextIndex := f\<rparr>) = other_peers n"
  "other_peers (n\<lparr>rn_matchIndex := f\<rparr>) = other_peers n" "other_peers (n\<lparr>rn_tasks := t\<rparr>) = other_peers n"
  "other_peers (n\<lparr>rn_currentTerm := b\<rparr>) = other_peers n" "other_peers (n\<lparr>rn_state := s\<rparr>) = other_peers n"
  "other_peers (n\<lparr>rn_votedFor := v\<rparr>) = other_peers n" "other_peers (n\<lparr>rn_leaderID := v\<rparr>) = other_peers n"
  "other_peers (n\<lparr>rn_votes := vs\<rparr>) = other_peers n" "other_peers (n\<lparr>rn_timer := x\<rparr>) = other_peers n"
  by (simp_all add: other_peers_def)

lemma getLastLogIndex_exact:
  assumes "rn_log n \<noteq> []" and "length (rn_log n) < 2 ^ 64"
  shows "getLastLogIndex n = length (rn_log n) - 1"
proof -
  obtain m where m: "length (rn_log n) = Suc m" using assms(1) by (cases "rn_log n") auto
  then have "u64_of_int (int m) = m" using assms(2) by (intro u64_of_int_exact) simp
  then show ?thesis by (simp add: getLastLogIndex_def m)
qed

lemma apply_loop_segment:
  "c \<le> length log \<Longrightarrow> apply_loop log c l applied = Returns (max l c, applied @ map le_Command (drop l (take c log)))"
proof (induction log c l applied rule: apply_loop.induct)
  case (1 log c l applied)
  show ?case
  proof (cases "l < c")
    case True
    then have "drop l (take c log) = log ! l # drop (Suc l) (take c log)"
      using 1(2) Cons_nth_drop_Suc [of l "take c log"] by (simp del: Cons_nth_drop_Suc)
    moreover have "apply_loop log c (Suc l) (applied @ [le_Command (log ! l)]) =
        Returns (max (Suc l) c, (applied @ [le_Command (log ! l)]) @ map le_Command (drop (Suc l) (take c log)))"
      using 1(1) [OF True _ 1(2)] 1(2) True by simp
    ultimately show ?thesis
      using True 1(2) by (subst apply_loop.simps) (simp add: max_def)
  next
    case False
    then show ?thesis by (subst apply_loop.simps) simp
  qed
qed

lemma applyLogs_segment:
  "rn_commitIndex n \<le> length (rn_log n) \<Longrightarrow> applyLogs n =
     Returns (map le_Command (drop (rn_lastApplied n) (take (rn_commitIndex n) (rn_log n))),
              n\<lparr>rn_lastApplied := max (rn_lastApplied n) (rn_commitIndex n)\<rparr>)"
  by (simp add: applyLogs_def apply_loop_segment)

lemma applyLogs_idle: "rn_commitIndex n \<le> rn_lastApplied n \<Longrightarrow> applyLogs n = Returns ([], n)"
  by (simp add: applyLogs_def) (subst apply_loop.simps, simp)

lemma commit_loop_range:
  "1 \<le> i \<Longrightarrow> l < length (rn_log n) \<Longrightarrow>
   \<exists>k. commit_loop i l n = Returns (n\<lparr>rn_commitIndex := k\<rparr>) \<and> (k = rn_commitIndex n \<or> k \<le> l)"
proof (induction i l n rule: commit_loop.induct)
  case (1 i l n)
  show ?case
  proof (cases "i \<le> l")
    case True
    then have nz: "\<not> (i = 0 \<or> length (rn_log n) < i)" using 1(2,3) by simp
    define n1 where "n1 = (if le_Term (rn_log n ! (i - 1)) = rn_currentTerm n \<and> length (rn_peers n) div 2 < replica_count i n
      then n\<lparr>rn_commitIndex := i\<rparr> else n)"
    have eq: "commit_loop i l n = commit_loop (Suc i) l n1"
      using True nz by (subst commit_loop.simps) (simp add: n1_def)
    have "l < length (rn_log n1)" using 1(3) by (simp add: n1_def)
    with 1(1) [OF True nz] obtain k where "commit_loop (Suc i) l n1 = Returns (n1\<lparr>rn_commitIndex := k\<rparr>)"
      "k = rn_commitIndex n1 \<or> k \<le> l" by (auto simp: n1_def)
    then show ?thesis
      using eq True by (intro exI [of _ k]) (auto simp: n1_def split: if_splits)
  next
    case False
    then show ?thesis by (subst commit_loop.simps) (auto intro: exI [of _ "rn_commitIndex n"])
  qed
qed

lemma tryCommitLogs_segment:
  assumes "rn_log n \<noteq> []" and "length (rn_log n) < 2 ^ 64" and "rn_commitIndex n \<le> rn_lastApplied n"
    and "rn_commitIndex n + 1 < 2 ^ 64"
  shows "\<exists>k b. tryCommitLogs n =
      Returns (map le_Command (drop (rn_lastApplied n) (take b (rn_log n))),
               n\<lparr>rn_commitIndex := k, rn_lastApplied := max (rn_lastApplied n) k\<rparr>) \<and>
    (k = rn_commitIndex n \<or> k < length (rn_log n)) \<and> b < length (rn_log n)"
proof -
  have l: "getLastLogIndex n = length (rn_log n) - 1" "length (rn_log n) - 1 < length (rn_log n)"
    using assms(1,2) by (simp_all add: getLastLogIndex_exact)
  obtain k where k: "commit_loop (rn_commitIndex n + 1) (length (rn_log n) - 1) n = Returns (n\<lparr>rn_commitIndex := k\<rparr>)"
    "k = rn_commitIndex n \<or> k \<le> length (rn_log n) - 1"
    using commit_loop_range [of "rn_commitIndex n + 1" "length (rn_log n) - 1" n] l by auto
  then have t: "tryCommitLogs n = applyLogs (n\<lparr>rn_commitIndex := k\<rparr>)"
    using assms(4) l by (simp add: tryCommitLogs_def u64_add_exact)
  show ?thesis
  proof (cases "k \<le> length (rn_log n) - 1")
    case True
    then have "k < length (rn_log n)" using l(2) by linarith
    with t show ?thesis by (intro exI [of _ k]) (auto simp: applyLogs_segment)
  next
    case False
    then have "k = rn_commitIndex n" using k by simp
    then show ?thesis
      using t assms(1,3) by (intro exI [of _ k] exI [of _ 0]) (auto simp: applyLogs_idle max_def)
  qed
qed

lemma HandleAppendEntries_returns:
  assumes ok: "node_ok n" and len: "length (rn_log n) + length (aq_Entries q) < 2 ^ 64"
  shows "\<exists>r a n'. HandleAppendEntries q n = Returns (r, a, n') \<and> node_ok n' \<and>
    (ar_Success r \<longrightarrow> aq_PrevLogIndex q \<le> length (rn_log n) \<and> rn_log n' = merged (aq_PrevLogIndex q) (aq_Entries q) (rn_log n)) \<and>
    (\<not> ar_Success r \<longrightarrow> rn_log n' = rn_log n \<and> a = [])"
proof -
  have others: "other_peers (follow q n) = other_peers n"
    by (simp add: other_peers_def follow_def resetElectionTimer_def)
  have fok: "node_ok (follow q n)" using ok by (simp add: node_ok_def others)
  show ?thesis
  proof (cases "aq_Term q < rn_currentTerm n \<or> prev_mismatch q n")
    case True
    then show ?thesis using ok fok by (auto simp: HandleAppendEntries_eq)
  next
    case False
    let ?p = "aq_PrevLogIndex q" and ?es = "aq_Entries q"
    have p: "?p \<le> length (rn_log n)"
      using False ok by (auto simp: prev_mismatch_def node_ok_def getLastLogIndex_exact)
    define log where "log = merged ?p ?es (rn_log n)"
    define n3 where "n3 = (follow q n)\<lparr>rn_log := log\<rparr>"
    have m: "merge_entries ?p 0 ?es (rn_log n) = Returns log"
      using p len by (simp add: merge_entries_merged log_def)
    have log: "log \<noteq> []" "length log < 2 ^ 64"
      using merged_props(5,6) [OF p, of ?es] ok len by (auto simp: log_def node_ok_def)
    have last: "getLastLogIndex n3 = length log - 1" "length log - 1 < length log"
      using log by (simp_all add: getLastLogIndex_exact n3_def)
    have n3ok: "node_ok n3"
      using fok log by (simp add: n3_def node_ok_def others)
    define c where "c = min (aq_LeaderCommit q) (length log - 1)"
    have c: "c \<le> length log" "c + 1 < 2 ^ 64" using last log by (auto simp: c_def)
    have "applyLogs (n3\<lparr>rn_commitIndex := c\<rparr>) =
        Returns (map le_Command (drop (rn_lastApplied n) (take c log)),
          n3\<lparr>rn_commitIndex := c, rn_lastApplied := max (rn_lastApplied n) c\<rparr>)"
      using c by (simp add: applyLogs_segment n3_def)
    moreover have "node_ok (n3\<lparr>rn_commitIndex := c, rn_lastApplied := max (rn_lastApplied n) c\<rparr>)"
      using n3ok c by (simp add: node_ok_def)
    ultimately show ?thesis
      using False m n3ok p last(1)
      by (auto simp: HandleAppendEntries_eq Let_def n3_def [symmetric] c_def log_def) (simp_all add: n3_def log_def)
  qed
qed

lemma HandleAppendEntriesResponse_returns:
  assumes ok: "node_ok n" and nxt: "rn_nextIndex n p + 1 < 2 ^ 64"
  shows "\<exists>a n'. HandleAppendEntriesResponse p r n = Returns (a, n') \<and> node_ok n' \<and> rn_log n' = rn_log n \<and>
    (\<exists>b < length (rn_log n). a = map le_Command (drop (rn_lastApplied n) (take b (rn_log n)))) \<and>
    rn_lastApplied n' \<le> max (rn_lastApplied n) (length (rn_log n) - 1) \<and>
    (\<forall>x. rn_nextIndex n' x \<le> rn_nextIndex n x + 1)"
proof -
  have none: "\<exists>b < length (rn_log n). [] = map le_Command (drop (rn_lastApplied n) (take b (rn_log n)))"
    using ok by (intro exI [of _ 0]) (simp add: node_ok_def)
  define n1 where "n1 = n\<lparr>rn_nextIndex := (rn_nextIndex n)(p := rn_nextIndex n p + 1),
    rn_matchIndex := (rn_matchIndex n)(p := rn_nextIndex n p)\<rparr>"
  have n1: "node_ok n1" "rn_log n1 = rn_log n" "rn_lastApplied n1 = rn_lastApplied n"
    using ok by (auto simp: n1_def node_ok_def)
  obtain k b where t: "tryCommitLogs n1 =
      Returns (map le_Command (drop (rn_lastApplied n1) (take b (rn_log n1))),
               n1\<lparr>rn_commitIndex := k, rn_lastApplied := max (rn_lastApplied n1) k\<rparr>)"
    "k = rn_commitIndex n1 \<or> k < length (rn_log n1)" "b < length (rn_log n1)"
    using tryCommitLogs_segment [of n1] n1(1) by (auto simp: node_ok_def)
  have nok: "node_ok (n1\<lparr>rn_commitIndex := k, rn_lastApplied := max (rn_lastApplied n1) k\<rparr>)"
    using n1 t(2) by (auto simp: node_ok_def)
  have la: "max (rn_lastApplied n1) k \<le> max (rn_lastApplied n) (length (rn_log n) - 1)"
    using t(2) n1 by (auto simp: node_ok_def)
  show ?thesis
  proof (cases "rn_currentTerm n < ar_Term r \<or> rn_state n \<noteq> Leader \<or> ar_Term r \<noteq> rn_currentTerm n \<or> \<not> ar_Success r")
    case True
    then show ?thesis
      using ok none by (auto simp: HandleAppendEntriesResponse_def node_ok_def)
  next
    case False
    then have "HandleAppendEntriesResponse p r n = tryCommitLogs n1"
      using nxt by (simp add: HandleAppendEntriesResponse_def u64_add_exact u64_sub_exact n1_def)
    with t(1,3) nok la n1 show ?thesis by (auto simp: n1_def)
  qed
qed

lemma node_ok_New: "node_ok (NewRaftNode i peers)"
  by (simp add: node_ok_def NewRaftNode_def other_peers_def)

lemma node_ok_becomeLeader: "node_ok n \<Longrightarrow> node_ok (becomeLeader n)"
  by (auto simp: node_ok_def becomeLeader_def sendHeartbeat_def getLastLogIndex_exact u64_add_exact neq_Nil_conv)

lemma node_ok_run_round: "node_ok n \<Longrightarrow> node_ok (run_round fired n)"
  by (auto simp: node_ok_def run_round_def runFollower_def runCandidate_def runLeader_def startElection_def
      sendHeartbeat_def resetElectionTimer_def Let_def split: raft_state.splits)

section \<open>Properties\<close>


definition node_a :: "string raft_node" where
  "node_a = NewRaftNode ''a'' [(''a'', ''h1''), (''b'', ''h2''), (''c'', ''h3'')]"

lemma node_a_ok: "node_ok node_a"
  unfolding node_a_def by (rule node_ok_New)


text \<open>
  An accepted \<^verbatim>\<open>AppendEntries\<close> makes the log match the request: from position \<^verbatim>\<open>PrevLogIndex\<close> on the
  log has the terms of the request's entries, the part before is unchanged, and a request that is
  delivered twice changes nothing the second time. A refused request changes no entry.
\<close>

theorem HandleAppendEntries_matches:
  assumes "node_ok n" and "length (rn_log n) + length (aq_Entries q) < 2 ^ 64"
    and "HandleAppendEntries q n = Returns (r, a, n')"
  shows "(\<not> ar_Success r \<longrightarrow> rn_log n' = rn_log n \<and> a = []) \<and>
    (ar_Success r \<longrightarrow>
      take (aq_PrevLogIndex q) (rn_log n') = take (aq_PrevLogIndex q) (rn_log n) \<and>
      aq_PrevLogIndex q + length (aq_Entries q) \<le> length (rn_log n') \<and>
      (\<forall>i < length (aq_Entries q). le_Term (rn_log n' ! (aq_PrevLogIndex q + i)) = le_Term (aq_Entries q ! i)) \<and>
      merge_entries (aq_PrevLogIndex q) 0 (aq_Entries q) (rn_log n') = Returns (rn_log n'))"
proof -
  let ?p = "aq_PrevLogIndex q" and ?es = "aq_Entries q"
  have r: "ar_Success r \<longrightarrow> ?p \<le> length (rn_log n) \<and> rn_log n' = merged ?p ?es (rn_log n)"
    "\<not> ar_Success r \<longrightarrow> rn_log n' = rn_log n \<and> a = []"
    using HandleAppendEntries_returns [OF assms(1,2)] assms(3) by auto
  have "merge_entries ?p 0 ?es (rn_log n') = Returns (rn_log n')" if "ar_Success r"
  proof -
    have p: "?p \<le> length (rn_log n)" "rn_log n' = merged ?p ?es (rn_log n)" using r that by auto
    then have "?p \<le> length (rn_log n')" using merged_props(2) [OF p(1), of ?es] by simp
    moreover have "?p + length ?es < 2 ^ 64" using assms(2) p(1) by simp
    ultimately show ?thesis
      using merge_entries_merged [of ?p 0 "rn_log n'" ?es] merged_props(4) [OF p(1), of ?es] p(2) by simp
  qed
  with r merged_props(1-3) [of ?p "rn_log n"] show ?thesis by auto
qed

theorem HandleAppendEntries_matches_witness:
  "\<exists>r a n'. HandleAppendEntries \<lparr>aq_Term = 3, aq_LeaderID = ''b'', aq_PrevLogIndex = 0, aq_PrevLogTerm = 0,
      aq_Entries = [\<lparr>le_Term = 0, le_Index = 0, le_Command = None\<rparr>, \<lparr>le_Term = 3, le_Index = 1, le_Command = Some ''x''\<rparr>],
      aq_LeaderCommit = 0\<rparr> node_a = Returns (r, a, n') \<and> ar_Success r \<and> le_Term (rn_log n' ! 1) = 3"
proof -
  let ?q = "\<lparr>aq_Term = 3, aq_LeaderID = ''b'', aq_PrevLogIndex = 0, aq_PrevLogTerm = 0,
      aq_Entries = [\<lparr>le_Term = 0, le_Index = 0, le_Command = None\<rparr>, \<lparr>le_Term = 3, le_Index = 1, le_Command = Some ''x''\<rparr>],
      aq_LeaderCommit = 0\<rparr>"
  have len: "length (rn_log node_a) + length (aq_Entries ?q) < 2 ^ 64" by (simp add: node_a_def NewRaftNode_def)
  obtain r a n' where h: "HandleAppendEntries ?q node_a = Returns (r, a, n')" "ar_Success r"
    by (simp add: HandleAppendEntries_def node_a_def NewRaftNode_def merge_entry_def u64_add_def Let_def)
  from HandleAppendEntries_matches [OF node_a_ok len h(1)] h(2) have "le_Term (rn_log n' ! 1) = 3" by auto
  with h show ?thesis by blast
qed

fun handle_responses :: "(string \<times> append_response) list \<Rightarrow> 'c raft_node \<Rightarrow> ('c option list \<times> 'c raft_node) call" where
  "handle_responses [] n = Returns ([], n)"
| "handle_responses ((p, r) # rs) n =
     bind_call (HandleAppendEntriesResponse p r n)
       (\<lambda>(a, n1). bind_call (handle_responses rs n1) (\<lambda>(b, n2). Returns (a @ b, n2)))"

lemma handle_responses_segment:
  "node_ok n \<Longrightarrow> rn_log n = log @ [e] \<Longrightarrow> rn_lastApplied n \<le> length log \<Longrightarrow>
   \<forall>p. rn_nextIndex n p + length rs < 2 ^ 64 \<Longrightarrow>
   \<exists>a n'. handle_responses rs n = Returns (a, n') \<and> set a \<subseteq> set (map le_Command log) \<and> rn_lastApplied n' \<le> length log"
proof (induction rs arbitrary: n)
  case (Cons x rs)
  obtain p r where x: "x = (p, r)" by force
  have "rn_nextIndex n p + 1 < 2 ^ 64" using spec [OF Cons.prems(4), of p] by simp
  from HandleAppendEntriesResponse_returns [OF Cons.prems(1) this, of r] Cons.prems(2,3) obtain a1 n1 b where
    h: "HandleAppendEntriesResponse p r n = Returns (a1, n1)" "node_ok n1" "rn_log n1 = log @ [e]" "b \<le> length log"
      "a1 = map le_Command (drop (rn_lastApplied n) (take b (log @ [e])))" "rn_lastApplied n1 \<le> length log"
      "\<forall>y. rn_nextIndex n1 y \<le> rn_nextIndex n y + 1"
    by (auto simp: less_Suc_eq_le)
  have "set a1 \<subseteq> set (map le_Command log)"
    using h(4) by (auto simp: h(5) dest!: in_set_dropD in_set_takeD)
  moreover have "rn_nextIndex n1 y + length rs < 2 ^ 64" for y
    using spec [OF Cons.prems(4), of y] spec [OF h(7), of y] by simp
  ultimately show ?case
    using Cons.IH [OF h(2,3,6)] h(1) by (auto simp: x)
qed simp

text \<open>
  The last entry of a leader's log is never applied. The code reads index \<open>i\<close> at position
  \<open>i - 1\<close> of a log that starts with a dummy entry, and commits at most the index \<open>length - 1\<close>. So
  after \<^verbatim>\<open>Propose\<close>, whatever responses arrive, every command handed to \<^verbatim>\<open>applyFunc\<close> comes from the
  log as it was before; the proposed command waits until another one is proposed after it.
\<close>

theorem last_entry_not_applied:
  assumes "node_ok n" and "rn_state n = Leader" and "rn_lastApplied n \<le> length (rn_log n)"
    and "length (rn_log n) + 1 < 2 ^ 64" and "\<forall>p. rn_nextIndex n p + length rs < 2 ^ 64"
  shows "\<exists>n1 applied n2. Propose c n = (True, n1) \<and> handle_responses rs n1 = Returns (applied, n2) \<and>
    set applied \<subseteq> set (map le_Command (rn_log n)) \<and> rn_lastApplied n2 \<le> length (rn_log n)"
proof -
  obtain n1 e where p: "Propose c n = (True, n1)" "rn_log n1 = rn_log n @ [e]" "rn_lastApplied n1 = rn_lastApplied n"
    "rn_nextIndex n1 = rn_nextIndex n" "node_ok n1"
    using assms(1,2,4) by (auto simp: Propose_def node_ok_def Let_def)
  with handle_responses_segment [OF p(5,2), of rs] assms(3,5) show ?thesis by auto
qed

definition leader_a :: "string raft_node" where
  "leader_a = becomeLeader (node_a\<lparr>rn_currentTerm := 1\<rparr>)"

lemma leader_a_ok: "node_ok leader_a" "rn_state leader_a = Leader" "rn_log leader_a = rn_log node_a"
  "rn_lastApplied leader_a = 0" "rn_nextIndex leader_a p \<le> 1" "length (rn_log node_a) = 1"
proof -
  have "node_ok (node_a\<lparr>rn_currentTerm := 1\<rparr>)" using node_a_ok by (simp add: node_ok_def)
  then show "node_ok leader_a" unfolding leader_a_def by (rule node_ok_becomeLeader)
qed (auto simp: leader_a_def becomeLeader_def sendHeartbeat_def node_a_def NewRaftNode_def getLastLogIndex_def u64_of_int_def u64_add_def)

theorem last_entry_not_applied_witness:
  "\<exists>n1 applied n2. Propose ''x'' leader_a = (True, n1) \<and>
    handle_responses [(''b'', \<lparr>ar_Term = 1, ar_Success = True\<rparr>), (''c'', \<lparr>ar_Term = 1, ar_Success = True\<rparr>)] n1 = Returns (applied, n2) \<and>
    set applied \<subseteq> set (map le_Command (rn_log leader_a)) \<and> rn_lastApplied n2 \<le> length (rn_log leader_a)"
proof (rule last_entry_not_applied)
  have "rn_nextIndex leader_a p + 2 < 2 ^ 64" for p
    using leader_a_ok(5) [of p] by simp
  then show "\<forall>p. rn_nextIndex leader_a p + length [(''b'', \<lparr>ar_Term = 1, ar_Success = True\<rparr>), (''c'', \<lparr>ar_Term = 1, ar_Success = True\<rparr>)] < 2 ^ 64"
    by simp
qed (simp_all add: leader_a_ok)

end
