(* ===== verification/RaftCluster.thy ===== *)
theory RaftCluster
  imports RaftNode
begin

text \<open>
  Several Raft nodes and a network. The nodes are those of \<^verbatim>\<open>internal/raft/raft.go\<close>; the network
  may lose, delay, reorder and repeat packets, and hands every packet to the handler of its kind
  with the identity of its sender. (The transport of \<^verbatim>\<open>internal/raft/manager.go\<close> does less: see the
  theory of the manager.) The events run a cluster; the step relation is their graph.
\<close>

section \<open>State and events\<close>

datatype 'c raft_msg =
  VoteReq vote_request
| VoteResp vote_response
| AppendReq "'c append_request"
| AppendResp append_response

type_synonym 'c packet = "string \<times> string \<times> 'c raft_msg"

record 'c cluster =
  cl_nodes :: "string \<Rightarrow> 'c raft_node"
  cl_net :: "'c packet list"
  cl_applied :: "(string \<times> 'c option) list"

datatype 'c event = Round string bool | RunTask string nat | Deliver nat | ProposeAt string 'c

definition init_cluster :: "(string \<Rightarrow> (string \<times> string) list) \<Rightarrow> 'c cluster" where
  "init_cluster peers = \<lparr>cl_nodes = (\<lambda>i. NewRaftNode i (peers i)), cl_net = [], cl_applied = []\<rparr>"

definition set_node :: "string \<Rightarrow> 'c raft_node \<Rightarrow> 'c cluster \<Rightarrow> 'c cluster" where
  "set_node i n s = s\<lparr>cl_nodes := (cl_nodes s)(i := n)\<rparr>"

definition send :: "'c packet \<Rightarrow> 'c cluster \<Rightarrow> 'c cluster" where
  "send p s = s\<lparr>cl_net := cl_net s @ [p]\<rparr>"

definition record_applied :: "string \<Rightarrow> 'c option list \<Rightarrow> 'c cluster \<Rightarrow> 'c cluster" where
  "record_applied i cs s = s\<lparr>cl_applied := cl_applied s @ map (Pair i) cs\<rparr>"

text \<open>
  The tasks of a node run in any order. A task is taken from the list and reads the node's state at
  this moment.
\<close>

definition run_task :: "string \<Rightarrow> nat \<Rightarrow> 'c cluster \<Rightarrow> 'c cluster option" where
  "run_task i k s =
     (let n = cl_nodes s i;
          s1 = set_node i (n\<lparr>rn_tasks := take k (rn_tasks n) @ drop (Suc k) (rn_tasks n)\<rparr>) s
      in if k < length (rn_tasks n) then
           (case rn_tasks n ! k of
              TaskVote p \<Rightarrow> Some (send (i, p, VoteReq (requestVote n)) s1)
            | TaskAppend p hb \<Rightarrow>
                (case sendAppendEntries p hb n of
                   Returns q \<Rightarrow> Some (send (i, p, AppendReq q) s1)
                 | _ \<Rightarrow> None))
         else None)"

text \<open>A packet may be delivered at any time and any number of times; a request is answered.\<close>

definition deliver :: "'c packet \<Rightarrow> 'c cluster \<Rightarrow> 'c cluster option" where
  "deliver pk s =
     (case pk of (src, dst, m) \<Rightarrow>
        let n = cl_nodes s dst
        in case m of
             VoteReq q \<Rightarrow>
               (case HandleRequestVote q n of (r, n') \<Rightarrow> Some (send (dst, src, VoteResp r) (set_node dst n' s)))
           | VoteResp r \<Rightarrow> Some (set_node dst (HandleRequestVoteResponse src r n) s)
           | AppendReq q \<Rightarrow>
               (case HandleAppendEntries q n of
                  Returns (r, a, n') \<Rightarrow> Some (record_applied dst a (send (dst, src, AppendResp r) (set_node dst n' s)))
                | _ \<Rightarrow> None)
           | AppendResp r \<Rightarrow>
               (case HandleAppendEntriesResponse src r n of
                  Returns (a, n') \<Rightarrow> Some (record_applied dst a (set_node dst n' s))
                | _ \<Rightarrow> None))"

text \<open>
  \<open>M\<close> are the members. An election is only started while the term can be counted up: the wrap-around
  after \<open>2 ^ 64\<close> elections is left out.
\<close>

fun exec_event :: "string list \<Rightarrow> 'c event \<Rightarrow> 'c cluster \<Rightarrow> 'c cluster option" where
  "exec_event M (Round i fired) s =
     (if i \<in> set M \<and> rn_currentTerm (cl_nodes s i) + 1 < 2 ^ 64
      then Some (set_node i (run_round fired (cl_nodes s i)) s) else None)"
| "exec_event M (RunTask i k) s = (if i \<in> set M then run_task i k s else None)"
| "exec_event M (Deliver k) s =
     (if k < length (cl_net s) \<and> fst (snd (cl_net s ! k)) \<in> set M then deliver (cl_net s ! k) s else None)"
| "exec_event M (ProposeAt i c) s =
     (if i \<in> set M then Some (set_node i (snd (Propose c (cl_nodes s i))) s) else None)"

fun exec_events :: "string list \<Rightarrow> 'c event list \<Rightarrow> 'c cluster \<Rightarrow> 'c cluster option" where
  "exec_events M [] s = Some s"
| "exec_events M (e # es) s = (case exec_event M e s of None \<Rightarrow> None | Some s' \<Rightarrow> exec_events M es s')"

inductive reachable :: "string list \<Rightarrow> (string \<Rightarrow> (string \<times> string) list) \<Rightarrow> 'c cluster \<Rightarrow> bool"
  for M peers where
  init: "reachable M peers (init_cluster peers)"
| step: "reachable M peers s \<Longrightarrow> exec_event M e s = Some s' \<Longrightarrow> reachable M peers s'"

lemma reachable_exec: "reachable M peers s \<Longrightarrow> exec_events M es s = Some s' \<Longrightarrow> reachable M peers s'"
  by (induction es arbitrary: s) (auto split: option.splits intro: reachable.step)

section \<open>Quorums\<close>

text \<open>
  What elections rely on: any two quorums have a member in common. A vote counts for one candidate
  only, so two candidates with quorums of votes are the same.
\<close>

locale quorums =
  fixes quorum :: "'q set \<Rightarrow> bool"
  assumes quorums_meet: "quorum P \<Longrightarrow> quorum Q \<Longrightarrow> P \<inter> Q \<noteq> {}"
begin

lemma one_winner:
  assumes "quorum P" and "quorum Q" and "\<And>v. v \<in> P \<Longrightarrow> vote v = a" and "\<And>v. v \<in> Q \<Longrightarrow> vote v = b"
  shows "a = b"
proof -
  from quorums_meet [OF assms(1,2)] obtain v where "v \<in> P" "v \<in> Q" by blast
  then show ?thesis using assms(3) [of v] assms(4) [of v] by simp
qed

end

text \<open>The quorums of the code: more voters than half the number of entries in the peer map.\<close>

definition vote_quorum :: "string set \<Rightarrow> nat \<Rightarrow> string set \<Rightarrow> bool" where
  "vote_quorum M k Q \<longleftrightarrow> finite M \<and> card M \<le> 2 * k + 1 \<and> Q \<subseteq> M \<and> k < card Q"

interpretation vote: quorums "vote_quorum M k" for M k
proof
  fix P Q
  assume P: "vote_quorum M k P" and Q: "vote_quorum M k Q"
  show "P \<inter> Q \<noteq> {}"
  proof
    assume "P \<inter> Q = {}"
    moreover have "finite P" "finite Q" using P Q by (auto simp: vote_quorum_def intro: finite_subset)
    ultimately have "card P + card Q = card (P \<union> Q)" by (simp add: card_Un_disjoint)
    also have "\<dots> \<le> card M" using P Q by (intro card_mono) (auto simp: vote_quorum_def)
    finally show False using P Q by (simp add: vote_quorum_def)
  qed
qed

section \<open>The election invariant\<close>

text \<open>
  \<open>H\<close> is the history of votes: \<open>(v, t, c)\<close> when the node \<open>v\<close> voted for \<open>c\<close> in the term \<open>t\<close>. A node's part
  of the invariant ties its state to the history: nobody votes twice in a term, the votes a
  candidate counts were given, and a leader had a quorum of them.
\<close>

type_synonym votes = "(string \<times> nat \<times> string) set"

definition node_inv :: "string set \<Rightarrow> nat \<Rightarrow> votes \<Rightarrow> string \<Rightarrow> 'c raft_node \<Rightarrow> bool" where
  "node_inv M k H i n \<longleftrightarrow>
     rn_nodeID n = i \<and> k \<le> length (rn_peers n) div 2 \<and>
     (rn_votedFor n \<noteq> [] \<longrightarrow> (i, rn_currentTerm n, rn_votedFor n) \<in> H) \<and>
     (\<forall>t c. (i, t, c) \<in> H \<longrightarrow> t \<le> rn_currentTerm n \<and> (t = rn_currentTerm n \<longrightarrow> c = rn_votedFor n)) \<and>
     (rn_state n = Candidate \<longrightarrow> distinct (rn_votes n) \<and> (\<forall>v \<in> set (rn_votes n). (v, rn_currentTerm n, i) \<in> H)) \<and>
     (rn_state n = Leader \<longrightarrow> (\<exists>Q. vote_quorum M k Q \<and> (\<forall>v \<in> Q. (v, rn_currentTerm n, i) \<in> H)))"

definition votes_ok :: "string set \<Rightarrow> votes \<Rightarrow> bool" where
  "votes_ok M H \<longleftrightarrow> (\<forall>v t c. (v, t, c) \<in> H \<longrightarrow> v \<in> M \<and> c \<noteq> []) \<and>
     (\<forall>v t c c'. (v, t, c) \<in> H \<longrightarrow> (v, t, c') \<in> H \<longrightarrow> c = c')"

definition packet_inv :: "string set \<Rightarrow> votes \<Rightarrow> (string \<Rightarrow> nat) \<Rightarrow> 'c packet \<Rightarrow> bool" where
  "packet_inv M H term pk \<longleftrightarrow>
     (case pk of (src, dst, m) \<Rightarrow>
        case m of
          VoteReq q \<Rightarrow> src \<in> M \<and> vq_CandidateID q = src \<and> vq_Term q \<le> term src
        | VoteResp r \<Rightarrow> vr_VoteGranted r \<longrightarrow> (src, vr_Term r, dst) \<in> H \<or> vr_Term r < term dst
        | _ \<Rightarrow> True)"

definition election_inv :: "string set \<Rightarrow> nat \<Rightarrow> 'c cluster \<Rightarrow> votes \<Rightarrow> bool" where
  "election_inv M k s H \<longleftrightarrow> votes_ok M H \<and> (\<forall>i \<in> M. node_inv M k H i (cl_nodes s i)) \<and>
     (\<forall>pk \<in> set (cl_net s). packet_inv M H (\<lambda>i. rn_currentTerm (cl_nodes s i)) pk)"

text \<open>The invariant allows the history to grow by votes of the node that takes the step.\<close>

lemma node_inv_mono:
  assumes "node_inv M k H i n" and "H \<subseteq> H'" and "\<And>t c. (i, t, c) \<in> H' \<Longrightarrow> (i, t, c) \<in> H"
  shows "node_inv M k H' i n"
  using assms unfolding node_inv_def by blast

lemma packet_inv_mono:
  assumes "packet_inv M H term pk" and "H \<subseteq> H'" and "\<And>i. term i \<le> term' i"
  shows "packet_inv M H' term' pk"
proof -
  obtain src dst m where "pk = (src, dst, m)" by (metis prod.exhaust)
  then show ?thesis
    using assms(1,2) assms(3) [of src] assms(3) [of dst]
    by (cases m) (auto simp: packet_inv_def)
qed

lemma election_inv_step:
  assumes inv: "election_inv M k s H" and H: "H \<subseteq> H'" "votes_ok M H'" "\<And>j t c. j \<noteq> i \<Longrightarrow> (j, t, c) \<in> H' \<Longrightarrow> (j, t, c) \<in> H"
    and n: "node_inv M k H' i n" "rn_currentTerm (cl_nodes s i) \<le> rn_currentTerm n"
    and s': "cl_nodes s' = (cl_nodes s)(i := n)" "set (cl_net s') \<subseteq> set (cl_net s) \<union> pks"
    and pks: "\<And>pk. pk \<in> pks \<Longrightarrow> packet_inv M H' (\<lambda>j. rn_currentTerm (cl_nodes s' j)) pk"
  shows "election_inv M k s' H'"
  unfolding election_inv_def
proof (intro conjI ballI)
  show "votes_ok M H'" by (rule H(2))
  show "node_inv M k H' j (cl_nodes s' j)" if "j \<in> M" for j
    using inv that n(1) H(1,3) by (auto simp: s'(1) election_inv_def intro: node_inv_mono)
  show "packet_inv M H' (\<lambda>i. rn_currentTerm (cl_nodes s' i)) pk" if "pk \<in> set (cl_net s')" for pk
  proof (cases "pk \<in> pks")
    case False
    with that s'(2) inv have "packet_inv M H (\<lambda>i. rn_currentTerm (cl_nodes s i)) pk"
      by (auto simp: election_inv_def)
    then show ?thesis
      by (rule packet_inv_mono) (use n(2) H(1) in \<open>auto simp: s'(1)\<close>)
  qed (rule pks)
qed

text \<open>The six kinds of steps of a node.\<close>

lemma node_inv_same: "node_inv M k H i n \<Longrightarrow> same_core n n' \<Longrightarrow> node_inv M k H i n'"
  by (simp add: node_inv_def same_core_def)

lemma node_inv_down: "node_inv M k H i n \<Longrightarrow> step_down n n' \<Longrightarrow> node_inv M k H i n'"
  by (fastforce simp: node_inv_def step_down_def)

lemma node_inv_elect:
  assumes "node_inv M k H i n" and "rn_currentTerm n + 1 < 2 ^ 64" and "i \<noteq> []"
  shows "node_inv M k (insert (i, rn_currentTerm n + 1, i) H) i (startElection n)"
  using assms
  by (fastforce simp: node_inv_def startElection_def resetElectionTimer_def u64_add_exact Let_def)

lemma node_inv_grant:
  assumes "node_inv M k H i n" and "rn_currentTerm n = t" and "\<And>c'. (i, t, c') \<in> H \<Longrightarrow> c' = c"
  shows "node_inv M k (insert (i, t, c) H) i (n\<lparr>rn_votedFor := c\<rparr>)"
  unfolding node_inv_def
proof (intro conjI)
  show "\<forall>t' c'. (i, t', c') \<in> insert (i, t, c) H \<longrightarrow>
      t' \<le> rn_currentTerm (n\<lparr>rn_votedFor := c\<rparr>) \<and> (t' = rn_currentTerm (n\<lparr>rn_votedFor := c\<rparr>) \<longrightarrow> c' = rn_votedFor (n\<lparr>rn_votedFor := c\<rparr>))"
    using assms(1,2) assms(3) by (auto simp: node_inv_def)
qed (use assms(1,2) in \<open>auto simp: node_inv_def\<close>)

lemma votes_ok_insert:
  assumes "votes_ok M H" and "i \<in> M" and "c \<noteq> []" and "\<And>c'. (i, t, c') \<in> H \<Longrightarrow> c' = c"
  shows "votes_ok M (insert (i, t, c) H)"
  using assms unfolding votes_ok_def by blast

lemma HandleRequestVote_cases:
  assumes "HandleRequestVote q n = (r, n')"
  obtains (refuse) "\<not> vr_VoteGranted r" "same_core n n' \<or> step_down n n'"
  | (grant) m where "vr_VoteGranted r" "vr_Term r = rn_currentTerm n" "same_core n m \<or> step_down n m"
      "rn_currentTerm m = vq_Term q" "rn_votedFor m = [] \<or> rn_votedFor m = vq_CandidateID q"
      "same_core (m\<lparr>rn_votedFor := vq_CandidateID q\<rparr>) n'"
proof -
  define m where "m = (if rn_currentTerm n < vq_Term q
    then n\<lparr>rn_currentTerm := vq_Term q, rn_state := Follower, rn_votedFor := [], rn_leaderID := []\<rparr> else n)"
  have m: "same_core n m \<or> step_down n m" by (simp add: m_def same_core_def step_down_def)
  show ?thesis
  proof (cases "vq_Term q < rn_currentTerm n")
    case True
    then show ?thesis using assms by (intro refuse) (auto simp: HandleRequestVote_def same_core_def)
  next
    case False
    then have eq: "HandleRequestVote q n =
        (if (rn_votedFor m = [] \<or> rn_votedFor m = vq_CandidateID q) \<and> isLogUpToDate (vq_LastLogIndex q) (vq_LastLogTerm q) m
         then (\<lparr>vr_Term = rn_currentTerm n, vr_VoteGranted = True\<rparr>, resetElectionTimer (m\<lparr>rn_votedFor := vq_CandidateID q\<rparr>))
         else (\<lparr>vr_Term = rn_currentTerm n, vr_VoteGranted = False\<rparr>, m))"
      by (simp add: HandleRequestVote_def m_def Let_def)
    have "rn_currentTerm m = vq_Term q" using False by (simp add: m_def)
    then show ?thesis
      using assms m
      by (cases "(rn_votedFor m = [] \<or> rn_votedFor m = vq_CandidateID q) \<and> isLogUpToDate (vq_LastLogIndex q) (vq_LastLogTerm q) m")
        (auto simp: eq same_core_def resetElectionTimer_def intro: refuse grant)
  qed
qed

lemma set_node_simps [simp]:
  "cl_nodes (set_node i n s) = (cl_nodes s)(i := n)" "cl_net (set_node i n s) = cl_net s"
  "cl_nodes (send pk s) = cl_nodes s" "cl_net (send pk s) = cl_net s @ [pk]"
  "cl_nodes (record_applied i cs s) = cl_nodes s" "cl_net (record_applied i cs s) = cl_net s"
  by (simp_all add: set_node_def send_def record_applied_def)

text \<open>A step that leaves the election fields alone or steps down needs no new vote.\<close>

lemma election_inv_quiet:
  assumes "election_inv M k s H" and "i \<in> M" and "same_core (cl_nodes s i) n \<or> step_down (cl_nodes s i) n"
    and "cl_nodes s' = (cl_nodes s)(i := n)" and "set (cl_net s') \<subseteq> set (cl_net s) \<union> pks"
    and "\<And>pk. pk \<in> pks \<Longrightarrow> packet_inv M H (\<lambda>j. rn_currentTerm (cl_nodes s' j)) pk"
  shows "election_inv M k s' H"
proof (rule election_inv_step [OF assms(1), of H i n])
  have "node_inv M k H i (cl_nodes s i)" using assms(1,2) by (simp add: election_inv_def)
  then show "node_inv M k H i n" using assms(3) node_inv_same node_inv_down by blast
  show "rn_currentTerm (cl_nodes s i) \<le> rn_currentTerm n" using assms(3) by (auto simp: same_core_def step_down_def)
  show "votes_ok M H" using assms(1) by (simp add: election_inv_def)
qed (use assms in auto)

lemma run_round_cases:
  obtains "same_core n (run_round fired n)" | m where "same_core n m" "run_round fired n = startElection m"
    "rn_state n \<noteq> Leader"
proof -
  have t: "same_core n (resetElectionTimer n)" "same_core n n" "same_core n (sendHeartbeat n)"
    by (simp_all add: same_core_def resetElectionTimer_def sendHeartbeat_def)
  show ?thesis
    using t that
    by (cases "rn_state n"; cases fired; cases "rn_stopped n"; cases "rn_timer n")
      (auto simp: run_round_def runFollower_def runCandidate_def runLeader_def Let_def)
qed

lemma election_inv_round:
  assumes inv: "election_inv M k s H" and i: "i \<in> M" "i \<noteq> []" and lt: "rn_currentTerm (cl_nodes s i) + 1 < 2 ^ 64"
  shows "\<exists>H'. H \<subseteq> H' \<and> election_inv M k (set_node i (run_round fired (cl_nodes s i)) s) H'"
proof (cases rule: run_round_cases [of "cl_nodes s i" fired])
  case 1
  then show ?thesis
    using election_inv_quiet [OF inv i(1), of _ "set_node i (run_round fired (cl_nodes s i)) s" "{}"] by (intro exI [of _ H]) auto
next
  case (2 m)
  let ?t = "rn_currentTerm (cl_nodes s i) + 1"
  have "node_inv M k H i (cl_nodes s i)" using inv i by (simp add: election_inv_def)
  then have ni: "node_inv M k H i m" "rn_currentTerm m = rn_currentTerm (cl_nodes s i)"
    using 2(1) by (rule node_inv_same) (use 2(1) in \<open>simp add: same_core_def\<close>)
  have "election_inv M k (set_node i (startElection m) s) (insert (i, ?t, i) H)"
  proof (rule election_inv_step [OF inv, where i = i and n = "startElection m" and pks = "{}"])
    show "node_inv M k (insert (i, ?t, i) H) i (startElection m)"
      using node_inv_elect [OF ni(1) _ i(2)] lt ni(2) by simp
    show "votes_ok M (insert (i, ?t, i) H)"
    proof (rule votes_ok_insert)
      show "votes_ok M H" using inv by (simp add: election_inv_def)
      show "c' = i" if "(i, ?t, c') \<in> H" for c'
        using ni that by (fastforce simp: node_inv_def)
    qed (use i in auto)
    show "rn_currentTerm (cl_nodes s i) \<le> rn_currentTerm (startElection m)"
      using lt ni(2) by (simp add: startElection_def resetElectionTimer_def u64_add_exact Let_def)
  qed auto
  then show ?thesis using 2(2) by (intro exI [of _ "insert (i, ?t, i) H"]) auto
qed

lemma election_inv_vote:
  assumes inv: "election_inv M k s H" and i: "dst \<in> M" and nn: "[] \<notin> M"
    and pk: "(src, dst, VoteReq q) \<in> set (cl_net s)" and h: "HandleRequestVote q (cl_nodes s dst) = (r, n')"
  shows "\<exists>H'. H \<subseteq> H' \<and> election_inv M k (send (dst, src, VoteResp r) (set_node dst n' s)) H'"
proof (cases rule: HandleRequestVote_cases [OF h])
  case 1
  then have "election_inv M k (send (dst, src, VoteResp r) (set_node dst n' s)) H"
    by (intro election_inv_quiet [OF inv i, where pks = "{(dst, src, VoteResp r)}"]) (auto simp: packet_inv_def)
  then show ?thesis by blast
next
  case (2 m)
  have q: "src \<in> M" "vq_CandidateID q = src" "vq_Term q \<le> rn_currentTerm (cl_nodes s src)"
    using inv pk by (auto simp: election_inv_def packet_inv_def)
  have "node_inv M k H dst (cl_nodes s dst)" using inv i by (simp add: election_inv_def)
  then have m: "node_inv M k H dst m" using 2(3) node_inv_same node_inv_down by blast
  have t: "rn_currentTerm (cl_nodes s dst) \<le> rn_currentTerm m"
    using 2(3) by (auto simp: same_core_def step_down_def)
  let ?H = "insert (dst, vq_Term q, src) H"
  have n': "rn_currentTerm n' = vq_Term q" using 2(4,6) by (simp add: same_core_def)
  have old: "c = src" if "(dst, vq_Term q, c) \<in> H" for c
  proof -
    have "c = rn_votedFor m" using m that 2(4) by (auto simp: node_inv_def)
    moreover have "c \<noteq> []" using inv that by (auto simp: election_inv_def votes_ok_def)
    ultimately show ?thesis using 2(5) q(2) by simp
  qed
  have "election_inv M k (send (dst, src, VoteResp r) (set_node dst n' s)) ?H"
  proof (rule election_inv_step [OF inv, where i = dst and n = n' and pks = "{(dst, src, VoteResp r)}"])
    have "node_inv M k ?H dst (m\<lparr>rn_votedFor := src\<rparr>)"
      using node_inv_grant [OF m 2(4) old] .
    then show "node_inv M k ?H dst n'" using 2(6) q(2) node_inv_same by simp
    show "votes_ok M ?H"
      using inv i q(1) nn old by (intro votes_ok_insert) (auto simp: election_inv_def)
    show "rn_currentTerm (cl_nodes s dst) \<le> rn_currentTerm n'" using t 2(4) n' by simp
    show "packet_inv M ?H (\<lambda>j. rn_currentTerm (cl_nodes (send (dst, src, VoteResp r) (set_node dst n' s)) j)) pk"
      if "pk \<in> {(dst, src, VoteResp r)}" for pk
      using that 2(2) q(3) t 2(4) n' by (auto simp: packet_inv_def)
  qed auto
  then show ?thesis by blast
qed

lemma election_inv_count:
  assumes inv: "election_inv M k s H" and i: "dst \<in> M" and fin: "finite M" "card M \<le> 2 * k + 1"
    and pk: "(src, dst, VoteResp r) \<in> set (cl_net s)"
  shows "election_inv M k (set_node dst (HandleRequestVoteResponse src r (cl_nodes s dst)) s) H"
proof -
  let ?n = "cl_nodes s dst" and ?n' = "HandleRequestVoteResponse src r (cl_nodes s dst)"
  have ni: "node_inv M k H dst ?n" and vk: "votes_ok M H" using inv i by (simp_all add: election_inv_def)
  show ?thesis
  proof (cases "rn_currentTerm ?n < vr_Term r \<or> rn_state ?n \<noteq> Candidate \<or> vr_Term r \<noteq> rn_currentTerm ?n \<or> \<not> vr_VoteGranted r")
    case True
    then have "same_core ?n ?n' \<or> step_down ?n ?n'"
      by (auto simp: HandleRequestVoteResponse_def same_core_def step_down_def)
    then show ?thesis
      by (rule election_inv_quiet [OF inv i, where pks = "{}"]) auto
  next
    case False
    then have v: "(src, rn_currentTerm ?n, dst) \<in> H"
      using inv pk by (force simp: election_inv_def packet_inv_def)
    define n1 where "n1 = ?n\<lparr>rn_votes := List.insert src (rn_votes ?n)\<rparr>"
    have n1: "node_inv M k H dst n1"
      using ni v False by (auto simp: node_inv_def n1_def)
    have eq: "?n' = (if length (rn_peers n1) div 2 < length (rn_votes n1) then becomeLeader n1 else n1)"
      using False by (simp add: HandleRequestVoteResponse_def n1_def Let_def)
    have "node_inv M k H dst ?n'"
    proof (cases "length (rn_peers n1) div 2 < length (rn_votes n1)")
      case True
      have c: "rn_state n1 = Candidate" using False by (simp add: n1_def)
      have "vote_quorum M k (set (rn_votes n1))"
        using n1 c True fin vk
        by (auto simp: vote_quorum_def node_inv_def votes_ok_def distinct_card)
      then show ?thesis
        using n1 c True unfolding eq by (auto simp: node_inv_def becomeLeader_def sendHeartbeat_def)
    qed (use n1 eq in simp)
    moreover have "rn_currentTerm ?n' = rn_currentTerm ?n"
      unfolding eq by (simp add: n1_def becomeLeader_def sendHeartbeat_def)
    ultimately show ?thesis
      by (intro election_inv_step [OF inv, where i = dst and n = ?n' and pks = "{}"]) (use vk in auto)
  qed
qed

lemma election_inv_task:
  assumes inv: "election_inv M k s H" and i: "i \<in> M" and run: "run_task i j s = Some s'"
  shows "election_inv M k s' H"
proof -
  let ?n = "cl_nodes s i"
  let ?n' = "?n\<lparr>rn_tasks := take j (rn_tasks ?n) @ drop (Suc j) (rn_tasks ?n)\<rparr>"
  obtain p m where s': "s' = send (i, p, m) (set_node i ?n' s)" and m: "m = VoteReq (requestVote ?n) \<or> (\<exists>q. m = AppendReq q)"
    using run by (auto simp: run_task_def Let_def split: if_splits raft_task.splits call.splits)
  have id: "rn_nodeID ?n = i" using inv i by (simp add: election_inv_def node_inv_def)
  have "same_core ?n ?n' \<or> step_down ?n ?n'" by (simp add: same_core_def)
  then show ?thesis
  proof (rule election_inv_quiet [OF inv i, where pks = "{(i, p, m)}"])
    show "packet_inv M H (\<lambda>j. rn_currentTerm (cl_nodes s' j)) pk" if "pk \<in> {(i, p, m)}" for pk
      using that m i id by (auto simp: s' packet_inv_def requestVote_def)
  qed (auto simp: s')
qed

lemma election_inv_deliver:
  assumes inv: "election_inv M k s H" and M: "[] \<notin> M" "finite M" "card M \<le> 2 * k + 1" "dst \<in> M"
    and pk: "(src, dst, m) \<in> set (cl_net s)" and run: "deliver (src, dst, m) s = Some s'"
  shows "\<exists>H'. H \<subseteq> H' \<and> election_inv M k s' H'"
proof (cases m)
  case (VoteReq q)
  obtain r n' where "HandleRequestVote q (cl_nodes s dst) = (r, n')" by force
  then show ?thesis
    using election_inv_vote [OF inv M(4,1)] pk run VoteReq by (auto simp: deliver_def Let_def)
next
  case (VoteResp r)
  then show ?thesis
    using election_inv_count [OF inv M(4,2,3)] pk run by (auto simp: deliver_def Let_def)
next
  case (AppendReq q)
  then obtain r a n' where h: "HandleAppendEntries q (cl_nodes s dst) = Returns (r, a, n')"
    "s' = record_applied dst a (send (dst, src, AppendResp r) (set_node dst n' s))"
    using run by (auto simp: deliver_def Let_def split: call.splits)
  have "election_inv M k s' H"
    by (rule election_inv_quiet [OF inv M(4) HandleAppendEntries_core [OF h(1)], where pks = "{(dst, src, AppendResp r)}"])
      (auto simp: h(2) packet_inv_def)
  then show ?thesis by blast
next
  case (AppendResp r)
  then obtain a n' where h: "HandleAppendEntriesResponse src r (cl_nodes s dst) = Returns (a, n')"
    "s' = record_applied dst a (set_node dst n' s)"
    using run by (auto simp: deliver_def Let_def split: call.splits)
  have "election_inv M k s' H"
    by (rule election_inv_quiet [OF inv M(4) HandleAppendEntriesResponse_core [OF h(1)], where pks = "{}"])
      (auto simp: h(2))
  then show ?thesis by blast
qed

lemma election_inv_event:
  assumes inv: "election_inv (set M) k s H" and M: "[] \<notin> set M" "card (set M) \<le> 2 * k + 1"
    and run: "exec_event M e s = Some s'"
  shows "\<exists>H'. H \<subseteq> H' \<and> election_inv (set M) k s' H'"
proof (cases e)
  case (Round i fired)
  then have "i \<in> set M" "i \<noteq> []" "rn_currentTerm (cl_nodes s i) + 1 < 2 ^ 64"
    "s' = set_node i (run_round fired (cl_nodes s i)) s"
    using run M(1) by (auto split: if_splits)
  then show ?thesis using election_inv_round [OF inv] by blast
next
  case (RunTask i j)
  then show ?thesis using run election_inv_task [OF inv] by (auto split: if_splits)
next
  case (Deliver j)
  obtain src dst m where pk: "cl_net s ! j = (src, dst, m)" by (metis prod.exhaust)
  then have "(src, dst, m) \<in> set (cl_net s)" "dst \<in> set M" "deliver (src, dst, m) s = Some s'"
    using run Deliver by (auto simp: in_set_conv_nth split: if_splits)
  then show ?thesis using election_inv_deliver [OF inv M(1) _ M(2)] by auto
next
  case (ProposeAt i c)
  then have i: "i \<in> set M" "s' = set_node i (snd (Propose c (cl_nodes s i))) s" using run by (auto split: if_splits)
  have "same_core (cl_nodes s i) (snd (Propose c (cl_nodes s i)))" by (simp add: Propose_def same_core_def Let_def)
  then have "election_inv (set M) k s' H"
    by (intro election_inv_quiet [OF inv i(1), where pks = "{}"]) (auto simp: i(2))
  then show ?thesis by blast
qed

text \<open>
  A cluster whose quorums meet: every member counts at least \<open>2 * k\<close> entries in its peer map, and there
  are at most \<open>2 * k + 1\<close> members.
\<close>

definition cluster_ok :: "string list \<Rightarrow> (string \<Rightarrow> (string \<times> string) list) \<Rightarrow> nat \<Rightarrow> bool" where
  "cluster_ok M peers k \<longleftrightarrow> [] \<notin> set M \<and> card (set M) \<le> 2 * k + 1 \<and> (\<forall>i \<in> set M. 2 * k \<le> length (peers i))"

definition wins :: "string set \<Rightarrow> nat \<Rightarrow> votes \<Rightarrow> nat \<Rightarrow> string \<Rightarrow> bool" where
  "wins M k H t a \<longleftrightarrow> (\<exists>Q. vote_quorum M k Q \<and> (\<forall>v \<in> Q. (v, t, a) \<in> H))"

lemma wins_mono: "wins M k H t a \<Longrightarrow> H \<subseteq> H' \<Longrightarrow> wins M k H' t a"
  unfolding wins_def by blast

lemma wins_Leader: "node_inv M k H i n \<Longrightarrow> rn_state n = Leader \<Longrightarrow> wins M k H (rn_currentTerm n) i"
  by (simp add: node_inv_def wins_def)

lemma wins_unique:
  assumes H: "votes_ok M H" and "wins M k H t a" and "wins M k H t b"
  shows "a = b"
proof -
  from assms(2,3) obtain P Q where P: "vote_quorum M k P" "\<forall>v \<in> P. (v, t, a) \<in> H"
    and Q: "vote_quorum M k Q" "\<forall>v \<in> Q. (v, t, b) \<in> H"
    unfolding wins_def by blast
  define vote where "vote v = (THE c. (v, t, c) \<in> H)" for v
  have "vote v = c" if "(v, t, c) \<in> H" for v c
    using H that unfolding vote_def votes_ok_def by blast
  then show ?thesis using vote.one_winner [OF P(1) Q(1), of vote a b] P(2) Q(2) by auto
qed

lemma reachable_inv:
  assumes "reachable M peers s" and "cluster_ok M peers k"
  shows "\<exists>H. election_inv (set M) k s H"
  using assms(1)
proof (induction rule: reachable.induct)
  case init
  have "2 * k \<le> length (peers i) \<Longrightarrow> k \<le> length (peers i) div 2" for i by presburger
  then have "election_inv (set M) k (init_cluster peers) {}"
    using assms(2)
    by (auto simp: election_inv_def votes_ok_def node_inv_def init_cluster_def NewRaftNode_def cluster_ok_def)
  then show ?case ..
next
  case (step s e s')
  then obtain H where "election_inv (set M) k s H" by blast
  from election_inv_event [OF this _ _ step(2)] assms(2) show ?case by (auto simp: cluster_ok_def)
qed

section \<open>Properties\<close>

text \<open>
  C1: Election safety. In every reachable state of a cluster whose quorums meet, over a network that
  may lose, delay, reorder and repeat messages, there is at most one leader in a term.
\<close>

theorem election_safety:
  assumes "cluster_ok M peers k" and "reachable M peers s" and "a \<in> set M" and "b \<in> set M"
    and "GetState (cl_nodes s a) = (t, True)" and "GetState (cl_nodes s b) = (t, True)"
  shows "a = b"
proof -
  from reachable_inv [OF assms(2,1)] obtain H where H: "election_inv (set M) k s H" ..
  have "wins (set M) k H t i" if "i \<in> set M" "GetState (cl_nodes s i) = (t, True)" for i
    using H that wins_Leader [of "set M" k H i "cl_nodes s i"] by (auto simp: election_inv_def GetState_def)
  then have "wins (set M) k H t a" "wins (set M) k H t b" using assms(3-6) by auto
  moreover have "votes_ok (set M) H" using H by (simp add: election_inv_def)
  ultimately show ?thesis by (intro wins_unique)
qed

text \<open>A cluster of three that elects the node \<^verbatim>\<open>a\<close>; the equations run a cluster on a list of events.\<close>

definition abc :: "string list" where
  "abc = [''a'', ''b'', ''c'']"

definition abc_peers :: "string \<Rightarrow> (string \<times> string) list" where
  "abc_peers i = [(''a'', ''h1''), (''b'', ''h2''), (''c'', ''h3'')]"

lemmas cluster_run = abc_def abc_peers_def init_cluster_def NewRaftNode_def run_round_def runFollower_def runCandidate_def runLeader_def
  startElection_def sendHeartbeat_def resetElectionTimer_def other_peers_def run_task_def requestVote_def getLastLogIndex_def getLastLogTerm_def
  getLogTerm_def deliver_def HandleRequestVote_def HandleRequestVoteResponse_def isLogUpToDate_def becomeLeader_def Propose_def
  sendAppendEntries_def HandleAppendEntries_def HandleAppendEntriesResponse_def tryCommitLogs_def replica_count_def
  u64_add_def u64_sub_def u64_of_int_def set_node_def send_def record_applied_def applyLogs_def Let_def

definition elect_a :: "string event list" where
  "elect_a = [Round ''a'' True, RunTask ''a'' 0, Deliver 0, Deliver 0, Deliver 2]"

theorem election_safety_witness:
  "\<exists>s :: string cluster. reachable abc abc_peers s \<and> GetState (cl_nodes s ''a'') = (1, True) \<and> GetState (cl_nodes s ''b'') \<noteq> (1, True)"
proof -
  obtain s where s: "exec_events abc elect_a (init_cluster abc_peers) = Some s" "GetState (cl_nodes s ''a'') = (1, True)"
    by (simp add: elect_a_def GetState_def cluster_run)
  have r: "reachable abc abc_peers s" by (rule reachable_exec [OF reachable.init s(1)])
  have ok: "cluster_ok abc abc_peers 1" by (simp add: cluster_ok_def abc_def abc_peers_def)
  have "GetState (cl_nodes s ''b'') \<noteq> (1, True)"
    using election_safety [OF ok r, of "''a''" "''b''" 1] s(2) by (auto simp: abc_def)
  with r s(2) show ?thesis by blast
qed

definition abcd :: "string list" where
  "abcd = [''a'', ''b'', ''c'', ''d'']"

definition abcd_peers :: "string \<Rightarrow> (string \<times> string) list" where
  "abcd_peers i = filter (\<lambda>p. fst p \<noteq> i) [(''a'', ''h1''), (''b'', ''h2''), (''c'', ''h3''), (''d'', ''h4'')]"

definition elect_two :: "string event list" where
  "elect_two = [Round ''a'' True, Round ''c'' True, RunTask ''a'' 0, RunTask ''c'' 2,
     Deliver 0, Deliver 0, Deliver 1, Deliver 1, Deliver 3, Deliver 5]"

text \<open>
  The quorum is too small when the peer map leaves out the node itself, as the Raft manager's
  maps do, and the number of members is even: four nodes with three peers each reach a state with
  two leaders in the same term.
\<close>

theorem two_leaders_in_even_cluster:
  "\<exists>s :: string cluster. reachable abcd abcd_peers s \<and>
    GetState (cl_nodes s ''a'') = (1, True) \<and> GetState (cl_nodes s ''c'') = (1, True)"
proof -
  obtain s where s: "exec_events abcd elect_two (init_cluster abcd_peers) = Some s"
    "GetState (cl_nodes s ''a'') = (1, True)" "GetState (cl_nodes s ''c'') = (1, True)"
    by (simp add: elect_two_def GetState_def abcd_def abcd_peers_def cluster_run)
  have "reachable abcd abcd_peers s" by (rule reachable_exec [OF reachable.init s(1)])
  with s(2,3) show ?thesis by blast
qed

definition lose_command :: "string event list" where
  "lose_command = elect_a @ [ProposeAt ''a'' ''x'', ProposeAt ''a'' ''y'', Round ''a'' False,
     RunTask ''a'' 1, RunTask ''a'' 6, Deliver 3, Deliver 4, Deliver 5, Deliver 6]"

text \<open>
  Heartbeats count as replication. A success moves the leader's next and match index forward
  by one, whether or not the request carried an entry. Two heartbeats that are under way at the
  same time are enough: in a reachable state the leader has applied a command that is in no other
  log.
\<close>

theorem applied_without_replication:
  "\<exists>s :: string cluster. reachable abc abc_peers s \<and> (''a'', Some ''x'') \<in> set (cl_applied s) \<and>
    map le_Command (rn_log (cl_nodes s ''b'')) = [None] \<and> map le_Command (rn_log (cl_nodes s ''c'')) = [None]"
proof -
  obtain s where s: "exec_events abc lose_command (init_cluster abc_peers) = Some s"
    "cl_applied s = [(''a'', None), (''a'', Some ''x'')]"
    "map le_Command (rn_log (cl_nodes s ''b'')) = [None]" "map le_Command (rn_log (cl_nodes s ''c'')) = [None]"
    by (simp add: lose_command_def elect_a_def cluster_run commit_loop.simps apply_loop.simps nth_Cons')
  have "reachable abc abc_peers s" by (rule reachable_exec [OF reachable.init s(1)])
  with s(2-4) show ?thesis by auto
qed

text \<open>
  A vote in a new term is not counted. The response carries the term the voter had before it
  saw the request, so a candidate ignores the vote of every voter that the request itself brought
  into the candidate's term.
\<close>

theorem vote_in_new_term_ignored:
  assumes "HandleRequestVote q n = (r, n')" and "rn_currentTerm n < vq_Term q" and "vq_Term q \<le> rn_currentTerm c"
  shows "HandleRequestVoteResponse (rn_nodeID n) r c = c"
proof -
  have "vr_Term r = rn_currentTerm n" using assms(1) by (auto simp: HandleRequestVote_def Let_def split: if_splits)
  then show ?thesis using assms(2,3) by (simp add: HandleRequestVoteResponse_def)
qed

theorem vote_in_new_term_ignored_witness:
  "vr_VoteGranted (fst (HandleRequestVote (requestVote (startElection node_a)) (NewRaftNode ''b'' [] :: string raft_node))) \<and>
   HandleRequestVoteResponse ''b''
     (fst (HandleRequestVote (requestVote (startElection node_a)) (NewRaftNode ''b'' [] :: string raft_node))) (startElection node_a) =
   startElection node_a"
proof -
  let ?q = "requestVote (startElection node_a)" and ?n = "NewRaftNode ''b'' [] :: string raft_node"
  have t: "rn_currentTerm ?n = 0" "rn_nodeID ?n = ''b''" "vq_Term ?q = 1" "rn_currentTerm (startElection node_a) = 1"
    by (simp_all add: node_a_def cluster_run)
  have "HandleRequestVoteResponse (rn_nodeID ?n) (fst (HandleRequestVote ?q ?n)) (startElection node_a) = startElection node_a"
    using vote_in_new_term_ignored [of ?q ?n "fst (HandleRequestVote ?q ?n)" "snd (HandleRequestVote ?q ?n)" "startElection node_a"] t
    by simp
  moreover have "vr_VoteGranted (fst (HandleRequestVote ?q ?n))"
    by (simp add: node_a_def cluster_run)
  ultimately show ?thesis by (simp add: t)
qed

end
