(* ===== verification/RaftLogs.thy ===== *)
theory RaftLogs
  imports RaftCluster
begin

text \<open>
  The logs of a cluster. Log matching: when two logs of \<^verbatim>\<open>internal/raft/raft.go\<close> have an entry of the
  same term at the same position, they are equal up to it. It holds while the goroutines of
  \<^verbatim>\<open>sendAppendEntries\<close> that a leader started run before it loses its leadership, and fails without
  this.
\<close>

section \<open>Matching logs\<close>

definition matching :: "'c log_entry list \<Rightarrow> 'c log_entry list \<Rightarrow> bool" where
  "matching xs ys \<longleftrightarrow>
     (\<forall>p < min (length xs) (length ys). le_Term (xs ! p) = le_Term (ys ! p) \<longrightarrow> take (Suc p) xs = take (Suc p) ys)"

lemma matching_refl [simp]: "matching xs xs"
  by (simp add: matching_def)

lemma matching_sym: "matching xs ys \<Longrightarrow> matching ys xs"
  by (simp add: matching_def)

lemma matching_take:
  "matching xs ys \<Longrightarrow> p < length xs \<Longrightarrow> p < length ys \<Longrightarrow> le_Term (xs ! p) = le_Term (ys ! p) \<Longrightarrow>
   take (Suc p) xs = take (Suc p) ys"
  by (simp add: matching_def)

lemma matching_snoc:
  assumes "matching xs ys" and "length xs < length ys \<Longrightarrow> le_Term (ys ! length xs) \<noteq> le_Term e"
  shows "matching (xs @ [e]) ys"
  using assms by (auto simp: matching_def nth_append less_Suc_eq)

text \<open>Merging a slice of a matching log either changes nothing or gives this log.\<close>

lemma merged_matching:
  assumes m: "matching xs ys" and p: "p \<le> length xs" "p \<le> length ys" "take p xs = take p ys"
  shows "merged p (drop p ys) xs = xs \<or> merged p (drop p ys) xs = ys"
proof -
  define k where "k = agree (drop p xs) (drop p ys)"
  have k: "p + k \<le> length xs" "p + k \<le> length ys"
    using agree_le [of "drop p xs" "drop p ys"] p by (simp_all add: k_def)
  have "take (p + k) xs = take (p + k) ys"
  proof (cases k)
    case (Suc j)
    then have "le_Term (xs ! (p + j)) = le_Term (ys ! (p + j))"
      using agree_nth [of j "drop p xs" "drop p ys"] p by (simp add: k_def)
    then show ?thesis using matching_take [OF m, of "p + j"] k Suc by simp
  qed (use p in simp)
  moreover have "drop k (drop p ys) = drop (p + k) ys" by (simp add: add.commute)
  ultimately show ?thesis
    unfolding merged_def Let_def k_def [symmetric] by (metis append_take_drop_id)
qed

section \<open>The invariant\<close>

text \<open>
  \<open>G\<close> is the history of logs: every log a node ever had. Every entry of a term sits inside the log of the
  winner of this term, as long as the winner leads in it; so no other node can ever append a
  different entry of this term at its position.
\<close>

definition logs_ok :: "'c log_entry list set \<Rightarrow> bool" where
  "logs_ok G \<longleftrightarrow> (\<forall>xs \<in> G. xs \<noteq> [] \<and> length xs < 2 ^ 64 \<and> (\<forall>ys \<in> G. matching xs ys))"

definition owned :: "string set \<Rightarrow> nat \<Rightarrow> votes \<Rightarrow> (string \<Rightarrow> 'c raft_node) \<Rightarrow> nat \<Rightarrow> nat \<Rightarrow> bool" where
  "owned M k H nodes t p \<longleftrightarrow> (\<exists>a \<in> M. wins M k H t a \<and> (t < rn_currentTerm (nodes a) \<or>
     rn_currentTerm (nodes a) = t \<and> rn_state (nodes a) = Leader \<and> p < length (rn_log (nodes a))))"

definition slice_of :: "'c append_request \<Rightarrow> 'c log_entry list \<Rightarrow> bool" where
  "slice_of q xs \<longleftrightarrow> aq_PrevLogIndex q < length xs \<and> aq_Entries q = drop (aq_PrevLogIndex q) xs \<and>
     (0 < aq_PrevLogIndex q \<longrightarrow> aq_PrevLogTerm q = le_Term (xs ! (aq_PrevLogIndex q - 1)))"

definition request_ok :: "string set \<Rightarrow> nat \<Rightarrow> votes \<Rightarrow> 'c log_entry list set \<Rightarrow> 'c packet \<Rightarrow> bool" where
  "request_ok M k H G pk \<longleftrightarrow>
     (case pk of (src, dst, m) \<Rightarrow>
        case m of
          AppendReq q \<Rightarrow> src \<noteq> dst \<and> wins M k H (aq_Term q) src \<and> (aq_Entries q = [] \<or> (\<exists>xs \<in> G. slice_of q xs))
        | _ \<Rightarrow> True)"

definition log_inv :: "string set \<Rightarrow> nat \<Rightarrow> votes \<Rightarrow> 'c log_entry list set \<Rightarrow> 'c cluster \<Rightarrow> bool" where
  "log_inv M k H G s \<longleftrightarrow> logs_ok G \<and>
     (\<forall>i \<in> M. rn_log (cl_nodes s i) \<in> G \<and> (\<forall>hb. TaskAppend i hb \<notin> set (rn_tasks (cl_nodes s i)))) \<and>
     (\<forall>xs \<in> G. \<forall>p. 0 < p \<longrightarrow> p < length xs \<longrightarrow> owned M k H (cl_nodes s) (le_Term (xs ! p)) p) \<and>
     (\<forall>pk \<in> set (cl_net s). request_ok M k H G pk)"

text \<open>A step of a node that does not shorten the log of a leader in its term.\<close>

definition leads_on :: "'c raft_node \<Rightarrow> 'c raft_node \<Rightarrow> bool" where
  "leads_on n n' \<longleftrightarrow> rn_currentTerm n \<le> rn_currentTerm n' \<and>
     (rn_state n = Leader \<and> rn_currentTerm n' = rn_currentTerm n \<longrightarrow> rn_state n' = Leader \<and> length (rn_log n) \<le> length (rn_log n'))"

lemma owned_step:
  assumes "owned M k H nodes t p" and "H \<subseteq> H'" and "leads_on (nodes i) n"
  shows "owned M k H' (nodes(i := n)) t p"
proof -
  obtain a where a: "a \<in> M" "wins M k H t a" "t < rn_currentTerm (nodes a) \<or>
      rn_currentTerm (nodes a) = t \<and> rn_state (nodes a) = Leader \<and> p < length (rn_log (nodes a))"
    using assms(1) by (auto simp: owned_def)
  have "leads_on (nodes a) ((nodes(i := n)) a)" using assms(3) by (simp add: leads_on_def)
  then show ?thesis
    using a wins_mono [OF a(2) assms(2)] unfolding owned_def by (intro bexI [of _ a]) (auto simp: leads_on_def)
qed

lemma request_ok_mono: "request_ok M k H G pk \<Longrightarrow> H \<subseteq> H' \<Longrightarrow> G \<subseteq> G' \<Longrightarrow> request_ok M k H' G' pk"
  by (auto simp: request_ok_def intro: wins_mono split: raft_msg.splits)

lemma log_inv_step:
  assumes inv: "log_inv M k H G s" and H: "H \<subseteq> H'" and G: "G \<subseteq> G'" "logs_ok G'"
    and n: "leads_on (cl_nodes s i) n" "rn_log n \<in> G'" "\<And>hb. TaskAppend i hb \<notin> set (rn_tasks n)"
    and new: "\<And>xs p. xs \<in> G' - G \<Longrightarrow> 0 < p \<Longrightarrow> p < length xs \<Longrightarrow> owned M k H' (cl_nodes s') (le_Term (xs ! p)) p"
    and s': "cl_nodes s' = (cl_nodes s)(i := n)" "set (cl_net s') \<subseteq> set (cl_net s) \<union> pks"
    and pks: "\<And>pk. pk \<in> pks \<Longrightarrow> request_ok M k H' G' pk"
  shows "log_inv M k H' G' s'"
  unfolding log_inv_def
proof (intro conjI ballI allI impI)
  show "logs_ok G'" by (rule G(2))
  show "rn_log (cl_nodes s' j) \<in> G'" if "j \<in> M" for j
    using inv that n(2) G(1) by (auto simp: s'(1) log_inv_def)
  show "TaskAppend j hb \<notin> set (rn_tasks (cl_nodes s' j))" if "j \<in> M" for j hb
    using inv that n(3) by (auto simp: s'(1) log_inv_def)
  show "owned M k H' (cl_nodes s') (le_Term (xs ! p)) p" if "xs \<in> G'" "0 < p" "p < length xs" for xs p
  proof (cases "xs \<in> G")
    case True
    then have "owned M k H (cl_nodes s) (le_Term (xs ! p)) p" using inv that by (simp add: log_inv_def)
    then show ?thesis unfolding s'(1) using H n(1) by (rule owned_step)
  qed (use new that in auto)
  show "request_ok M k H' G' pk" if "pk \<in> set (cl_net s')" for pk
  proof (cases "pk \<in> pks")
    case False
    then have "request_ok M k H G pk" using inv that s'(2) by (auto simp: log_inv_def)
    then show ?thesis using H G(1) by (rule request_ok_mono)
  qed (rule pks)
qed

text \<open>A step that leaves the log alone.\<close>

lemma log_inv_quiet:
  assumes inv: "log_inv M k H G s" and H: "H \<subseteq> H'" and i: "i \<in> M"
    and n: "rn_log n = rn_log (cl_nodes s i)" "leads_on (cl_nodes s i) n" "\<And>hb. TaskAppend i hb \<notin> set (rn_tasks n)"
    and s': "cl_nodes s' = (cl_nodes s)(i := n)" "set (cl_net s') \<subseteq> set (cl_net s) \<union> pks"
    and pks: "\<And>pk. pk \<in> pks \<Longrightarrow> request_ok M k H' G pk"
  shows "log_inv M k H' G s'"
proof (rule log_inv_step [OF inv H, where i = i and n = n and pks = pks])
  show "logs_ok G" "rn_log n \<in> G" using inv i n(1) by (simp_all add: log_inv_def)
qed (use n s' pks in auto)

text \<open>The steps of a node.\<close>

lemma leads_on_core: "same_core n n' \<Longrightarrow> length (rn_log n) \<le> length (rn_log n') \<Longrightarrow> leads_on n n'"
  by (simp add: same_core_def leads_on_def)

lemma leads_on_down: "step_down n n' \<Longrightarrow> leads_on n n'"
  by (simp add: step_down_def leads_on_def)

lemma run_round_log:
  assumes "rn_currentTerm n + 1 < 2 ^ 64"
  shows "rn_log (run_round fired n) = rn_log n" and "leads_on n (run_round fired n)"
    and "TaskAppend (rn_nodeID n) hb \<in> set (rn_tasks (run_round fired n)) \<Longrightarrow> TaskAppend (rn_nodeID n) hb \<in> set (rn_tasks n)"
  using assms
  by (auto simp: run_round_def runFollower_def runCandidate_def runLeader_def startElection_def sendHeartbeat_def resetElectionTimer_def
      other_peers_def leads_on_def u64_add_exact Let_def split: raft_state.splits if_splits)

lemma HandleRequestVote_log:
  assumes "HandleRequestVote q n = (r, n')"
  shows "rn_log n' = rn_log n" and "leads_on n n'" and "rn_tasks n' = rn_tasks n"
  using assms by (auto simp: HandleRequestVote_def leads_on_def resetElectionTimer_def Let_def split: if_splits)

lemma HandleRequestVoteResponse_log:
  "rn_log (HandleRequestVoteResponse p r n) = rn_log n" "leads_on n (HandleRequestVoteResponse p r n)"
  "TaskAppend (rn_nodeID n) hb \<in> set (rn_tasks (HandleRequestVoteResponse p r n)) \<Longrightarrow> TaskAppend (rn_nodeID n) hb \<in> set (rn_tasks n)"
  by (auto simp: HandleRequestVoteResponse_def becomeLeader_def sendHeartbeat_def other_peers_def leads_on_def Let_def split: if_splits)

lemma HandleAppendEntriesResponse_log:
  assumes "HandleAppendEntriesResponse p r n = Returns (a, n')"
  shows "rn_log n' = rn_log n" and "rn_tasks n' = rn_tasks n"
  using assms
  by (auto simp: HandleAppendEntriesResponse_def tryCommitLogs_def Let_def bind_call_Returns
      split: if_splits dest!: applyLogs_upd commit_loop_upd)

lemma follow_more [simp]:
  "rn_tasks (follow q n) = rn_tasks n" "rn_currentTerm (follow q n) = max (rn_currentTerm n) (aq_Term q)"
  by (auto simp: follow_def resetElectionTimer_def)

lemma HandleAppendEntries_log:
  assumes "HandleAppendEntries q n = Returns (r, a, n')"
  shows "rn_tasks n' = rn_tasks n"
    and "rn_log n' = rn_log n \<or> rn_currentTerm n \<le> aq_Term q \<and> rn_currentTerm n' = aq_Term q \<and> \<not> prev_mismatch q n \<and>
      merge_entries (aq_PrevLogIndex q) 0 (aq_Entries q) (rn_log n) = Returns (rn_log n')"
proof -
  have "n' = n \<or> n' = follow q n \<or> (rn_currentTerm n \<le> aq_Term q \<and> \<not> prev_mismatch q n \<and>
      (\<exists>log. merge_entries (aq_PrevLogIndex q) 0 (aq_Entries q) (rn_log n) = Returns log \<and> (n' = (follow q n)\<lparr>rn_log := log\<rparr> \<or>
        (\<exists>c l. n' = (follow q n)\<lparr>rn_log := log, rn_commitIndex := c, rn_lastApplied := l\<rparr>))))"
    using assms by (auto simp: HandleAppendEntries_eq Let_def bind_call_Returns split: if_splits dest!: applyLogs_upd)
  then show "rn_tasks n' = rn_tasks n"
    and "rn_log n' = rn_log n \<or> rn_currentTerm n \<le> aq_Term q \<and> rn_currentTerm n' = aq_Term q \<and> \<not> prev_mismatch q n \<and>
      merge_entries (aq_PrevLogIndex q) 0 (aq_Entries q) (rn_log n) = Returns (rn_log n')"
    by auto
qed

section \<open>The steps keep the invariant\<close>

text \<open>The term check and the check of the previous entry decide which log a node has after a request.\<close>

lemma append_log:
  assumes G: "logs_ok G" "rn_log n \<in> G" and q: "aq_Entries q = [] \<or> (\<exists>xs \<in> G. slice_of q xs)"
    and h: "HandleAppendEntries q n = Returns (r, a, n')"
  shows "rn_log n' \<in> G"
proof -
  consider "rn_log n' = rn_log n" | "aq_Entries q = []" "merge_entries (aq_PrevLogIndex q) 0 (aq_Entries q) (rn_log n) = Returns (rn_log n')"
    | xs where "xs \<in> G" "slice_of q xs" "\<not> prev_mismatch q n"
        "merge_entries (aq_PrevLogIndex q) 0 (aq_Entries q) (rn_log n) = Returns (rn_log n')"
    using HandleAppendEntries_log(2) [OF h] q by blast
  then show ?thesis
  proof cases
    case (3 xs)
    let ?p = "aq_PrevLogIndex q"
    have m: "matching (rn_log n) xs" "rn_log n \<noteq> []" "length (rn_log n) < 2 ^ 64" "length xs < 2 ^ 64"
      using G 3(1) by (auto simp: logs_ok_def)
    have p: "?p \<le> length (rn_log n)" "?p < length xs" "aq_Entries q = drop ?p xs"
      using 3(2,3) m(2,3) by (auto simp: slice_of_def prev_mismatch_def getLastLogIndex_exact)
    have "take ?p (rn_log n) = take ?p xs"
    proof (cases "?p = 0")
      case False
      then have "le_Term (rn_log n ! (?p - 1)) = le_Term (xs ! (?p - 1))"
        using 3(2,3) p by (auto simp: slice_of_def prev_mismatch_def getLogTerm_def)
      with False p matching_take [OF m(1), of "?p - 1"] show ?thesis by auto
    qed simp
    then have "merged ?p (aq_Entries q) (rn_log n) = rn_log n \<or> merged ?p (aq_Entries q) (rn_log n) = xs"
      unfolding p(3) using m(1) p by (intro merged_matching) auto
    moreover have "merge_entries ?p 0 (aq_Entries q) (rn_log n) = Returns (merged ?p (aq_Entries q) (rn_log n))"
      using p m(4) merge_entries_merged [of ?p 0 "rn_log n" "aq_Entries q"] by simp
    ultimately show ?thesis using 3(1,4) G(2) by auto
  qed (use G(2) in auto)
qed

lemma log_inv_append:
  assumes inv: "log_inv M k H G s" and el: "election_inv M k s H" and dst: "dst \<in> M"
    and pk: "(src, dst, AppendReq q) \<in> set (cl_net s)"
    and h: "HandleAppendEntries q (cl_nodes s dst) = Returns (r, a, n')"
  shows "log_inv M k H G (record_applied dst a (send (dst, src, AppendResp r) (set_node dst n' s)))"
proof (rule log_inv_step [OF inv, where i = dst and n = n' and pks = "{(dst, src, AppendResp r)}"])
  let ?n = "cl_nodes s dst"
  have q: "src \<noteq> dst" "wins M k H (aq_Term q) src" "aq_Entries q = [] \<or> (\<exists>xs \<in> G. slice_of q xs)"
    using inv pk by (auto simp: log_inv_def request_ok_def)
  show G: "logs_ok G" using inv by (simp add: log_inv_def)
  show "rn_log n' \<in> G" using append_log [OF G _ q(3) h] inv dst by (simp add: log_inv_def)
  show "TaskAppend dst hb \<notin> set (rn_tasks n')" for hb
    using inv dst HandleAppendEntries_log(1) [OF h] by (simp add: log_inv_def)
  have "\<not> (rn_state ?n = Leader \<and> rn_currentTerm ?n = aq_Term q)"
    using q(1,2) el dst wins_Leader [of M k H dst ?n] wins_unique by (fastforce simp: election_inv_def)
  with HandleAppendEntries_log(2) [OF h] HandleAppendEntries_core [OF h] show "leads_on ?n n'"
    by (auto simp: leads_on_def same_core_def step_down_def)
qed (auto simp: request_ok_def)

lemma log_inv_task:
  assumes inv: "log_inv M k H G s" and el: "election_inv M k s H" and i: "i \<in> M" and run: "run_task i j s = Some s'"
    and lead: "\<And>p hb. j < length (rn_tasks (cl_nodes s i)) \<Longrightarrow> rn_tasks (cl_nodes s i) ! j = TaskAppend p hb \<Longrightarrow> rn_state (cl_nodes s i) = Leader"
  shows "log_inv M k H G s'"
proof -
  let ?n = "cl_nodes s i"
  define n' where "n' = ?n\<lparr>rn_tasks := take j (rn_tasks ?n) @ drop (Suc j) (rn_tasks ?n)\<rparr>"
  obtain p m where s': "s' = send (i, p, m) (set_node i n' s)" and j: "j < length (rn_tasks ?n)"
    and m: "m = VoteReq (requestVote ?n) \<or> (\<exists>hb q. m = AppendReq q \<and> rn_tasks ?n ! j = TaskAppend p hb \<and> sendAppendEntries p hb ?n = Returns q)"
    using run by (auto simp: run_task_def Let_def n'_def split: if_splits raft_task.splits call.splits)
  have log: "rn_log ?n \<in> G" "length (rn_log ?n) < 2 ^ 64" "\<And>hb. TaskAppend i hb \<notin> set (rn_tasks ?n)"
    using inv i by (auto simp: log_inv_def logs_ok_def)
  have "request_ok M k H G (i, p, m)"
  proof (cases "\<exists>q. m = AppendReq q")
    case True
    then obtain q hb where q: "m = AppendReq q" "rn_tasks ?n ! j = TaskAppend p hb" "sendAppendEntries p hb ?n = Returns q"
      using m by auto
    have "p \<noteq> i" using log(3) [of hb] q(2) j nth_mem by metis
    moreover have "wins M k H (rn_currentTerm ?n) i"
      using lead [OF j q(2)] el i by (intro wins_Leader) (auto simp: election_inv_def)
    moreover have "aq_Term q = rn_currentTerm ?n" "aq_Entries q = [] \<or> slice_of q (rn_log ?n)"
      using q(3) log(2) by (auto simp: sendAppendEntries_def slice_of_def u64_sub_exact getLogTerm_def Let_def split: if_splits)
    ultimately show ?thesis using log(1) by (auto simp: request_ok_def q(1))
  qed (use m in \<open>auto simp: request_ok_def\<close>)
  then show ?thesis
    using log(3) by (intro log_inv_quiet [OF inv subset_refl i, where n = n' and pks = "{(i, p, m)}"])
      (auto simp: s' n'_def leads_on_def dest: in_set_takeD in_set_dropD)
qed

lemma log_inv_propose:
  assumes inv: "log_inv M k H G s" and el: "election_inv M k s H" and i: "i \<in> M"
    and len: "length (rn_log (cl_nodes s i)) + 1 < 2 ^ 64"
  shows "\<exists>G'. log_inv M k H G' (set_node i (snd (Propose c (cl_nodes s i))) s)"
proof (cases "rn_state (cl_nodes s i) = Leader")
  case False
  then have "log_inv M k H G (set_node i (snd (Propose c (cl_nodes s i))) s)"
    using inv i by (intro log_inv_quiet [OF inv subset_refl i, where n = "cl_nodes s i" and pks = "{}"])
      (auto simp: Propose_def leads_on_def log_inv_def)
  then show ?thesis ..
next
  case True
  let ?n = "cl_nodes s i" and ?s = "set_node i (snd (Propose c (cl_nodes s i))) s"
  define e where "e = \<lparr>le_Term = rn_currentTerm ?n, le_Index = u64_add (getLastLogIndex ?n) 1, le_Command = Some c\<rparr>"
  define log where "log = rn_log ?n @ [e]"
  define n' where "n' = snd (Propose c ?n)"
  have n': "rn_log n' = log" "rn_currentTerm n' = rn_currentTerm ?n" "rn_state n' = Leader"
    "rn_tasks n' = rn_tasks ?n @ map (\<lambda>p. TaskAppend p False) (other_peers ?n)"
    using True by (simp_all add: n'_def Propose_def log_def e_def Let_def)
  have w: "wins M k H (rn_currentTerm ?n) i" "votes_ok M H" "rn_nodeID ?n = i"
    using True el i wins_Leader [of M k H i ?n] by (auto simp: election_inv_def node_inv_def)
  have G: "logs_ok G" "rn_log ?n \<in> G" using inv i by (auto simp: log_inv_def)
  have match: "matching log xs" if xs: "xs \<in> G" for xs
    unfolding log_def
  proof (rule matching_snoc)
    show "matching (rn_log ?n) xs" using G xs by (simp add: logs_ok_def)
    assume l: "length (rn_log ?n) < length xs"
    have "0 < length (rn_log ?n)" using G by (auto simp: logs_ok_def)
    then have "owned M k H (cl_nodes s) (le_Term (xs ! length (rn_log ?n))) (length (rn_log ?n))"
      using inv xs l by (simp add: log_inv_def)
    then obtain a where a: "wins M k H (le_Term (xs ! length (rn_log ?n))) a"
      "le_Term (xs ! length (rn_log ?n)) < rn_currentTerm (cl_nodes s a) \<or> length (rn_log ?n) < length (rn_log (cl_nodes s a))"
      unfolding owned_def by blast
    show "le_Term (xs ! length (rn_log ?n)) \<noteq> le_Term e"
    proof
      assume t: "le_Term (xs ! length (rn_log ?n)) = le_Term e"
      then have "a = i" using a(1) w by (intro wins_unique [OF w(2)]) (auto simp: e_def)
      then show False using a(2) t by (simp add: e_def)
    qed
  qed
  have "log_inv M k H (insert log G) ?s"
  proof (rule log_inv_step [OF inv, where i = i and n = n' and pks = "{}"])
    show "logs_ok (insert log G)"
      using G match len by (auto simp: logs_ok_def log_def [symmetric] intro: matching_sym) (auto simp: log_def)
    show lead: "leads_on ?n n'" using n' by (simp add: leads_on_def log_def)
    show "TaskAppend i hb \<notin> set (rn_tasks n')" for hb
      using inv i w(3) by (auto simp: n'(4) log_inv_def other_peers_def)
    show "owned M k H (cl_nodes ?s) (le_Term (xs ! p)) p" if "xs \<in> insert log G - G" "0 < p" "p < length xs" for xs p
    proof (cases "p < length (rn_log ?n)")
      case True
      then have "owned M k H (cl_nodes s) (le_Term (xs ! p)) p"
        using inv G(2) that by (auto simp: log_inv_def log_def nth_append)
      then have "owned M k H ((cl_nodes s)(i := n')) (le_Term (xs ! p)) p" using subset_refl lead by (rule owned_step)
      then show ?thesis by (simp add: n'_def)
    next
      case False
      then have "xs ! p = e" "p < length log" using that by (auto simp: log_def nth_append less_Suc_eq)
      then show ?thesis
        using w(1) i n' unfolding owned_def by (intro bexI [of _ i]) (auto simp: e_def n'_def [symmetric])
    qed
  qed (auto simp: n'(1) n'_def [symmetric])
  then show ?thesis ..
qed

section \<open>Clusters that send while they lead\<close>

text \<open>
  A goroutine of \<^verbatim>\<open>sendAppendEntries\<close> does not look at the state of its node when it runs. \<open>prompt\<close> says
  that it runs before the node loses its leadership, and that the indices of a log are not used up.
\<close>

fun prompt :: "'c event \<Rightarrow> 'c cluster \<Rightarrow> bool" where
  "prompt (RunTask i k) s \<longleftrightarrow> k < length (rn_tasks (cl_nodes s i)) \<longrightarrow>
     (case rn_tasks (cl_nodes s i) ! k of TaskAppend _ _ \<Rightarrow> rn_state (cl_nodes s i) = Leader | TaskVote _ \<Rightarrow> True)"
| "prompt (ProposeAt i c) s \<longleftrightarrow> length (rn_log (cl_nodes s i)) + 1 < 2 ^ 64"
| "prompt _ s \<longleftrightarrow> True"

inductive prompt_reach :: "string list \<Rightarrow> (string \<Rightarrow> (string \<times> string) list) \<Rightarrow> 'c cluster \<Rightarrow> bool"
  for M peers where
  init: "prompt_reach M peers (init_cluster peers)"
| step: "prompt_reach M peers s \<Longrightarrow> prompt e s \<Longrightarrow> exec_event M e s = Some s' \<Longrightarrow> prompt_reach M peers s'"

lemma log_inv_deliver:
  assumes inv: "log_inv M k H G s" "election_inv M k s H" and H: "H \<subseteq> H'" and dst: "dst \<in> M"
    and pk: "(src, dst, m) \<in> set (cl_net s)" and run: "deliver (src, dst, m) s = Some s'"
  shows "log_inv M k H' G s'"
proof -
  let ?n = "cl_nodes s dst"
  have t: "TaskAppend dst hb \<notin> set (rn_tasks ?n)" "rn_nodeID ?n = dst" for hb
    using inv dst by (auto simp: log_inv_def election_inv_def node_inv_def)
  show ?thesis
  proof (cases m)
    case (VoteReq q)
    obtain r n' where h: "HandleRequestVote q ?n = (r, n')" by force
    then show ?thesis
      using t HandleRequestVote_log [OF h] run VoteReq
      by (intro log_inv_quiet [OF inv(1) H dst, where n = n' and pks = "{(dst, src, VoteResp r)}"])
        (auto simp: deliver_def request_ok_def)
  next
    case (VoteResp r)
    then show ?thesis
      using t HandleRequestVoteResponse_log [where p = src and r = r and n = ?n] run
      by (intro log_inv_quiet [OF inv(1) H dst, where n = "HandleRequestVoteResponse src r ?n" and pks = "{}"])
        (auto simp: deliver_def)
  next
    case (AppendReq q)
    then obtain r a n' where h: "HandleAppendEntries q ?n = Returns (r, a, n')"
      "s' = record_applied dst a (send (dst, src, AppendResp r) (set_node dst n' s))"
      using run by (auto simp: deliver_def Let_def split: call.splits)
    then have "log_inv M k H G s'" using log_inv_append [OF inv dst] pk AppendReq by simp
    then show ?thesis using t dst
      by (intro log_inv_quiet [OF _ H dst, where n = "cl_nodes s' dst" and pks = "{}"]) (auto simp: leads_on_def log_inv_def)
  next
    case (AppendResp r)
    then obtain a n' where h: "HandleAppendEntriesResponse src r ?n = Returns (a, n')"
      "s' = record_applied dst a (set_node dst n' s)"
      using run by (auto simp: deliver_def Let_def split: call.splits)
    then show ?thesis
      using t HandleAppendEntriesResponse_log [OF h(1)] HandleAppendEntriesResponse_core [OF h(1)]
      by (intro log_inv_quiet [OF inv(1) H dst, where n = n' and pks = "{}"]) (auto intro: leads_on_core leads_on_down)
  qed
qed

lemma log_inv_event:
  assumes inv: "log_inv (set M) k H G s" "election_inv (set M) k s H" and H: "H \<subseteq> H'"
    and e: "prompt e s" "exec_event M e s = Some s'"
  shows "\<exists>G'. log_inv (set M) k H' G' s'"
proof -
  have more: "log_inv (set M) k H' G' t" if "log_inv (set M) k H G' t" "i \<in> set M" for G' t i
    using that H by (intro log_inv_quiet [OF that(1) H that(2), where n = "cl_nodes t i" and pks = "{}"])
      (auto simp: leads_on_def log_inv_def)
  show ?thesis
  proof (cases e)
    case (Round i fired)
    then have i: "i \<in> set M" "rn_currentTerm (cl_nodes s i) + 1 < 2 ^ 64" "s' = set_node i (run_round fired (cl_nodes s i)) s"
      using e(2) by (auto split: if_splits)
    have t: "TaskAppend i hb \<notin> set (rn_tasks (cl_nodes s i))" "rn_nodeID (cl_nodes s i) = i" for hb
      using inv i(1) by (auto simp: log_inv_def election_inv_def node_inv_def)
    have "log_inv (set M) k H' G s'"
      using t run_round_log [OF i(2)]
      by (intro log_inv_quiet [OF inv(1) H i(1), where n = "run_round fired (cl_nodes s i)" and pks = "{}"]) (auto simp: i(3))
    then show ?thesis ..
  next
    case (RunTask i j)
    then have i: "i \<in> set M" "run_task i j s = Some s'" using e(2) by (auto split: if_splits)
    have "log_inv (set M) k H G s'"
      by (rule log_inv_task [OF inv i]) (use e(1) RunTask in auto)
    then show ?thesis using more i(1) by blast
  next
    case (Deliver j)
    obtain src dst m where pk: "cl_net s ! j = (src, dst, m)" by (metis prod.exhaust)
    then have "(src, dst, m) \<in> set (cl_net s)" "dst \<in> set M" "deliver (src, dst, m) s = Some s'"
      using e(2) Deliver by (auto simp: in_set_conv_nth split: if_splits)
    then show ?thesis using log_inv_deliver [OF inv H] by blast
  next
    case (ProposeAt i c)
    then have i: "i \<in> set M" "s' = set_node i (snd (Propose c (cl_nodes s i))) s" using e(2) by (auto split: if_splits)
    then show ?thesis using log_inv_propose [OF inv i(1), of c] e(1) ProposeAt more by auto
  qed
qed

lemma prompt_reach_inv:
  fixes s :: "'c cluster"
  assumes "prompt_reach M peers s" and ok: "cluster_ok M peers k"
  shows "\<exists>H G. election_inv (set M) k s H \<and> log_inv (set M) k H G s"
  using assms(1)
proof (induction rule: prompt_reach.induct)
  case init
  from reachable_inv [OF reachable.init ok] obtain H where H: "election_inv (set M) k (init_cluster peers :: 'c cluster) H" ..
  have "log_inv (set M) k H {[\<lparr>le_Term = 0, le_Index = 0, le_Command = None\<rparr>]} (init_cluster peers :: 'c cluster)"
    by (auto simp: log_inv_def logs_ok_def init_cluster_def NewRaftNode_def)
  with H show ?case by blast
next
  case (step s e s')
  then obtain H G where inv: "election_inv (set M) k s H" "log_inv (set M) k H G s" by blast
  from election_inv_event [OF inv(1) _ _ step(3)] ok obtain H' where "H \<subseteq> H'" "election_inv (set M) k s' H'"
    by (auto simp: cluster_ok_def)
  with log_inv_event [OF inv(2,1) _ step(2,3)] show ?case by blast
qed

section \<open>Properties\<close>

text \<open>
  C2: Log matching. In every state that a cluster reaches whose quorums meet and whose leaders send
  while they lead, over a network that may lose, delay, reorder and repeat messages: when the logs of
  two members have entries of the same term at the same position, the two logs are equal up to
  this position, commands included.
\<close>

theorem log_matching:
  assumes "cluster_ok M peers k" and "prompt_reach M peers s" and "a \<in> set M" and "b \<in> set M"
    and "p < length (rn_log (cl_nodes s a))" and "p < length (rn_log (cl_nodes s b))"
    and "le_Term (rn_log (cl_nodes s a) ! p) = le_Term (rn_log (cl_nodes s b) ! p)"
  shows "take (Suc p) (rn_log (cl_nodes s a)) = take (Suc p) (rn_log (cl_nodes s b))"
proof -
  from prompt_reach_inv [OF assms(2,1)] obtain H G where inv: "log_inv (set M) k H G s" by blast
  then have "matching (rn_log (cl_nodes s a)) (rn_log (cl_nodes s b))"
    using assms(3,4) by (simp add: log_inv_def logs_ok_def)
  then show ?thesis using assms(5-7) by (rule matching_take)
qed

text \<open>The leader of \<^const>\<open>elect_a\<close> replicates a command to the node \<^verbatim>\<open>b\<close>.\<close>

fun exec_prompt :: "string list \<Rightarrow> 'c event list \<Rightarrow> 'c cluster \<Rightarrow> 'c cluster option" where
  "exec_prompt M [] s = Some s"
| "exec_prompt M (e # es) s =
     (if prompt e s then case exec_event M e s of None \<Rightarrow> None | Some s' \<Rightarrow> exec_prompt M es s' else None)"

lemma prompt_reach_exec: "prompt_reach M peers s \<Longrightarrow> exec_prompt M es s = Some s' \<Longrightarrow> prompt_reach M peers s'"
  by (induction es arbitrary: s) (auto split: option.splits if_splits intro: prompt_reach.step)

definition replicate_x :: "string event list" where
  "replicate_x = elect_a @ [ProposeAt ''a'' ''x'', RunTask ''a'' 3, Deliver 3]"

theorem log_matching_witness:
  "\<exists>s :: string cluster. prompt_reach abc abc_peers s \<and> length (rn_log (cl_nodes s ''a'')) = 2 \<and>
    rn_log (cl_nodes s ''a'') = rn_log (cl_nodes s ''b'')"
proof -
  obtain s where s: "exec_prompt abc replicate_x (init_cluster abc_peers) = Some s"
    "length (rn_log (cl_nodes s ''a'')) = 2" "length (rn_log (cl_nodes s ''b'')) = 2"
    "le_Term (rn_log (cl_nodes s ''a'') ! 1) = le_Term (rn_log (cl_nodes s ''b'') ! 1)"
    by (simp add: replicate_x_def elect_a_def cluster_run merge_entry_def nth_Cons')
  have r: "prompt_reach abc abc_peers s" by (rule prompt_reach_exec [OF prompt_reach.init s(1)])
  have ok: "cluster_ok abc abc_peers 1" by (simp add: cluster_ok_def abc_def abc_peers_def)
  have "take (Suc 1) (rn_log (cl_nodes s ''a'')) = take (Suc 1) (rn_log (cl_nodes s ''b''))"
    using log_matching [OF ok r, of "''a''" "''b''" 1] s(2-4) by (simp add: abc_def)
  then have "rn_log (cl_nodes s ''a'') = rn_log (cl_nodes s ''b'')" using s(2,3) by simp
  with r s(2) show ?thesis by blast
qed

text \<open>
  C18: A late sender breaks log matching. A goroutine of \<^verbatim>\<open>sendAppendEntries\<close> that runs after its node
  has lost the leadership sends the old log in the new term, and the leader of this term accepts
  it. In a reachable state of three nodes the leader \<^verbatim>\<open>b\<close> has lost its own two entries to it, has proposed
  another command, and its log and that of \<^verbatim>\<open>c\<close> have different commands of the same term at the same position.
\<close>

definition late_sender :: "string event list" where
  "late_sender = elect_a @ [ProposeAt ''a'' ''x'', Round ''b'' True, RunTask ''b'' 0, RunTask ''b'' 0, Deliver 3, Deliver 4, Deliver 4,
     Deliver 7, ProposeAt ''b'' ''y'', ProposeAt ''b'' ''w'', RunTask ''b'' 3, Deliver 8, RunTask ''a'' 3, Deliver 10, ProposeAt ''b'' ''z'']"

theorem late_sender_breaks_matching:
  "\<exists>s :: string cluster. reachable abc abc_peers s \<and> GetState (cl_nodes s ''b'') = (2, True) \<and>
    map (\<lambda>e. (le_Term e, le_Command e)) (rn_log (cl_nodes s ''b'')) = [(0, None), (1, Some ''x''), (2, Some ''z'')] \<and>
    map (\<lambda>e. (le_Term e, le_Command e)) (rn_log (cl_nodes s ''c'')) = [(0, None), (2, Some ''y''), (2, Some ''w'')]"
proof -
  have "\<exists>s. exec_events abc late_sender (init_cluster abc_peers) = Some s \<and> GetState (cl_nodes s ''b'') = (2, True) \<and>
      map (\<lambda>e. (le_Term e, le_Command e)) (rn_log (cl_nodes s ''b'')) = [(0, None), (1, Some ''x''), (2, Some ''z'')] \<and>
      map (\<lambda>e. (le_Term e, le_Command e)) (rn_log (cl_nodes s ''c'')) = [(0, None), (2, Some ''y''), (2, Some ''w'')]"
    by (simp add: late_sender_def elect_a_def GetState_def cluster_run merge_entry_def nth_Cons')
  then obtain s where s: "exec_events abc late_sender (init_cluster abc_peers) = Some s" "GetState (cl_nodes s ''b'') = (2, True)"
    "map (\<lambda>e. (le_Term e, le_Command e)) (rn_log (cl_nodes s ''b'')) = [(0, None), (1, Some ''x''), (2, Some ''z'')]"
    "map (\<lambda>e. (le_Term e, le_Command e)) (rn_log (cl_nodes s ''c'')) = [(0, None), (2, Some ''y''), (2, Some ''w'')]"
    by (elim exE conjE) (rule that)
  have "reachable abc abc_peers s" by (rule reachable_exec [OF reachable.init s(1)])
  then show ?thesis using s(2-4) by (intro exI [of _ s] conjI)
qed

end
