(* ===== verification/Json.thy ===== *)
theory Json
  imports Prelude
begin

text \<open>
  JSON texts as value trees, and what \<^verbatim>\<open>json.Unmarshal\<close> reads from them into the fields of a
  struct. \<open>JBytes\<close> is the text of a byte slice (base64), which no message of the program reads
  into a field of another type.
\<close>

datatype json =
  JNull | JBool bool | JNum int | JStr string | JBytes bytes | JArr "json list" | JObj "(string \<times> json) list"

text \<open>
  \<^verbatim>\<open>json.Unmarshal\<close> into a struct: a missing field and \<^verbatim>\<open>null\<close> leave the zero value, a value of another
  type is an error, and so is a number outside the field's range.
\<close>

definition field :: "string \<Rightarrow> (string \<times> json) list \<Rightarrow> json" where
  "field name fs = (case map_of fs name of None \<Rightarrow> JNull | Some j \<Rightarrow> j)"

fun un_u64 :: "json \<Rightarrow> nat option" where
  "un_u64 JNull = Some 0"
| "un_u64 (JNum i) = (if 0 \<le> i \<and> i < 2 ^ 64 then Some (nat i) else None)"
| "un_u64 _ = None"

fun un_i64 :: "json \<Rightarrow> int option" where
  "un_i64 JNull = Some 0"
| "un_i64 (JNum i) = (if - (2 ^ 63) \<le> i \<and> i < 2 ^ 63 then Some i else None)"
| "un_i64 _ = None"

fun un_string :: "json \<Rightarrow> string option" where
  "un_string JNull = Some []"
| "un_string (JStr s) = Some s"
| "un_string _ = None"

fun un_bytes :: "json \<Rightarrow> bytes option" where
  "un_bytes JNull = Some []"
| "un_bytes (JBytes b) = Some b"
| "un_bytes _ = None"

fun un_bool :: "json \<Rightarrow> bool option" where
  "un_bool JNull = Some False"
| "un_bool (JBool b) = Some b"
| "un_bool _ = None"

fun un_struct :: "json \<Rightarrow> (string \<times> json) list option" where
  "un_struct JNull = Some []"
| "un_struct (JObj fs) = Some fs"
| "un_struct _ = None"

fun un_list :: "(json \<Rightarrow> 'a option) \<Rightarrow> json list \<Rightarrow> 'a list option" where
  "un_list f [] = Some []"
| "un_list f (j # js) = Option.bind (f j) (\<lambda>x. Option.bind (un_list f js) (\<lambda>xs. Some (x # xs)))"

lemma field_simps [simp]:
  "field n [] = JNull" "field n ((m, j) # fs) = (if m = n then j else field n fs)"
  by (auto simp: field_def)

lemma un_list_map: "(\<And>x. x \<in> set xs \<Longrightarrow> f (g x) = Some (h x)) \<Longrightarrow> un_list f (map g xs) = Some (map h xs)"
  by (induction xs) auto

end
