(* ===== verification/RaftManager.thy ===== *)
theory RaftManager
  imports RaftNode Fragment Json
begin

text \<open>
  The Raft manager of \<^verbatim>\<open>internal/raft/manager.go\<close>: one Raft node for each topic, the JSON messages
  between brokers, and the write of a committed message into the fragments. The gRPC library is a parameter:
  \<open>dial\<close> says whether a connection object for an address can be made, and the requests that are handed to
  a connection are part of the result of a step.
\<close>

section \<open>Data\<close>

datatype topic_role = TOPIC_ROLE_UNSPECIFIED | TOPIC_ROLE_LEADER | TOPIC_ROLE_FOLLOWER

datatype raft_message_type =
  RMT_UNSPECIFIED | RMT_REQUEST_VOTE | RMT_REQUEST_VOTE_RESPONSE | RMT_APPEND_ENTRIES
| RMT_APPEND_ENTRIES_RESPONSE | RMT_COMMAND | RMT_COMMAND_RESPONSE

record message_command =
  mc_Topic :: string
  mc_MessageID :: u64
  mc_Payload :: bytes
  mc_Timestamp :: i64

text \<open>
  The dynamic type of a log entry's command: the pointer that \<^verbatim>\<open>ProposeMessage\<close> stores, or what
  \<^verbatim>\<open>json.Unmarshal\<close> makes of it when the target is an empty interface.
\<close>

datatype command = CmdMessage message_command | CmdJson json

datatype raft_wire =
  WVoteReq vote_request
| WVoteResp vote_response
| WAppendReq "command append_request"
| WAppendResp append_response
| WCommand message_command

record raft_request =
  rq_Topic :: string
  rq_FromPeerId :: string
  rq_MessageType :: raft_message_type
  rq_Payload :: "json option"

datatype raft_error =
  NoCluster | NotLeaderRole | NotLeader | UnknownMessage | NoPeer | DialFailed | UnmarshalFailed

record raft_response =
  rs_Topic :: string
  rs_ToPeerId :: string
  rs_MessageType :: raft_message_type
  rs_Success :: bool
  rs_Error :: "raft_error option"

record topic_cluster =
  tc_topic :: string
  tc_raftNode :: "command raft_node"
  tc_peers :: "(string \<times> string) list"
  tc_role :: topic_role
  tc_leaderAddr :: string
  tc_followers :: "string list"

record raft_manager =
  rm_brokerID :: string
  rm_brokerAddr :: string
  rm_clusters :: "string \<rightharpoonup> topic_cluster"
  rm_clients :: "string list"
  rm_fragmentMgr :: bool

section \<open>Clusters\<close>

definition NewRaftManager :: "string \<Rightarrow> string \<Rightarrow> raft_manager" where
  "NewRaftManager brokerID brokerAddr =
     \<lparr>rm_brokerID = brokerID, rm_brokerAddr = brokerAddr, rm_clusters = Map.empty, rm_clients = [], rm_fragmentMgr = False\<rparr>"

definition SetFragmentManager :: "raft_manager \<Rightarrow> raft_manager" where
  "SetFragmentManager rm = rm\<lparr>rm_fragmentMgr := True\<rparr>"

text \<open>
  Stopping a node while the manager's mutex is held: \<^verbatim>\<open>Stop\<close> waits for the started goroutines, and a
  goroutine that has not run yet will ask for the same mutex in its send function.
\<close>

definition stop_locked :: "command raft_node \<Rightarrow> command raft_node call" where
  "stop_locked n = bind_call (Stop n) (\<lambda>n'. if rn_tasks n' = [] then Returns n' else Blocks)"

definition follower_peers :: "string list \<Rightarrow> (string \<times> string) list" where
  "follower_peers followers = map (\<lambda>i. (''follower_'' @ itoa i, followers ! i)) [0..<length followers]"

definition role_peers :: "topic_role \<Rightarrow> string list \<Rightarrow> string \<Rightarrow> (string \<times> string) list" where
  "role_peers role followers leaderAddr =
     (if role = TOPIC_ROLE_LEADER then follower_peers followers
      else if role = TOPIC_ROLE_FOLLOWER then [(''leader'', leaderAddr)] else [])"

definition SetTopicRole ::
  "string \<Rightarrow> topic_role \<Rightarrow> string list \<Rightarrow> string \<Rightarrow> raft_manager \<Rightarrow> raft_manager call" where
  "SetTopicRole topic role followers leaderAddr rm =
     bind_call (case rm_clusters rm topic of None \<Rightarrow> Returns () | Some c \<Rightarrow> bind_call (stop_locked (tc_raftNode c)) (\<lambda>_. Returns ()))
       (\<lambda>_. let peers = role_peers role followers leaderAddr
            in Returns (rm\<lparr>rm_clusters := (rm_clusters rm)(topic \<mapsto>
                 \<lparr>tc_topic = topic, tc_raftNode = NewRaftNode (rm_brokerID rm) peers, tc_peers = peers, tc_role = role,
                  tc_leaderAddr = leaderAddr, tc_followers = followers\<rparr>)\<rparr>))"

definition RemoveTopic :: "string \<Rightarrow> raft_manager \<Rightarrow> raft_manager call" where
  "RemoveTopic topic rm =
     (case rm_clusters rm topic of
        None \<Rightarrow> Returns rm
      | Some c \<Rightarrow> bind_call (stop_locked (tc_raftNode c))
          (\<lambda>_. Returns (rm\<lparr>rm_clusters := (rm_clusters rm)(topic := None)\<rparr>)))"

definition set_raft_node :: "string \<Rightarrow> topic_cluster \<Rightarrow> command raft_node \<Rightarrow> raft_manager \<Rightarrow> raft_manager" where
  "set_raft_node topic c n rm = rm\<lparr>rm_clusters := (rm_clusters rm)(topic \<mapsto> c\<lparr>tc_raftNode := n\<rparr>)\<rparr>"

definition ProposeMessage ::
  "time \<Rightarrow> string \<Rightarrow> u64 \<Rightarrow> bytes \<Rightarrow> raft_manager \<Rightarrow> raft_error option \<times> raft_manager" where
  "ProposeMessage now topic messageID payload rm =
     (case rm_clusters rm topic of
        None \<Rightarrow> (Some NoCluster, rm)
      | Some c \<Rightarrow>
          if tc_role c \<noteq> TOPIC_ROLE_LEADER then (Some NotLeaderRole, rm)
          else case Propose (CmdMessage \<lparr>mc_Topic = topic, mc_MessageID = messageID, mc_Payload = payload,
                                         mc_Timestamp = word_of_int (Unix now)\<rparr>) (tc_raftNode c) of
                 (False, _) \<Rightarrow> (Some NotLeader, rm)
               | (True, n') \<Rightarrow> (None, set_raft_node topic c n' rm))"

definition GetTopicRole :: "string \<Rightarrow> raft_manager \<Rightarrow> topic_role" where
  "GetTopicRole topic rm = (case rm_clusters rm topic of None \<Rightarrow> TOPIC_ROLE_UNSPECIFIED | Some c \<Rightarrow> tc_role c)"

definition IsLeader :: "string \<Rightarrow> raft_manager \<Rightarrow> bool" where
  "IsLeader topic rm = (case rm_clusters rm topic of None \<Rightarrow> False | Some c \<Rightarrow> tc_role c = TOPIC_ROLE_LEADER)"

definition IsFollower :: "string \<Rightarrow> raft_manager \<Rightarrow> bool" where
  "IsFollower topic rm = (case rm_clusters rm topic of None \<Rightarrow> False | Some c \<Rightarrow> tc_role c = TOPIC_ROLE_FOLLOWER)"

section \<open>Messages\<close>

fun marshal_command :: "command option \<Rightarrow> json" where
  "marshal_command None = JNull"
| "marshal_command (Some (CmdJson j)) = j"
| "marshal_command (Some (CmdMessage m)) =
     JObj [(''Topic'', JStr (mc_Topic m)), (''MessageID'', JNum (uint (mc_MessageID m))),
           (''Payload'', JBytes (mc_Payload m)), (''Timestamp'', JNum (sint (mc_Timestamp m)))]"

definition marshal_entry :: "command log_entry \<Rightarrow> json" where
  "marshal_entry e = JObj [(''Term'', JNum (int (le_Term e))), (''Index'', JNum (int (le_Index e))),
     (''Command'', marshal_command (le_Command e))]"

fun serializeRaftMessage :: "raft_wire \<Rightarrow> json \<times> raft_message_type" where
  "serializeRaftMessage (WVoteReq q) =
     (JObj [(''Term'', JNum (int (vq_Term q))), (''CandidateID'', JStr (vq_CandidateID q)),
            (''LastLogIndex'', JNum (int (vq_LastLogIndex q))), (''LastLogTerm'', JNum (int (vq_LastLogTerm q)))],
      RMT_REQUEST_VOTE)"
| "serializeRaftMessage (WVoteResp r) =
     (JObj [(''Term'', JNum (int (vr_Term r))), (''VoteGranted'', JBool (vr_VoteGranted r))], RMT_REQUEST_VOTE_RESPONSE)"
| "serializeRaftMessage (WAppendReq q) =
     (JObj [(''Term'', JNum (int (aq_Term q))), (''LeaderID'', JStr (aq_LeaderID q)),
            (''PrevLogIndex'', JNum (int (aq_PrevLogIndex q))), (''PrevLogTerm'', JNum (int (aq_PrevLogTerm q))),
            (''Entries'', JArr (map marshal_entry (aq_Entries q))), (''LeaderCommit'', JNum (int (aq_LeaderCommit q)))],
      RMT_APPEND_ENTRIES)"
| "serializeRaftMessage (WAppendResp r) =
     (JObj [(''Term'', JNum (int (ar_Term r))), (''Success'', JBool (ar_Success r))], RMT_APPEND_ENTRIES_RESPONSE)"
| "serializeRaftMessage (WCommand m) = (marshal_command (Some (CmdMessage m)), RMT_COMMAND)"

definition un_interface :: "json \<Rightarrow> command option" where
  "un_interface j = (if j = JNull then None else Some (CmdJson j))"

definition un_entry :: "json \<Rightarrow> command log_entry option" where
  "un_entry j = Option.bind (un_struct j) (\<lambda>fs.
     Option.bind (un_u64 (field ''Term'' fs)) (\<lambda>t.
     Option.bind (un_u64 (field ''Index'' fs)) (\<lambda>i.
       Some \<lparr>le_Term = t, le_Index = i, le_Command = un_interface (field ''Command'' fs)\<rparr>)))"

fun un_entries :: "json \<Rightarrow> command log_entry list option" where
  "un_entries JNull = Some []"
| "un_entries (JArr js) = un_list un_entry js"
| "un_entries _ = None"

definition un_vote_request :: "json \<Rightarrow> vote_request option" where
  "un_vote_request j = Option.bind (un_struct j) (\<lambda>fs.
     Option.bind (un_u64 (field ''Term'' fs)) (\<lambda>t.
     Option.bind (un_string (field ''CandidateID'' fs)) (\<lambda>c.
     Option.bind (un_u64 (field ''LastLogIndex'' fs)) (\<lambda>li.
     Option.bind (un_u64 (field ''LastLogTerm'' fs)) (\<lambda>lt.
       Some \<lparr>vq_Term = t, vq_CandidateID = c, vq_LastLogIndex = li, vq_LastLogTerm = lt\<rparr>)))))"

definition un_vote_response :: "json \<Rightarrow> vote_response option" where
  "un_vote_response j = Option.bind (un_struct j) (\<lambda>fs.
     Option.bind (un_u64 (field ''Term'' fs)) (\<lambda>t.
     Option.bind (un_bool (field ''VoteGranted'' fs)) (\<lambda>g.
       Some \<lparr>vr_Term = t, vr_VoteGranted = g\<rparr>)))"

definition un_append_request :: "json \<Rightarrow> command append_request option" where
  "un_append_request j = Option.bind (un_struct j) (\<lambda>fs.
     Option.bind (un_u64 (field ''Term'' fs)) (\<lambda>t.
     Option.bind (un_string (field ''LeaderID'' fs)) (\<lambda>l.
     Option.bind (un_u64 (field ''PrevLogIndex'' fs)) (\<lambda>pi.
     Option.bind (un_u64 (field ''PrevLogTerm'' fs)) (\<lambda>pt.
     Option.bind (un_entries (field ''Entries'' fs)) (\<lambda>es.
     Option.bind (un_u64 (field ''LeaderCommit'' fs)) (\<lambda>c.
       Some \<lparr>aq_Term = t, aq_LeaderID = l, aq_PrevLogIndex = pi, aq_PrevLogTerm = pt, aq_Entries = es,
             aq_LeaderCommit = c\<rparr>)))))))"

definition un_append_response :: "json \<Rightarrow> append_response option" where
  "un_append_response j = Option.bind (un_struct j) (\<lambda>fs.
     Option.bind (un_u64 (field ''Term'' fs)) (\<lambda>t.
     Option.bind (un_bool (field ''Success'' fs)) (\<lambda>b.
       Some \<lparr>ar_Term = t, ar_Success = b\<rparr>)))"

definition un_command :: "json \<Rightarrow> message_command option" where
  "un_command j = Option.bind (un_struct j) (\<lambda>fs.
     Option.bind (un_string (field ''Topic'' fs)) (\<lambda>t.
     Option.bind (un_u64 (field ''MessageID'' fs)) (\<lambda>i.
     Option.bind (un_bytes (field ''Payload'' fs)) (\<lambda>p.
     Option.bind (un_i64 (field ''Timestamp'' fs)) (\<lambda>ts.
       Some \<lparr>mc_Topic = t, mc_MessageID = word_of_nat i, mc_Payload = p, mc_Timestamp = word_of_int ts\<rparr>)))))"

fun deserializeRaftMessage :: "raft_message_type \<Rightarrow> json option \<Rightarrow> raft_wire option" where
  "deserializeRaftMessage _ None = None"
| "deserializeRaftMessage RMT_REQUEST_VOTE (Some j) = map_option WVoteReq (un_vote_request j)"
| "deserializeRaftMessage RMT_REQUEST_VOTE_RESPONSE (Some j) = map_option WVoteResp (un_vote_response j)"
| "deserializeRaftMessage RMT_APPEND_ENTRIES (Some j) = map_option WAppendReq (un_append_request j)"
| "deserializeRaftMessage RMT_APPEND_ENTRIES_RESPONSE (Some j) = map_option WAppendResp (un_append_response j)"
| "deserializeRaftMessage RMT_COMMAND (Some j) = map_option WCommand (un_command j)"
| "deserializeRaftMessage _ (Some j) = None"

section \<open>Sending and applying\<close>

definition getOrCreateClient :: "(string \<Rightarrow> bool) \<Rightarrow> string \<Rightarrow> raft_manager \<Rightarrow> raft_error option \<times> raft_manager" where
  "getOrCreateClient dial addr rm =
     (if addr \<in> set (rm_clients rm) then (None, rm)
      else if dial addr then (None, rm\<lparr>rm_clients := addr # rm_clients rm\<rparr>)
      else (Some DialFailed, rm))"

text \<open>
  The function that \<^verbatim>\<open>createSendFunc\<close> returns, and \<^verbatim>\<open>sendRaftResponse\<close>, which is the same code: the
  request for the address of the peer, or an error.
\<close>

definition raft_send ::
  "(string \<Rightarrow> bool) \<Rightarrow> string \<Rightarrow> string \<Rightarrow> raft_wire \<Rightarrow> raft_manager \<Rightarrow> (raft_error + string \<times> raft_request) \<times> raft_manager" where
  "raft_send dial topic peerID m rm =
     (case rm_clusters rm topic of
        None \<Rightarrow> (Inl NoCluster, rm)
      | Some c \<Rightarrow>
          (case map_of (tc_peers c) peerID of
             None \<Rightarrow> (Inl NoPeer, rm)
           | Some addr \<Rightarrow>
               (case getOrCreateClient dial addr rm of
                  (Some e, rm1) \<Rightarrow> (Inl e, rm1)
                | (None, rm1) \<Rightarrow>
                    (case serializeRaftMessage m of (payload, ty) \<Rightarrow>
                       (Inr (addr, \<lparr>rq_Topic = topic, rq_FromPeerId = rm_brokerID rm1, rq_MessageType = ty, rq_Payload = Some payload\<rparr>),
                        rm1)))))"

definition sendRaftResponse ::
  "(string \<Rightarrow> bool) \<Rightarrow> string \<Rightarrow> string \<Rightarrow> raft_wire \<Rightarrow> raft_manager \<Rightarrow> (raft_error + string \<times> raft_request) \<times> raft_manager" where
  "sendRaftResponse dial topic peerID m rm = raft_send dial topic peerID m rm"

text \<open>
  The apply function: a command that is a \<^verbatim>\<open>*MessageCommand\<close> is written to the fragments, any other is
  ignored. \<open>clk\<close> are the clock readings of a write.
\<close>

fun apply_command :: "raft_manager \<Rightarrow> (nat \<Rightarrow> time) \<Rightarrow> command option \<Rightarrow> fragment_manager \<times> fsys \<Rightarrow> fragment_manager \<times> fsys" where
  "apply_command rm clk (Some (CmdMessage m)) (fm, fs) =
     (if rm_fragmentMgr rm
      then case WriteMessage clk (mc_Topic m) (mc_MessageID m) (mc_Payload m) fm fs of ((_, fm'), fs') \<Rightarrow> (fm', fs')
      else (fm, fs))"
| "apply_command rm clk _ s = s"

fun apply_commands :: "raft_manager \<Rightarrow> (nat \<Rightarrow> time) \<Rightarrow> command option list \<Rightarrow> fragment_manager \<times> fsys \<Rightarrow> fragment_manager \<times> fsys" where
  "apply_commands rm clk [] s = s"
| "apply_commands rm clk (c # cs) s = apply_commands rm clk cs (apply_command rm clk c s)"

definition HandleRaftMessage ::
  "(string \<Rightarrow> bool) \<Rightarrow> (nat \<Rightarrow> time) \<Rightarrow> string \<Rightarrow> raft_wire \<Rightarrow> raft_manager \<Rightarrow> fragment_manager \<times> fsys \<Rightarrow>
   (raft_error option \<times> (string \<times> raft_request) list \<times> raft_manager \<times> fragment_manager \<times> fsys) call" where
  "HandleRaftMessage dial clk topic message rm s =
     (case rm_clusters rm topic of
        None \<Rightarrow> Returns (Some NoCluster, [], rm, s)
      | Some c \<Rightarrow>
          (let n = tc_raftNode c;
               respond = (\<lambda>peerID m rm s.
                 case sendRaftResponse dial topic peerID m rm of
                   (Inl _, rm') \<Rightarrow> Returns (None, [], rm', s)
                 | (Inr pk, rm') \<Rightarrow> Returns (None, [pk], rm', s))
           in case message of
                WVoteReq q \<Rightarrow>
                  (case HandleRequestVote q n of (r, n') \<Rightarrow> respond ''voter'' (WVoteResp r) (set_raft_node topic c n' rm) s)
              | WVoteResp r \<Rightarrow> Returns (None, [], set_raft_node topic c (HandleRequestVoteResponse ''peer'' r n) rm, s)
              | WAppendReq q \<Rightarrow>
                  bind_call (HandleAppendEntries q n)
                    (\<lambda>(r, cs, n'). respond ''appender'' (WAppendResp r) (set_raft_node topic c n' rm) (apply_commands rm clk cs s))
              | WAppendResp r \<Rightarrow>
                  bind_call (HandleAppendEntriesResponse ''peer'' r n)
                    (\<lambda>(cs, n'). Returns (None, [], set_raft_node topic c n' rm, apply_commands rm clk cs s))
              | WCommand _ \<Rightarrow> Returns (Some UnknownMessage, [], rm, s)))"

definition HandleRaftRequest ::
  "(string \<Rightarrow> bool) \<Rightarrow> (nat \<Rightarrow> time) \<Rightarrow> raft_request \<Rightarrow> raft_manager \<Rightarrow> fragment_manager \<times> fsys \<Rightarrow>
   (raft_response \<times> (string \<times> raft_request) list \<times> raft_manager \<times> fragment_manager \<times> fsys) call" where
  "HandleRaftRequest dial clk q rm s =
     (let resp = (\<lambda>e. \<lparr>rs_Topic = rq_Topic q, rs_ToPeerId = rq_FromPeerId q, rs_MessageType = rq_MessageType q,
                      rs_Success = (e = None), rs_Error = e\<rparr>)
      in case deserializeRaftMessage (rq_MessageType q) (rq_Payload q) of
           None \<Rightarrow> Returns (resp (Some UnmarshalFailed), [], rm, s)
         | Some m \<Rightarrow>
             bind_call (HandleRaftMessage dial clk (rq_Topic q) m rm s)
               (\<lambda>(e, out, rm', s'). Returns (resp e, out, rm', s')))"

text \<open>A goroutine of a topic's node: the message is made from the node's state and sent.\<close>

definition run_raft_task ::
  "(string \<Rightarrow> bool) \<Rightarrow> string \<Rightarrow> nat \<Rightarrow> raft_manager \<Rightarrow> ((string \<times> raft_request) list \<times> raft_manager) call" where
  "run_raft_task dial topic k rm =
     (case rm_clusters rm topic of
        None \<Rightarrow> Returns ([], rm)
      | Some c \<Rightarrow>
          (let n = tc_raftNode c;
               rm1 = set_raft_node topic c (n\<lparr>rn_tasks := take k (rn_tasks n) @ drop (Suc k) (rn_tasks n)\<rparr>) rm;
               out = (\<lambda>r. case r of (Inl _, rm') \<Rightarrow> Returns ([], rm') | (Inr pk, rm') \<Rightarrow> Returns ([pk], rm'))
           in if length (rn_tasks n) \<le> k then Returns ([], rm)
              else case rn_tasks n ! k of
                     TaskVote p \<Rightarrow> out (raft_send dial topic p (WVoteReq (requestVote n)) rm1)
                   | TaskAppend p hb \<Rightarrow>
                       bind_call (sendAppendEntries p hb n) (\<lambda>q. out (raft_send dial topic p (WAppendReq q) rm1))))"

fun stop_clusters :: "string list \<Rightarrow> raft_manager \<Rightarrow> unit call" where
  "stop_clusters [] rm = Returns ()"
| "stop_clusters (t # ts) rm =
     (case rm_clusters rm t of
        None \<Rightarrow> stop_clusters ts rm
      | Some c \<Rightarrow> bind_call (stop_locked (tc_raftNode c)) (\<lambda>_. stop_clusters ts rm))"

definition Close :: "string list \<Rightarrow> raft_manager \<Rightarrow> raft_manager call" where
  "Close order rm = bind_call (stop_clusters order rm) (\<lambda>_. Returns (rm\<lparr>rm_clusters := Map.empty\<rparr>))"

section \<open>Messages in transit\<close>

definition command_in_transit :: "command option \<Rightarrow> command option" where
  "command_in_transit c = un_interface (marshal_command c)"

fun in_transit :: "raft_wire \<Rightarrow> raft_wire" where
  "in_transit (WAppendReq q) =
     WAppendReq (q\<lparr>aq_Entries := map (\<lambda>e. e\<lparr>le_Command := command_in_transit (le_Command e)\<rparr>) (aq_Entries q)\<rparr>)"
| "in_transit m = m"

text \<open>The numbers of a message fit their fields.\<close>

fun wire_ok :: "raft_wire \<Rightarrow> bool" where
  "wire_ok (WVoteReq q) \<longleftrightarrow> vq_Term q < 2 ^ 64 \<and> vq_LastLogIndex q < 2 ^ 64 \<and> vq_LastLogTerm q < 2 ^ 64"
| "wire_ok (WVoteResp r) \<longleftrightarrow> vr_Term r < 2 ^ 64"
| "wire_ok (WAppendReq q) \<longleftrightarrow> aq_Term q < 2 ^ 64 \<and> aq_PrevLogIndex q < 2 ^ 64 \<and> aq_PrevLogTerm q < 2 ^ 64 \<and>
     aq_LeaderCommit q < 2 ^ 64 \<and> (\<forall>e \<in> set (aq_Entries q). le_Term e < 2 ^ 64 \<and> le_Index e < 2 ^ 64)"
| "wire_ok (WAppendResp r) \<longleftrightarrow> ar_Term r < 2 ^ 64"
| "wire_ok (WCommand m) \<longleftrightarrow> True"

lemma un_entry_marshal:
  "le_Term e < 2 ^ 64 \<Longrightarrow> le_Index e < 2 ^ 64 \<Longrightarrow>
   un_entry (marshal_entry e) = Some (e\<lparr>le_Command := command_in_transit (le_Command e)\<rparr>)"
  by (simp add: un_entry_def marshal_entry_def command_in_transit_def)

lemma deserialize_serialize:
  assumes "wire_ok m"
  shows "deserializeRaftMessage (snd (serializeRaftMessage m)) (Some (fst (serializeRaftMessage m))) = Some (in_transit m)"
proof (cases m)
  case (WAppendReq q)
  have "un_list un_entry (map marshal_entry (aq_Entries q)) =
      Some (map (\<lambda>e. e\<lparr>le_Command := command_in_transit (le_Command e)\<rparr>) (aq_Entries q))"
    using assms WAppendReq by (intro un_list_map) (simp add: un_entry_marshal)
  then show ?thesis using assms WAppendReq by (simp add: un_append_request_def)
next
  case (WCommand c)
  have "uint (mc_MessageID c) < 2 ^ 64" "- (2 ^ 63) \<le> sint (mc_Timestamp c)" "sint (mc_Timestamp c) < 2 ^ 63"
    using uint_lt2p [of "mc_MessageID c"] sint_range_size [of "mc_Timestamp c"] by (simp_all add: word_size)
  then show ?thesis using WCommand by (simp add: un_command_def)
qed (use assms in \<open>auto simp: un_vote_request_def un_vote_response_def un_append_response_def\<close>)

text \<open>No command that came over the network is a \<^verbatim>\<open>*MessageCommand\<close>.\<close>

fun is_message :: "command option \<Rightarrow> bool" where
  "is_message (Some (CmdMessage m)) = True"
| "is_message _ = False"

lemma un_interface_no_message [simp]: "\<not> is_message (un_interface j)"
  by (simp add: un_interface_def)

lemma un_entries_no_message: "un_entries j = Some es \<Longrightarrow> e \<in> set es \<Longrightarrow> \<not> is_message (le_Command e)"
proof -
  have "un_list un_entry js = Some es \<Longrightarrow> e \<in> set es \<Longrightarrow> \<not> is_message (le_Command e)" for js es
    by (induction js arbitrary: es) (auto simp: un_entry_def bind_eq_Some_conv)
  then show "un_entries j = Some es \<Longrightarrow> e \<in> set es \<Longrightarrow> \<not> is_message (le_Command e)"
    by (cases j) auto
qed

lemma un_append_request_no_message: "un_append_request j = Some q \<Longrightarrow> e \<in> set (aq_Entries q) \<Longrightarrow> \<not> is_message (le_Command e)"
  using un_entries_no_message [of _ "aq_Entries q" e] by (fastforce simp: un_append_request_def bind_eq_Some_conv)

lemma apply_commands_none: "\<forall>c \<in> set cs. \<not> is_message c \<Longrightarrow> apply_commands rm clk cs s = s"
proof (induction cs)
  case (Cons c cs)
  then show ?case by (cases "(rm, clk, c, s)" rule: apply_command.cases) auto
qed simp

section \<open>Quiet nodes\<close>

text \<open>A node that is not a leader and whose log has no message that could be applied.\<close>

definition quiet :: "command raft_node \<Rightarrow> bool" where
  "quiet n \<longleftrightarrow> rn_state n \<noteq> Leader \<and> (\<forall>e \<in> set (rn_log n). \<not> is_message (le_Command e))"

lemma merge_entries_set: "merge_entries p i es log = Returns log' \<Longrightarrow> set log' \<subseteq> set log \<union> set es"
proof (induction es arbitrary: i log)
  case (Cons e es)
  then obtain log1 where m: "merge_entry (u64_add (u64_add p i) 1) e log = Returns log1" "merge_entries p (Suc i) es log1 = Returns log'"
    by (auto simp: bind_call_Returns)
  have "set log1 \<subseteq> insert e (set log)"
    using m(1) by (auto simp: merge_entry_def Let_def split: if_splits dest: in_set_takeD)
  with Cons.IH [OF m(2)] show ?case by auto
qed simp

lemma apply_loop_set: "apply_loop log c l a = Returns (l', a') \<Longrightarrow> set a' \<subseteq> set a \<union> le_Command ` set log"
proof (induction log c l a rule: apply_loop.induct)
  case (1 log c l a)
  show ?case
  proof (cases "l < c \<and> l < length log")
    case True
    then have "apply_loop log c (Suc l) (a @ [le_Command (log ! l)]) = Returns (l', a')"
      using 1(2) by (subst (asm) apply_loop.simps) simp
    with 1(1) True have "set a' \<subseteq> set (a @ [le_Command (log ! l)]) \<union> le_Command ` set log" by blast
    moreover have "le_Command (log ! l) \<in> le_Command ` set log" using True by simp
    ultimately show ?thesis by auto
  next
    case False
    then show ?thesis using 1(2) by (subst (asm) apply_loop.simps) (auto split: if_splits)
  qed
qed

lemma HandleAppendEntries_quiet:
  assumes "HandleAppendEntries q n = Returns (r, cs, n')" and "quiet n" and "\<forall>e \<in> set (aq_Entries q). \<not> is_message (le_Command e)"
  shows "quiet n' \<and> (\<forall>c \<in> set cs. \<not> is_message c)"
proof -
  have st: "rn_state n' \<noteq> Leader"
    using HandleAppendEntries_core [OF assms(1)] assms(2) by (auto simp: same_core_def step_down_def quiet_def)
  have "set (rn_log n') \<subseteq> set (rn_log n) \<union> set (aq_Entries q) \<and> set cs \<subseteq> le_Command ` set (rn_log n')"
    using assms(1)
    by (auto simp: HandleAppendEntries_eq Let_def bind_call_Returns applyLogs_def split: if_splits
        dest!: merge_entries_set apply_loop_set)
  then have "\<forall>e \<in> set (rn_log n'). \<not> is_message (le_Command e)" and cs: "set cs \<subseteq> le_Command ` set (rn_log n')"
    using assms(2,3) by (auto simp: quiet_def)
  with st show ?thesis by (auto simp: quiet_def)
qed

lemma HandleRequestVote_quiet: "quiet n \<Longrightarrow> quiet (snd (HandleRequestVote q n))"
  by (auto simp: quiet_def HandleRequestVote_def resetElectionTimer_def Let_def)

lemma run_round_quiet: "quiet n \<Longrightarrow> quiet (run_round fired n)"
  by (auto simp: quiet_def run_round_def runFollower_def runCandidate_def startElection_def resetElectionTimer_def Let_def
      split: raft_state.splits)

section \<open>Brokers that talk through their managers\<close>

text \<open>
  A system of brokers, by address, and the requests under way between them. The events are the calls
  that the rest of the program makes of a manager and the steps of the topics' nodes.
\<close>

record raft_sys =
  sys_brokers :: "string \<Rightarrow> raft_manager \<times> fragment_manager \<times> fsys"
  sys_net :: "(string \<times> raft_request) list"

datatype sys_event =
  SysSetRole string string topic_role "string list" string
| SysRemove string string
| SysPropose string time string u64 bytes
| SysRound string string bool
| SysTask string string nat
| SysDeliver nat

definition set_manager :: "string \<Rightarrow> raft_manager \<Rightarrow> raft_sys \<Rightarrow> raft_sys" where
  "set_manager a rm s = s\<lparr>sys_brokers := (sys_brokers s)(a := (rm, snd (sys_brokers s a)))\<rparr>"

fun sys_exec :: "(string \<Rightarrow> bool) \<Rightarrow> (nat \<Rightarrow> time) \<Rightarrow> sys_event \<Rightarrow> raft_sys \<Rightarrow> raft_sys call" where
  "sys_exec dial clk (SysSetRole a topic role followers leader) s =
     bind_call (SetTopicRole topic role followers leader (fst (sys_brokers s a))) (\<lambda>rm. Returns (set_manager a rm s))"
| "sys_exec dial clk (SysRemove a topic) s =
     bind_call (RemoveTopic topic (fst (sys_brokers s a))) (\<lambda>rm. Returns (set_manager a rm s))"
| "sys_exec dial clk (SysPropose a now topic i payload) s =
     Returns (set_manager a (snd (ProposeMessage now topic i payload (fst (sys_brokers s a)))) s)"
| "sys_exec dial clk (SysRound a topic fired) s =
     (let rm = fst (sys_brokers s a)
      in case rm_clusters rm topic of
           None \<Rightarrow> Returns s
         | Some c \<Rightarrow> Returns (set_manager a (set_raft_node topic c (run_round fired (tc_raftNode c)) rm) s))"
| "sys_exec dial clk (SysTask a topic k) s =
     bind_call (run_raft_task dial topic k (fst (sys_brokers s a)))
       (\<lambda>(out, rm). Returns ((set_manager a rm s)\<lparr>sys_net := sys_net s @ out\<rparr>))"
| "sys_exec dial clk (SysDeliver k) s =
     (if k < length (sys_net s) then
        (case sys_net s ! k of (a, q) \<Rightarrow>
           bind_call (HandleRaftRequest dial clk q (fst (sys_brokers s a)) (snd (sys_brokers s a)))
             (\<lambda>(_, out, rm, st). Returns (s\<lparr>sys_brokers := (sys_brokers s)(a := (rm, st)), sys_net := sys_net s @ out\<rparr>)))
      else Returns s)"

inductive sys_reachable :: "(string \<Rightarrow> bool) \<Rightarrow> (string \<Rightarrow> fragment_manager \<times> fsys) \<Rightarrow> raft_sys \<Rightarrow> bool" for dial store where
  sys_init: "sys_reachable dial store
    \<lparr>sys_brokers = (\<lambda>a. (SetFragmentManager (NewRaftManager (ids a) a), store a)), sys_net = []\<rparr>"
| sys_step: "sys_reachable dial store s \<Longrightarrow> sys_exec dial clk e s = Returns s' \<Longrightarrow> sys_reachable dial store s'"

definition manager_quiet :: "raft_manager \<Rightarrow> bool" where
  "manager_quiet rm \<longleftrightarrow> (\<forall>t c. rm_clusters rm t = Some c \<longrightarrow>
     quiet (tc_raftNode c) \<and> map_of (tc_peers c) ''voter'' = None \<and> map_of (tc_peers c) ''appender'' = None)"

definition request_quiet :: "string \<times> raft_request \<Rightarrow> bool" where
  "request_quiet pk \<longleftrightarrow> rq_MessageType (snd pk) \<in> {RMT_REQUEST_VOTE, RMT_APPEND_ENTRIES}"

definition sys_quiet :: "(string \<Rightarrow> fragment_manager \<times> fsys) \<Rightarrow> raft_sys \<Rightarrow> bool" where
  "sys_quiet store s \<longleftrightarrow> (\<forall>a. manager_quiet (fst (sys_brokers s a)) \<and> snd (sys_brokers s a) = store a) \<and>
     (\<forall>pk \<in> set (sys_net s). request_quiet pk)"

lemma role_peers_names: "map_of (role_peers role fs l) ''voter'' = None" "map_of (role_peers role fs l) ''appender'' = None"
  by (auto simp: role_peers_def follower_peers_def map_of_eq_None_iff)

lemma quiet_new: "quiet (NewRaftNode i peers)"
  by (simp add: quiet_def NewRaftNode_def)

lemma manager_quiet_set:
  "manager_quiet rm \<Longrightarrow> rm_clusters rm t = Some c \<Longrightarrow> quiet n \<Longrightarrow> manager_quiet (set_raft_node t c n rm)"
  by (auto simp: manager_quiet_def set_raft_node_def)

lemma manager_quiet_SetTopicRole: "manager_quiet rm \<Longrightarrow> SetTopicRole t role fs l rm = Returns rm' \<Longrightarrow> manager_quiet rm'"
  by (auto simp: manager_quiet_def SetTopicRole_def bind_call_Returns role_peers_names quiet_new Let_def split: if_splits)

lemma manager_quiet_RemoveTopic: "manager_quiet rm \<Longrightarrow> RemoveTopic t rm = Returns rm' \<Longrightarrow> manager_quiet rm'"
  by (auto simp: manager_quiet_def RemoveTopic_def bind_call_Returns split: option.splits if_splits)

lemma ProposeMessage_quiet:
  assumes "manager_quiet rm"
  shows "fst (ProposeMessage now t i p rm) \<noteq> None \<and> snd (ProposeMessage now t i p rm) = rm"
proof (cases "rm_clusters rm t")
  case (Some c)
  then have "rn_state (tc_raftNode c) \<noteq> Leader" using assms by (auto simp: manager_quiet_def quiet_def)
  then show ?thesis using Some by (simp add: ProposeMessage_def Propose_def)
qed (simp add: ProposeMessage_def)

lemma raft_send_quiet:
  assumes "manager_quiet rm" and "raft_send dial t p m rm = (r, rm')"
  shows "manager_quiet rm'" and "\<And>pk. r = Inr pk \<Longrightarrow> rq_MessageType (snd pk) = snd (serializeRaftMessage m)"
    and "p = ''voter'' \<or> p = ''appender'' \<Longrightarrow> \<exists>e. r = Inl e"
  using assms
  by (auto simp: raft_send_def getOrCreateClient_def manager_quiet_def split: option.splits if_splits prod.splits)

lemma run_raft_task_quiet:
  assumes "manager_quiet rm" and "run_raft_task dial t k rm = Returns (out, rm')"
  shows "manager_quiet rm' \<and> (\<forall>pk \<in> set out. request_quiet pk)"
proof (cases "rm_clusters rm t")
  case (Some c)
  let ?n = "tc_raftNode c"
  define rm1 where "rm1 = set_raft_node t c (?n\<lparr>rn_tasks := take k (rn_tasks ?n) @ drop (Suc k) (rn_tasks ?n)\<rparr>) rm"
  have "quiet ?n" using assms(1) Some by (auto simp: manager_quiet_def)
  then have q: "manager_quiet rm1"
    using manager_quiet_set [OF assms(1) Some] by (simp add: rm1_def quiet_def)
  have send: "manager_quiet rm' \<and> (\<forall>pk \<in> set out. request_quiet pk)"
    if "(case raft_send dial t p m rm1 of (Inl _, rm') \<Rightarrow> Returns ([], rm') | (Inr pk, rm') \<Rightarrow> Returns ([pk], rm')) = Returns (out, rm')"
      "snd (serializeRaftMessage m) \<in> {RMT_REQUEST_VOTE, RMT_APPEND_ENTRIES}" for p m
  proof -
    obtain r rm2 where r: "raft_send dial t p m rm1 = (r, rm2)" by force
    then show ?thesis
      using that raft_send_quiet(1,2) [OF q r] by (cases r) (auto simp: request_quiet_def)
  qed
  show ?thesis
  proof (cases "length (rn_tasks ?n) \<le> k")
    case True
    then show ?thesis using assms Some by (simp add: run_raft_task_def)
  next
    case False
    show ?thesis
    proof (cases "rn_tasks ?n ! k")
      case (TaskVote p)
      then show ?thesis
        using assms(2) Some False by (intro send [of p "WVoteReq (requestVote ?n)"]) (simp_all add: run_raft_task_def rm1_def Let_def)
    next
      case (TaskAppend p hb)
      then obtain q where "sendAppendEntries p hb ?n = Returns q"
        using assms(2) Some False by (auto simp: run_raft_task_def bind_call_Returns Let_def)
      then show ?thesis
        using assms(2) Some False TaskAppend by (intro send [of p "WAppendReq q"]) (simp_all add: run_raft_task_def rm1_def Let_def)
    qed
  qed
qed (use assms in \<open>simp add: run_raft_task_def\<close>)

lemma HandleRaftMessage_quiet:
  assumes rm: "manager_quiet rm" and run: "HandleRaftMessage dial clk t m rm st = Returns (e, out, rm', st')"
    and m: "(\<exists>q. m = WVoteReq q) \<or> (\<exists>q. m = WAppendReq q \<and> (\<forall>x \<in> set (aq_Entries q). \<not> is_message (le_Command x)))"
  shows "manager_quiet rm' \<and> out = [] \<and> st' = st"
proof (cases "rm_clusters rm t")
  case None
  then show ?thesis using assms by (simp add: HandleRaftMessage_def)
next
  case (Some c)
  have n: "quiet (tc_raftNode c)" using rm Some by (auto simp: manager_quiet_def)
  have respond: "manager_quiet rm' \<and> out = [] \<and> st' = st2"
    if "(case sendRaftResponse dial t p w rm2 of (Inl _, rm3) \<Rightarrow> Returns (None, [], rm3, st2) | (Inr pk, rm3) \<Rightarrow> Returns (None, [pk], rm3, st2))
        = Returns (e, out, rm', st')" "manager_quiet rm2" "p = ''voter'' \<or> p = ''appender''" for p w rm2 st2
  proof -
    obtain r rm3 where r: "raft_send dial t p w rm2 = (r, rm3)" by force
    then show ?thesis
      using that raft_send_quiet [OF that(2) r] by (auto simp: sendRaftResponse_def)
  qed
  show ?thesis
  proof (cases m)
    case (WVoteReq q)
    then show ?thesis
      using run Some manager_quiet_set [OF rm Some HandleRequestVote_quiet [OF n, of q]]
      by (intro respond [where p = "''voter''" and w = "WVoteResp (fst (HandleRequestVote q (tc_raftNode c)))"
            and ?rm2.0 = "set_raft_node t c (snd (HandleRequestVote q (tc_raftNode c))) rm" and ?st2.0 = st])
        (auto simp: HandleRaftMessage_def Let_def split: prod.splits)
  next
    case (WAppendReq q)
    then obtain r cs n' where h: "HandleAppendEntries q (tc_raftNode c) = Returns (r, cs, n')"
      using run Some by (auto simp: HandleRaftMessage_def Let_def bind_call_Returns)
    have h': "quiet n'" "\<forall>x \<in> set cs. \<not> is_message x"
      using HandleAppendEntries_quiet [OF h n] m WAppendReq by auto
    have "manager_quiet rm' \<and> out = [] \<and> st' = apply_commands rm clk cs st"
      using run Some WAppendReq h manager_quiet_set [OF rm Some h'(1)]
      by (intro respond [where p = "''appender''" and w = "WAppendResp r" and ?rm2.0 = "set_raft_node t c n' rm"])
        (auto simp: HandleRaftMessage_def Let_def)
    then show ?thesis by (simp add: apply_commands_none [OF h'(2)])
  qed (use m in auto)
qed

lemma sys_quiet_step:
  assumes "sys_quiet store s" and "sys_exec dial clk e s = Returns s'"
  shows "sys_quiet store s'"
proof -
  have q: "manager_quiet (fst (sys_brokers s a))" "snd (sys_brokers s a) = store a" for a
    using assms(1) by (auto simp: sys_quiet_def)
  have upd: "sys_quiet store ((set_manager a rm s)\<lparr>sys_net := sys_net s @ out\<rparr>)"
    if "manager_quiet rm" "\<forall>pk \<in> set out. request_quiet pk" for a rm out
    using assms(1) that by (auto simp: sys_quiet_def set_manager_def)
  have upd0: "sys_quiet store (set_manager a rm s)" if "manager_quiet rm" for a rm
    using assms(1) that by (auto simp: sys_quiet_def set_manager_def)
  show ?thesis
  proof (cases e)
    case (SysSetRole a t role fs l)
    then show ?thesis using assms(2) upd0 manager_quiet_SetTopicRole [OF q(1)] by (auto simp: bind_call_Returns)
  next
    case (SysRemove a t)
    then show ?thesis using assms(2) upd0 manager_quiet_RemoveTopic [OF q(1)] by (auto simp: bind_call_Returns)
  next
    case (SysPropose a now t i p)
    then show ?thesis using assms(2) upd0 q(1) ProposeMessage_quiet [OF q(1)] by auto
  next
    case (SysRound a t fired)
    show ?thesis
    proof (cases "rm_clusters (fst (sys_brokers s a)) t")
      case (Some c)
      then have "quiet (tc_raftNode c)" using q(1) [of a] by (auto simp: manager_quiet_def)
      then show ?thesis
        using assms(2) SysRound Some upd0 manager_quiet_set [OF q(1) Some run_round_quiet] by (auto simp: Let_def)
    qed (use assms SysRound in auto)
  next
    case (SysTask a t k)
    then show ?thesis using assms(2) upd run_raft_task_quiet [OF q(1)] by (auto simp: bind_call_Returns)
  next
    case (SysDeliver k)
    show ?thesis
    proof (cases "k < length (sys_net s)")
      case True
      obtain a r where pk: "sys_net s ! k = (a, r)" by force
      then have ty: "rq_MessageType r \<in> {RMT_REQUEST_VOTE, RMT_APPEND_ENTRIES}"
        using assms(1) True by (force simp: sys_quiet_def request_quiet_def dest: nth_mem)
      obtain resp out rm st where h: "HandleRaftRequest dial clk r (fst (sys_brokers s a)) (snd (sys_brokers s a)) = Returns (resp, out, rm, st)"
        "s' = s\<lparr>sys_brokers := (sys_brokers s)(a := (rm, st)), sys_net := sys_net s @ out\<rparr>"
        using assms(2) SysDeliver True pk by (auto simp: bind_call_Returns)
      have "manager_quiet rm \<and> out = [] \<and> st = snd (sys_brokers s a)"
      proof (cases "deserializeRaftMessage (rq_MessageType r) (rq_Payload r)")
        case None
        then show ?thesis using h(1) q(1) [of a] by (auto simp: HandleRaftRequest_def)
      next
        case (Some m)
        then have m: "(\<exists>q. m = WVoteReq q) \<or> (\<exists>q. m = WAppendReq q \<and> (\<forall>x \<in> set (aq_Entries q). \<not> is_message (le_Command x)))"
          using ty by (cases "rq_Payload r") (auto simp: un_append_request_no_message)
        from Some h(1) obtain e where
          "HandleRaftMessage dial clk (rq_Topic r) m (fst (sys_brokers s a)) (snd (sys_brokers s a)) = Returns (e, out, rm, st)"
          by (auto simp: HandleRaftRequest_def bind_call_Returns)
        from HandleRaftMessage_quiet [OF q(1) this m] show ?thesis .
      qed
      then show ?thesis using assms(1) h(2) q(2) by (auto simp: sys_quiet_def)
    qed (use assms SysDeliver in auto)
  qed
qed

lemma sys_reachable_quiet: "sys_reachable dial store s \<Longrightarrow> sys_quiet store s"
proof (induction rule: sys_reachable.induct)
  case (sys_init ids)
  then show ?case by (simp add: sys_quiet_def manager_quiet_def SetFragmentManager_def NewRaftManager_def)
next
  case (sys_step s clk e s')
  then show ?case using sys_quiet_step by blast
qed

section \<open>Properties\<close>

text \<open>
  C37: Through the managers no topic ever has a leader. Votes and acknowledgements are addressed to the
  peers \<^verbatim>\<open>voter\<close> and \<^verbatim>\<open>appender\<close>, which no peer map contains, so they are never sent. In every
  reachable state of any number of brokers, whatever roles were set and whatever else happened, no
  node is a leader, every \<^verbatim>\<open>ProposeMessage\<close> is refused, and no fragment was ever written through Raft.
\<close>

theorem no_leader_through_managers:
  assumes "sys_reachable dial store s"
  shows "(\<forall>a t c. rm_clusters (fst (sys_brokers s a)) t = Some c \<longrightarrow> rn_state (tc_raftNode c) \<noteq> Leader) \<and>
    (\<forall>a now t i p. fst (ProposeMessage now t i p (fst (sys_brokers s a))) \<noteq> None) \<and>
    (\<forall>a. snd (sys_brokers s a) = store a)"
proof -
  have q: "sys_quiet store s" by (rule sys_reachable_quiet [OF assms])
  then have "rn_state (tc_raftNode c) \<noteq> Leader" if "rm_clusters (fst (sys_brokers s a)) t = Some c" for a t c
    using that by (auto simp: sys_quiet_def manager_quiet_def quiet_def)
  moreover have "fst (ProposeMessage now t i p (fst (sys_brokers s a))) \<noteq> None" for a now t i p
    using q ProposeMessage_quiet by (auto simp: sys_quiet_def)
  ultimately show ?thesis using q by (auto simp: sys_quiet_def)
qed

theorem no_leader_through_managers_witness:
  "\<exists>s. sys_reachable (\<lambda>_. True) (\<lambda>_. (NewFragmentManager ''data'' 1 1 0, empty_fs)) s \<and>
    GetTopicRole ''t'' (fst (sys_brokers s ''h1'')) = TOPIC_ROLE_LEADER \<and>
    fst (ProposeMessage 0 ''t'' 1 [] (fst (sys_brokers s ''h1''))) \<noteq> None"
proof -
  let ?store = "\<lambda>_ :: string. (NewFragmentManager ''data'' 1 1 0, empty_fs)"
  let ?s0 = "\<lparr>sys_brokers = (\<lambda>a. (SetFragmentManager (NewRaftManager a a), ?store a)), sys_net = []\<rparr>"
  obtain s where s: "sys_exec (\<lambda>_. True) (\<lambda>_. 0) (SysSetRole ''h1'' ''t'' TOPIC_ROLE_LEADER [''h2''] ''h1'') ?s0 = Returns s"
    "GetTopicRole ''t'' (fst (sys_brokers s ''h1'')) = TOPIC_ROLE_LEADER"
    by (simp add: SetTopicRole_def SetFragmentManager_def NewRaftManager_def set_manager_def GetTopicRole_def Let_def)
  have r: "sys_reachable (\<lambda>_. True) ?store s"
    by (rule sys_reachable.sys_step [OF sys_reachable.sys_init [where ids = "\<lambda>a. a"] s(1)])
  from no_leader_through_managers [OF r] r s(2) show ?thesis by blast
qed



text \<open>
  Setting a role again can hang the broker. \<^verbatim>\<open>SetTopicRole\<close> stops the topic's old node while it holds the
  manager's mutex, and the node's goroutines need that mutex to send: the call waits for ever
  exactly when the old node still has a goroutine that has not sent.
\<close>

theorem SetTopicRole_blocks_iff:
  "SetTopicRole topic role followers leaderAddr rm = Blocks \<longleftrightarrow>
     (\<exists>c. rm_clusters rm topic = Some c \<and> \<not> rn_stopped (tc_raftNode c) \<and> rn_tasks (tc_raftNode c) \<noteq> [])"
  by (cases "rm_clusters rm topic") (auto simp: SetTopicRole_def stop_locked_def Stop_def Let_def)

end
