(* ===== verification/BrokerServer.thy ===== *)
theory BrokerServer
  imports WAL RaftManager
begin

text \<open>
  The broker of \<^verbatim>\<open>broker/server.go\<close>: it owns a fragment manager, a write-ahead log and a Raft manager,
  and serves the RPCs of \<^verbatim>\<open>BrokerService\<close>. The mutex of the server is released by every call that
  returns, so a handler is one step; a handler that does not return keeps it. A gRPC stream is the
  list of what is received on it, and what is sent on it is part of the result.
\<close>

section \<open>State\<close>

datatype response_status = STATUS_SUCCESS | STATUS_ERROR | STATUS_RETRY

record message_request =
  mq_Topic :: string
  mq_Payload :: bytes
  mq_MessageId :: u64

record message_response =
  mr_MessageId :: u64
  mr_Status :: response_status

record pull_request =
  pq_Topic :: string
  pq_Offset :: u64
  pq_BatchSize :: u32

record pulled_message =
  pm_MessageId :: u64
  pm_Topic :: string
  pm_Payload :: bytes
  pm_Offset :: u64
  pm_Seconds :: i64

record fragment_chunk =
  fc_Topic :: string
  fc_FragmentId :: u64
  fc_ChunkIndex :: u32
  fc_Data :: bytes
  fc_IsLast :: bool
  fc_Checksum :: bytes

datatype broker_error =
  BWal wal_error | BFragment frag_error | BTopicRemoved | BNotReplica | BStream | BNoChunk | BRaft raft_error | BListen

text \<open>The map \<^verbatim>\<open>topics\<close> only ever holds \<^verbatim>\<open>true\<close>: it is the list of its keys.\<close>

record broker_server =
  bs_brokerID :: string
  bs_address :: string
  bs_fm :: fragment_manager
  bs_wal :: wal
  bs_rm :: raft_manager
  bs_messageCounter :: u64
  bs_topics :: "string list"
  bs_topicRoles :: "string \<rightharpoonup> topic_role"
  bs_stopped :: bool
  bs_grpcServer :: bool

section \<open>Start and recovery\<close>

text \<open>
  The handler of the replay. A message is written to the fragments with the time of the replay; the
  readings \<open>clk\<close> of the clock are the same for all writes of one replay.
\<close>

definition replay_entry :: "(nat \<Rightarrow> time) \<Rightarrow> wal_entry \<Rightarrow> broker_server \<times> fsys \<Rightarrow> bool \<times> broker_server \<times> fsys" where
  "replay_entry clk e s =
     (case s of (bs, fs) \<Rightarrow>
        if we_Type e = 1 then
          (case Fragment.WriteMessage clk (we_Topic e) (we_MessageID e) (we_Payload e) (bs_fm bs) fs of
             ((Some _, fm'), fs') \<Rightarrow> (False, bs\<lparr>bs_fm := fm'\<rparr>, fs')
           | ((None, fm'), fs') \<Rightarrow>
               (True,
                bs\<lparr>bs_fm := fm',
                   bs_messageCounter := (if bs_messageCounter bs < we_MessageID e then we_MessageID e else bs_messageCounter bs),
                   bs_topics := List.insert (we_Topic e) (bs_topics bs),
                   bs_topicRoles := (bs_topicRoles bs)(we_Topic e \<mapsto> RaftManager.GetTopicRole (we_Topic e) (bs_rm bs))\<rparr>, fs'))
        else if we_Type e = 2 then
          (case CloseTopic (we_Topic e) (bs_fm bs) fs of
             (fm', fs') \<Rightarrow>
               (True, bs\<lparr>bs_fm := fm', bs_topics := removeAll (we_Topic e) (bs_topics bs),
                         bs_topicRoles := (bs_topicRoles bs)(we_Topic e := None)\<rparr>, fs'))
        else (True, bs, fs))"

definition replayWAL :: "(nat \<Rightarrow> time) \<Rightarrow> broker_server \<Rightarrow> fsys \<Rightarrow> broker_server \<times> fsys" where
  "replayWAL clk bs fs = Replay (replay_entry clk) (bs_wal bs) (bs, fs)"

definition NewBrokerServer ::
  "string \<Rightarrow> (nat \<Rightarrow> time) \<Rightarrow> string \<Rightarrow> string \<Rightarrow> string \<Rightarrow> fsys \<Rightarrow> ((broker_error + broker_server) \<times> fsys) call" where
  "NewBrokerServer stamp clk brokerID address dataDir fs =
     (let fragmentMgr = NewFragmentManager (dataDir @ ''/fragments'') (128 * 1024 * 1024) 10000
                          (7 * 24 * 3600 * 1000000000)
      in bind_call (NewWAL stamp (dataDir @ ''/wal'') (128 * 1024 * 1024) (2 * 1000000000) fs)
           (\<lambda>(r, fs1). case r of
              Inl e \<Rightarrow> Returns (Inl (BWal e), fs1)
            | Inr w \<Rightarrow>
                (let server = \<lparr>bs_brokerID = brokerID, bs_address = address, bs_fm = fragmentMgr, bs_wal = w,
                               bs_rm = SetFragmentManager (NewRaftManager brokerID address), bs_messageCounter = 0,
                               bs_topics = [], bs_topicRoles = Map.empty, bs_stopped = False, bs_grpcServer = False\<rparr>
                 in case replayWAL clk server fs1 of (server', fs2) \<Rightarrow> Returns (Inr server', fs2))))"

text \<open>\<^verbatim>\<open>Start\<close>: \<open>listen\<close> says whether the port could be opened; the gRPC server then runs in its own goroutine.\<close>

definition Start :: "bool \<Rightarrow> broker_server \<Rightarrow> broker_error option \<times> broker_server" where
  "Start listen bs = (if \<not> listen then (Some BListen, bs) else (None, bs\<lparr>bs_grpcServer := True\<rparr>))"

text \<open>
  \<^verbatim>\<open>Stop\<close> closes the parts one after the other; \<open>order\<close> and \<open>order'\<close> are the iteration orders of the two maps. Nothing is
  ever added to the wait group. \<open>graceful\<close> is the call of \<^verbatim>\<open>GracefulStop\<close> of gRPC, during which the handlers of open streams
  still run.
\<close>

definition Stop ::
  "(broker_server \<times> fsys \<Rightarrow> (broker_server \<times> fsys) call) \<Rightarrow> string list \<Rightarrow> string list \<Rightarrow> broker_server \<Rightarrow> fsys \<Rightarrow>
   (broker_server \<times> fsys) call" where
  "Stop graceful order order' bs fs =
     (if bs_stopped bs then Panics
      else
        let bs1 = bs\<lparr>bs_stopped := True\<rparr>
        in bind_call (if bs_grpcServer bs1 then graceful (bs1, fs) else Returns (bs1, fs))
             (\<lambda>(bs2, fs0). bind_call (Fragment.Close order (bs_fm bs2) fs0)
               (\<lambda>(fm', fs1). bind_call (WAL.Close (bs_wal bs2) fs1)
                 (\<lambda>((_, w'), fs2). bind_call (RaftManager.Close order' (bs_rm bs2))
                   (\<lambda>rm'. Returns (bs2\<lparr>bs_fm := fm', bs_wal := w', bs_rm := rm'\<rparr>, fs2))))))"

section \<open>Messages\<close>

definition retry :: "message_request \<Rightarrow> message_response" where
  "retry q = \<lparr>mr_MessageId = mq_MessageId q, mr_Status = STATUS_RETRY\<rparr>"

text \<open>The message is counted and logged before Raft is asked; the fragments are written last.\<close>

definition processMessage ::
  "string \<Rightarrow> time \<Rightarrow> (nat \<Rightarrow> time) \<Rightarrow> message_request \<Rightarrow> broker_server \<Rightarrow> fsys \<Rightarrow>
   (((broker_error + message_response) \<times> broker_server) \<times> fsys) call" where
  "processMessage stamp now clk q bs fs =
     (if mq_Topic q \<notin> set (bs_topics bs) then Returns ((Inr (retry q), bs), fs)
      else if \<not> IsLeader (mq_Topic q) (bs_rm bs) then Returns ((Inr (retry q), bs), fs)
      else
        let messageID = bs_messageCounter bs + 1;
            bs1 = bs\<lparr>bs_messageCounter := messageID,
                     bs_topics := List.insert (mq_Topic q) (bs_topics bs),
                     bs_topicRoles := (bs_topicRoles bs)(mq_Topic q \<mapsto> RaftManager.GetTopicRole (mq_Topic q) (bs_rm bs))\<rparr>
        in bind_call (WAL.WriteMessage stamp now (mq_Topic q) messageID (mq_Payload q) (bs_wal bs1) fs)
             (\<lambda>((r, w), fs1).
               let bs2 = bs1\<lparr>bs_wal := w\<rparr>
               in case r of
                    Some e \<Rightarrow> Returns ((Inl (BWal e), bs2), fs1)
                  | None \<Rightarrow>
                      (case ProposeMessage now (mq_Topic q) messageID (mq_Payload q) (bs_rm bs2) of
                         (Some _, rm') \<Rightarrow> Returns ((Inr (retry q), bs2\<lparr>bs_rm := rm'\<rparr>), fs1)
                       | (None, rm') \<Rightarrow>
                           (case Fragment.WriteMessage clk (mq_Topic q) messageID (mq_Payload q) (bs_fm bs2) fs1 of
                              ((Some e, fm'), fs2) \<Rightarrow> Returns ((Inl (BFragment e), bs2\<lparr>bs_rm := rm', bs_fm := fm'\<rparr>), fs2)
                            | ((None, fm'), fs2) \<Rightarrow>
                                Returns ((Inr \<lparr>mr_MessageId = messageID, mr_Status = STATUS_SUCCESS\<rparr>,
                                          bs2\<lparr>bs_rm := rm', bs_fm := fm'\<rparr>), fs2)))))"

text \<open>
  A request on a stream, with the readings of the clock while it is processed and whether its response can be sent; and
  what a round of a stream loop finds.
\<close>

record arrival =
  ar_request :: message_request
  ar_stamp :: string
  ar_now :: time
  ar_clk :: "nat \<Rightarrow> time"
  ar_sent :: bool

datatype stream_round = RoundCancelled | RoundStopped | RoundFailed | RoundEOF | Arrives arrival

datatype stream_end = StreamOpen | StreamEnded "broker_error option"

definition answer :: "message_request \<Rightarrow> broker_error + message_response \<Rightarrow> message_response" where
  "answer q r = (case r of Inr resp \<Rightarrow> resp | Inl _ \<Rightarrow> \<lparr>mr_MessageId = mq_MessageId q, mr_Status = STATUS_ERROR\<rparr>)"

text \<open>
  The stream loop: every request gets a response, an error of \<^verbatim>\<open>processMessage\<close> too. A list of rounds that ends no
  stream leaves it open.
\<close>

fun SendMessage ::
  "stream_round list \<Rightarrow> broker_server \<Rightarrow> fsys \<Rightarrow> ((message_response list \<times> stream_end \<times> broker_server) \<times> fsys) call" where
  "SendMessage [] bs fs = Returns (([], StreamOpen, bs), fs)"
| "SendMessage (RoundCancelled # rs) bs fs = Returns (([], StreamEnded (Some BStream), bs), fs)"
| "SendMessage (RoundStopped # rs) bs fs = Returns (([], StreamEnded None, bs), fs)"
| "SendMessage (RoundFailed # rs) bs fs = Returns (([], StreamEnded (Some BStream), bs), fs)"
| "SendMessage (RoundEOF # rs) bs fs = Returns (([], StreamEnded None, bs), fs)"
| "SendMessage (Arrives a # rs) bs fs =
     bind_call (processMessage (ar_stamp a) (ar_now a) (ar_clk a) (ar_request a) bs fs)
       (\<lambda>((r, bs1), fs1).
         if \<not> ar_sent a then Returns (([], StreamEnded (Some BStream), bs1), fs1)
         else bind_call (SendMessage rs bs1 fs1)
                (\<lambda>((resps, e, bs2), fs2). Returns ((answer (ar_request a) r # resps, e, bs2), fs2)))"

text \<open>
  Sending the messages of a pull: \<open>ok i\<close> is what happens to message \<open>i\<close>. A cancelled stream and a send that fails are
  errors, a server that stops ends the loop without one. The offset counts up with every message sent.
\<close>

datatype send_outcome = Sent | SendStopped | SendFailed

fun send_pulled ::
  "(nat \<Rightarrow> send_outcome) \<Rightarrow> nat \<Rightarrow> string \<Rightarrow> u64 \<Rightarrow> message_entry list \<Rightarrow> pulled_message list \<times> broker_error option" where
  "send_pulled ok i topic offset [] = ([], None)"
| "send_pulled ok i topic offset (m # ms) =
     (case ok i of
        SendStopped \<Rightarrow> ([], None)
      | SendFailed \<Rightarrow> ([], Some BStream)
      | Sent \<Rightarrow>
          (case send_pulled ok (Suc i) topic (offset + 1) ms of
             (sent, r) \<Rightarrow>
               (\<lparr>pm_MessageId = me_MessageID m, pm_Topic = topic, pm_Payload = me_Payload m, pm_Offset = offset,
                 pm_Seconds = me_Timestamp m\<rparr> # sent, r)))"

definition PullMessage ::
  "(nat \<Rightarrow> send_outcome) \<Rightarrow> pull_request \<Rightarrow> broker_server \<Rightarrow> fsys \<Rightarrow> (pulled_message list \<times> broker_error option) \<times> fsys" where
  "PullMessage ok q bs fs =
     (if pq_Topic q \<notin> set (bs_topics bs) then (([], Some BTopicRemoved), fs)
      else
        let role = RaftManager.GetTopicRole (pq_Topic q) (bs_rm bs)
        in if role \<noteq> TOPIC_ROLE_LEADER \<and> role \<noteq> TOPIC_ROLE_FOLLOWER then (([], Some BNotReplica), fs)
           else case ReadMessages (pq_Topic q) (pq_Offset q) (uint (pq_BatchSize q)) (bs_fm bs) fs of
                  (messages, fs1) \<Rightarrow>
                    (send_pulled ok 0 (pq_Topic q) (pq_Offset q) messages, fs1))"

section \<open>Fragment replication\<close>

definition chunkSize :: nat where
  "chunkSize = 1 * 1024 * 1024"

function chunk_loop :: "(bytes \<Rightarrow> bytes) \<Rightarrow> string \<Rightarrow> u64 \<Rightarrow> bytes \<Rightarrow> nat \<Rightarrow> u32 \<Rightarrow> fragment_chunk list" where
  "chunk_loop md5 topic fragmentID data i chunkIndex =
     (if i < length data then
        let e = (if length data < i + chunkSize then length data else i + chunkSize);
            d = take (e - i) (drop i data)
        in \<lparr>fc_Topic = topic, fc_FragmentId = fragmentID, fc_ChunkIndex = chunkIndex, fc_Data = d,
            fc_IsLast = (e = length data), fc_Checksum = md5 d\<rparr>
           # chunk_loop md5 topic fragmentID data (i + chunkSize) (chunkIndex + 1)
      else [])"
  by pat_completeness auto
termination
  by (relation "measure (\<lambda>(_, _, _, data, i, _). length data - i)") (auto simp: chunkSize_def)

declare chunk_loop.simps [simp del]

text \<open>
  \<^verbatim>\<open>SendFragmentToTarget\<close>: \<open>remote\<close> is the target's answer to the stream of chunks, which may change the
  state \<open>'r\<close> of the target.
\<close>

definition SendFragmentToTarget ::
  "(bytes \<Rightarrow> bytes) \<Rightarrow> (fragment_chunk list \<Rightarrow> 'r \<Rightarrow> bool \<times> 'r) \<Rightarrow> string \<Rightarrow> u64 \<Rightarrow> broker_server \<Rightarrow> fsys \<Rightarrow> 'r \<Rightarrow>
   (broker_error option \<times> fsys) \<times> 'r" where
  "SendFragmentToTarget md5 remote topic fragmentID bs fs r =
     (case ReadFragmentFile topic fragmentID (bs_fm bs) fs of
        (Inl e, fs1) \<Rightarrow> ((Some (BFragment e), fs1), r)
      | (Inr data, fs1) \<Rightarrow>
          (case remote (chunk_loop md5 topic fragmentID data 0 0) r of
             (ok, r') \<Rightarrow> ((if ok then None else Some BStream, fs1), r')))"

fun send_fragments ::
  "(bytes \<Rightarrow> bytes) \<Rightarrow> (fragment_chunk list \<Rightarrow> 'r \<Rightarrow> bool \<times> 'r) \<Rightarrow> string \<Rightarrow> fragment list \<Rightarrow> broker_server \<Rightarrow> fsys \<Rightarrow> 'r \<Rightarrow>
   (broker_error option \<times> fsys) \<times> 'r" where
  "send_fragments md5 remote topic [] bs fs r = ((None, fs), r)"
| "send_fragments md5 remote topic (fr # frs) bs fs r =
     (if IsFragmentFullyConsumed topic (fr_ID fr) then send_fragments md5 remote topic frs bs fs r
      else case SendFragmentToTarget md5 remote topic (fr_ID fr) bs fs r of
             ((Some e, fs1), r1) \<Rightarrow> ((Some e, fs1), r1)
           | ((None, fs1), r1) \<Rightarrow> send_fragments md5 remote topic frs bs fs1 r1)"

definition ReplicateFragments ::
  "(bytes \<Rightarrow> bytes) \<Rightarrow> (fragment_chunk list \<Rightarrow> 'r \<Rightarrow> bool \<times> 'r) \<Rightarrow> string \<Rightarrow> u64 \<Rightarrow> u64 \<Rightarrow> broker_server \<Rightarrow> fsys \<Rightarrow> 'r \<Rightarrow>
   ((broker_error option \<times> fsys) \<times> 'r) call" where
  "ReplicateFragments md5 remote topic idx n bs fs r =
     bind_call (SelectFragmentsForReplication topic idx n (bs_fm bs))
       (\<lambda>frs. Returns (send_fragments md5 remote topic frs bs fs r))"

text \<open>What arrives on the stream: chunks, and possibly an error; the end of the list is the end of the stream.\<close>

fun receive_chunks :: "fragment_chunk option list \<Rightarrow> bytes \<Rightarrow> bytes option" where
  "receive_chunks [] buffer = Some buffer"
| "receive_chunks (None # cs) buffer = None"
| "receive_chunks (Some c # cs) buffer =
     (if fc_IsLast c then Some (buffer @ fc_Data c) else receive_chunks cs (buffer @ fc_Data c))"

definition ReplicateFragment ::
  "string \<Rightarrow> fragment_chunk option list \<Rightarrow> broker_server \<Rightarrow> fsys \<Rightarrow> broker_error option \<times> fsys" where
  "ReplicateFragment rnd stream bs fs =
     (case stream of
        [] \<Rightarrow> (Some BNoChunk, fs)
      | None # _ \<Rightarrow> (Some BNoChunk, fs)
      | Some c # cs \<Rightarrow>
          (case receive_chunks cs (fc_Data c) of
             None \<Rightarrow> (Some BStream, fs)
           | Some buffer \<Rightarrow>
               (case ReplicateFragmentToFile rnd (fc_Topic c) (fc_FragmentId c) buffer
                       (GetFragmentPath (bs_fm bs) (fc_Topic c) (fc_FragmentId c)) fs of
                  (Some e, fs1) \<Rightarrow> (Some (BFragment e), fs1)
                | (None, fs1) \<Rightarrow> (None, fs1))))"

section \<open>Topics and roles\<close>

definition GetTopicRole :: "string \<Rightarrow> broker_server \<Rightarrow> topic_role" where
  "GetTopicRole topic bs =
     (case bs_topicRoles bs topic of Some role \<Rightarrow> role | None \<Rightarrow> TOPIC_ROLE_UNSPECIFIED)"

record broker_info =
  bi_broker_id :: string
  bi_address :: string
  bi_topics :: "string list"
  bi_topic_roles :: "(string \<times> string) list"
  bi_message_counter :: u64

fun role_name :: "topic_role \<Rightarrow> string" where
  "role_name TOPIC_ROLE_LEADER = ''leader''"
| "role_name TOPIC_ROLE_FOLLOWER = ''follower''"
| "role_name TOPIC_ROLE_UNSPECIFIED = ''unknown''"

definition GetBrokerInfo :: "broker_server \<Rightarrow> broker_info" where
  "GetBrokerInfo bs =
     \<lparr>bi_broker_id = bs_brokerID bs, bi_address = bs_address bs, bi_topics = bs_topics bs,
      bi_topic_roles = map (\<lambda>t. (t, role_name (GetTopicRole t bs))) (bs_topics bs),
      bi_message_counter = bs_messageCounter bs\<rparr>"

definition RemoveTopic ::
  "string \<Rightarrow> time \<Rightarrow> string \<Rightarrow> string \<Rightarrow> broker_server \<Rightarrow> fsys \<Rightarrow> ((bool \<times> broker_server) \<times> fsys) call" where
  "RemoveTopic stamp now topic reason bs fs =
     (if topic \<notin> set (bs_topics bs) then Returns ((False, bs), fs)
      else bind_call (WriteRemoveTopic stamp now topic reason (bs_wal bs) fs)
        (\<lambda>((r, w), fs1).
          let bs1 = bs\<lparr>bs_wal := w\<rparr>
          in case r of
               Some _ \<Rightarrow> Returns ((False, bs1), fs1)
             | None \<Rightarrow>
                 (case CloseTopic topic (bs_fm bs1) fs1 of
                    (fm', fs2) \<Rightarrow>
                      bind_call (RaftManager.RemoveTopic topic (bs_rm bs1))
                        (\<lambda>rm'. Returns ((True,
                           bs1\<lparr>bs_topics := removeAll topic (bs_topics bs1),
                               bs_topicRoles := (bs_topicRoles bs1)(topic := None),
                               bs_fm := fm', bs_rm := rm'\<rparr>), fs2)))))"

definition SetTopicRole ::
  "string \<Rightarrow> topic_role \<Rightarrow> string list \<Rightarrow> string \<Rightarrow> broker_server \<Rightarrow> (bool \<times> broker_server) call" where
  "SetTopicRole topic role followers leaderAddr bs =
     bind_call (RaftManager.SetTopicRole topic role followers leaderAddr (bs_rm bs))
       (\<lambda>rm'. Returns (True, bs\<lparr>bs_rm := rm', bs_topics := List.insert topic (bs_topics bs),
                                bs_topicRoles := (bs_topicRoles bs)(topic \<mapsto> role)\<rparr>))"

definition HandleRaftRequest ::
  "(string \<Rightarrow> bool) \<Rightarrow> (nat \<Rightarrow> time) \<Rightarrow> raft_request \<Rightarrow> broker_server \<Rightarrow> fsys \<Rightarrow>
   (raft_response \<times> (string \<times> raft_request) list \<times> broker_server \<times> fsys) call" where
  "HandleRaftRequest dial clk q bs fs =
     bind_call (RaftManager.HandleRaftRequest dial clk q (bs_rm bs) (bs_fm bs, fs))
       (\<lambda>(resp, out, rm', fm', fs'). Returns (resp, out, bs\<lparr>bs_rm := rm', bs_fm := fm'\<rparr>, fs'))"

text \<open>The answer is the role and whether the call succeeded.\<close>

definition GetBrokerTopicRole :: "string \<Rightarrow> string \<Rightarrow> broker_server \<Rightarrow> topic_role \<times> bool" where
  "GetBrokerTopicRole brokerID topic bs =
     (if brokerID \<noteq> bs_brokerID bs then (TOPIC_ROLE_UNSPECIFIED, False)
      else if topic \<notin> set (bs_topics bs) then (TOPIC_ROLE_UNSPECIFIED, False)
      else (RaftManager.GetTopicRole topic (bs_rm bs), True))"

text \<open>The replication runs in a goroutine after the call has returned success.\<close>

definition RequestFragmentReplication ::
  "(bytes \<Rightarrow> bytes) \<Rightarrow> (fragment_chunk list \<Rightarrow> 'r \<Rightarrow> bool \<times> 'r) \<Rightarrow> string \<Rightarrow> u64 \<Rightarrow> u64 \<Rightarrow> broker_server \<Rightarrow> fsys \<Rightarrow> 'r \<Rightarrow>
   bool \<times> ((broker_error option \<times> fsys) \<times> 'r) call" where
  "RequestFragmentReplication md5 remote topic replicaIndex totalReplicas bs fs r =
     (True, ReplicateFragments md5 remote topic replicaIndex totalReplicas bs fs r)"

section \<open>Recovery\<close>

text \<open>
  What a replay leaves of a log: the messages of a topic since it was last removed.
\<close>

fun replay_log :: "(nat \<Rightarrow> time) \<Rightarrow> wal_entry list \<Rightarrow> (string \<Rightarrow> message_entry list) \<Rightarrow> string \<Rightarrow> message_entry list" where
  "replay_log clk [] H = H"
| "replay_log clk (e # es) H =
     replay_log clk es
       (if we_Type e = 1 then H(we_Topic e := H (we_Topic e) @ [new_entry (clk 2) (we_MessageID e) (we_Payload e)])
        else if we_Type e = 2 then H(we_Topic e := []) else H)"

definition replayable :: "wal_entry \<Rightarrow> bool" where
  "replayable e \<longleftrightarrow> (we_Type e = 1 \<longrightarrow> plain (we_Topic e) \<and> length (we_Payload e) < 2 ^ 32)"

lemma close_files_ticks: "\<exists>k. snd (close_files frs fs) = fs\<lparr>ticks := ticks fs + k\<rparr>"
proof (induction frs arbitrary: fs)
  case (Cons fr frs)
  obtain fr' fs1 where c: "close_file fr fs = (fr', fs1)" by force
  then have "\<exists>j. fs1 = fs\<lparr>ticks := ticks fs + j\<rparr>"
    by (auto simp: close_file_def file_Close_def tick_def split: option.splits intro: exI [of _ 0] exI [of _ 1])
  then obtain j where j: "fs1 = fs\<lparr>ticks := ticks fs + j\<rparr>" ..
  from Cons.IH [of fs1] obtain k where "snd (close_files frs fs1) = fs1\<lparr>ticks := ticks fs1 + k\<rparr>" ..
  then have "snd (close_files (fr # frs) fs) = fs\<lparr>ticks := ticks fs + (j + k)\<rparr>"
    using c j by (cases "close_files frs fs1") (simp add: add.assoc)
  then show ?case ..
qed (auto intro: exI [of _ 0])

lemma frag_rep_ticks: "frag_rep (fs\<lparr>ticks := n\<rparr>) fr es = frag_rep fs fr es"
  by (simp add: frag_rep_def)

lemma fm_holds_CloseTopic:
  assumes h: "fm_holds a b (fm, fs) H" and c: "CloseTopic t fm fs = (fm', fs')"
  shows "fm_holds a b (fm', fs') (H(t := []))"
proof -
  obtain L where L: "healthy fs" "fs_wf fs" "fm_rep fm fs L" "\<forall>t. rotated a b (L t) \<and> concat (L t) = H t"
    "fm_maxSize fm = a" "fm_maxMessages fm = b"
    using h by (auto simp: fm_holds_def)
  have "\<exists>k. fs' = fs\<lparr>ticks := ticks fs + k\<rparr>"
    using c close_files_ticks [of _ fs] by (auto simp: CloseTopic_def split: option.splits intro: exI [of _ 0])
  then obtain k where fs': "fs' = fs\<lparr>ticks := ticks fs + k\<rparr>" ..
  have fr: "frags fm' u = (if u = t then [] else frags fm u)" "GetFragmentPath fm' = GetFragmentPath fm"
    "fm_maxSize fm' = a" "fm_maxMessages fm' = b" for u
    using c L(5,6) by (auto simp: CloseTopic_def frags_def split: option.splits)
  have "fm_rep fm' fs' (L(t := []))"
    using L(3) by (auto simp: fm_rep_def fr fs' frag_rep_ticks [abs_def])
  moreover have "rotated a b []" by (simp add: rotated_def)
  ultimately show ?thesis
    using L fr by (auto simp: fm_holds_def fs' intro!: exI [of _ "L(t := [])"])
qed

lemma replay_entry_holds:
  assumes h: "fm_holds a b (bs_fm bs, fs) H" and e: "replayable e" and len: "\<forall>t. length (H t) < 2 ^ 64"
  shows "\<exists>bs' fs'. replay_entry clk e (bs, fs) = (True, bs', fs') \<and>
    fm_holds a b (bs_fm bs', fs') (replay_log clk [e] H)"
proof -
  consider "we_Type e = 1" | "we_Type e = 2" | "we_Type e \<noteq> 1" "we_Type e \<noteq> 2" by blast
  then show ?thesis
  proof cases
    case 1
    let ?c = "(clk, we_MessageID e, we_Payload e)"
    have "fm_good (we_Topic e) ?c" using e 1 by (simp add: replayable_def fm_good_def)
    then obtain fm' fs' where "fm_app (we_Topic e) ?c (bs_fm bs, fs) = (True, fm', fs')"
      "fm_holds a b (fm', fs') (H(we_Topic e := H (we_Topic e) @ [fm_entry ?c]))"
      using fm_log.app_holds [OF h, of "we_Topic e" ?c] len by auto
    then show ?thesis
      using 1 by (auto simp: replay_entry_def fm_app_def fm_entry_def split: prod.splits option.splits)
  next
    case 2
    obtain fm' fs' where c: "CloseTopic (we_Topic e) (bs_fm bs) fs = (fm', fs')" by force
    with fm_holds_CloseTopic [OF h c] 2 show ?thesis by (simp add: replay_entry_def)
  next
    case 3
    then show ?thesis using h by (simp add: replay_entry_def)
  qed
qed

lemma replay_log_length: "length (replay_log clk [e] H t) \<le> Suc (length (H t))"
  by simp

lemma run_handler_replay:
  "fm_holds a b (bs_fm bs, fs) H \<Longrightarrow> \<forall>e \<in> set es. replayable e \<Longrightarrow> \<forall>t. length (H t) + length es < 2 ^ 64 \<Longrightarrow>
   \<exists>bs' fs'. run_handler (replay_entry clk) es (bs, fs) = (None, bs', fs') \<and>
     fm_holds a b (bs_fm bs', fs') (replay_log clk es H)"
proof (induction es arbitrary: bs fs H)
  case (Cons e es)
  have len: "\<forall>t. length (H t) < 2 ^ 64"
    using Cons.prems(3) by (metis add_lessD1)
  obtain bs1 fs1 where s1: "replay_entry clk e (bs, fs) = (True, bs1, fs1)" "fm_holds a b (bs_fm bs1, fs1) (replay_log clk [e] H)"
    using replay_entry_holds [OF Cons.prems(1) _ len, of e clk] Cons.prems(2) by auto
  have "length (replay_log clk [e] H t) + length es < 2 ^ 64" for t
    using spec [OF Cons.prems(3), of t] replay_log_length [of clk e H t] by simp
  with Cons.IH [OF s1(2)] Cons.prems(2) s1(1) show ?case by simp
qed auto

section \<open>Properties\<close>


definition sample_broker :: broker_server where
  "sample_broker = \<lparr>bs_brokerID = ''b1'', bs_address = ''h1'', bs_fm = NewFragmentManager ''data/fragments'' 4096 10 0,
     bs_wal = wal_in ''data/wal'', bs_rm = SetFragmentManager (NewRaftManager ''b1'' ''h1''), bs_messageCounter = 0,
     bs_topics = [], bs_topicRoles = Map.empty, bs_stopped = False, bs_grpcServer = False\<rparr>"


lemma receive_chunk_loop:
  "i < length data \<Longrightarrow> receive_chunks (map Some (chunk_loop md5 t f data i k)) buffer = Some (buffer @ drop i data)"
proof (induction md5 t f data i k arbitrary: buffer rule: chunk_loop.induct)
  case (1 md5 t f data i k)
  show ?case
  proof (cases "length data \<le> i + chunkSize")
    case True
    then have "take ((if length data < i + chunkSize then length data else i + chunkSize) - i) (drop i data) = drop i data" by auto
    then show ?thesis using 1(2) True by (subst chunk_loop.simps) (auto simp: Let_def)
  next
    case False
    then have "i + chunkSize < length data" by simp
    from 1(1) [OF 1(2) refl refl this, of "buffer @ take chunkSize (drop i data)"] False 1(2) show ?thesis
      by (subst chunk_loop.simps) (simp add: Let_def add.commute drop_drop [symmetric] del: drop_drop)
  qed
qed

lemma chunk_loop_first:
  assumes "data \<noteq> []"
  obtains c cs where "chunk_loop md5 t f data 0 k = c # cs" "fc_Topic c = t" "fc_FragmentId c = f"
    "receive_chunks (map Some cs) (fc_Data c) = Some data"
proof -
  have len: "0 < length data" using assms by simp
  let ?e = "if length data < chunkSize then length data else chunkSize"
  define c where "c = \<lparr>fc_Topic = t, fc_FragmentId = f, fc_ChunkIndex = k, fc_Data = take ?e data,
    fc_IsLast = (?e = length data), fc_Checksum = md5 (take ?e data)\<rparr>"
  have eq: "chunk_loop md5 t f data 0 k = c # chunk_loop md5 t f data chunkSize (k + 1)"
    using len by (subst chunk_loop.simps) (simp add: Let_def c_def)
  have "receive_chunks (map Some (chunk_loop md5 t f data chunkSize (k + 1))) (take ?e data) = Some data"
  proof (cases "chunkSize < length data")
    case True
    then show ?thesis using receive_chunk_loop [of chunkSize data md5 t f "k + 1" "take chunkSize data"] by simp
  next
    case False
    then have "chunk_loop md5 t f data chunkSize (k + 1) = []" by (subst chunk_loop.simps) simp
    then show ?thesis using False by auto
  qed
  then show ?thesis using that [OF eq] by (simp add: c_def)
qed

lemma ReplicateFragmentToFile_healthy:
  assumes "healthy fs" and "fs_wf fs" and tmp: "tmp = filepath_Join [filepath_Dir target, ''fragment_tmp_'' @ rnd]"
    and "lookup_ino fs tmp = None" and "tmp \<noteq> target"
  shows "\<exists>fs'. ReplicateFragmentToFile rnd topic fragmentID data target fs = (None, fs') \<and> healthy fs' \<and> fs_wf fs' \<and>
    lookup_ino fs' tmp = None \<and> fs_content fs' target = Some data \<and> (\<forall>p. p \<noteq> target \<longrightarrow> fs_content fs' p = fs_content fs p)"
proof -
  obtain f fs2 where f: "os_Create tmp (tick fs) = (Inr f, fs2)" "f_open f" "f_name f = tmp" "f_off f = 0"
    "inodes fs2 = (inodes fs)(f_ino f := [])" "lookup_ino fs2 = (lookup_ino fs)(tmp \<mapsto> f_ino f)" "healthy fs2" "fs_wf fs2"
    "\<forall>q. q \<noteq> tmp \<longrightarrow> lookup_ino fs q \<noteq> Some (f_ino f)"
    using os_Create_healthy [of "tick fs" tmp] assms(1,2) by auto
  define fs3 where "fs3 = (tick fs2)\<lparr>inodes := (inodes fs2)(f_ino f := data)\<rparr>"
  have w: "file_Write f data fs2 = ((f\<lparr>f_off := length data\<rparr>, None), fs3)"
    using f by (simp add: file_Write_healthy fs3_def)
  have look: "lookup_ino (tick (tick fs3)) tmp = Some (f_ino f)" "healthy fs3" "fs_wf fs3" using f by (simp_all add: fs3_def)
  obtain fs6 where m: "os_Rename tmp target (tick (tick fs3)) = (None, fs6)"
    "lookup_ino fs6 = (lookup_ino fs2)(tmp := None, target \<mapsto> f_ino f)" "inodes fs6 = inodes fs3" "healthy fs6" "fs_wf fs6"
    using os_Rename_healthy [of "tick (tick fs3)" tmp "f_ino f" target] look assms(5) by (auto simp: fs3_def)
  define f2 where "f2 = f\<lparr>f_off := length data, f_open := False\<rparr>"
  have t: "os_CreateTemp (filepath_Dir target) ''fragment_tmp_'' rnd (tick fs) = (Inr f, fs2)"
    unfolding os_CreateTemp_def Let_def tmp [symmetric] using assms(4) f(1) by simp
  have run: "ReplicateFragmentToFile rnd topic fragmentID data target fs = (None, replicate_cleanup f2 fs6)"
    using assms(1) f(2,3) t w m(1) look(2)
    by (simp add: ReplicateFragmentToFile_def os_MkdirAll_def file_Sync_def file_Close_def f2_def)
  have "lookup_ino fs6 tmp = None" using m(2) assms(5) by simp
  then have clean: "replicate_cleanup f2 fs6 = tick (tick fs6)"
    using f(3) m(4) by (simp add: replicate_cleanup_def os_Remove_def file_Close_def f2_def)
  have "fs_content fs6 target = Some data" using m(2,3) by (simp add: fs_content_def fs3_def)
  moreover have "fs_content fs6 p = fs_content fs p" if "p \<noteq> target" for p
    using that f(5,6,9) m(2,3) assms(4) by (cases "lookup_ino fs p"; cases "p = tmp") (auto simp: fs_content_def fs3_def)
  ultimately show ?thesis using run clean m(4,5) \<open>lookup_ino fs6 tmp = None\<close> by simp
qed

text \<open>The answer of a target to a stream of chunks.\<close>

definition accept_fragment :: "string \<Rightarrow> broker_server \<Rightarrow> fragment_chunk list \<Rightarrow> fsys \<Rightarrow> bool \<times> fsys" where
  "accept_fragment rnd tgt cs s = (case ReplicateFragment rnd (map Some cs) tgt s of (e, s') \<Rightarrow> (e = None, s'))"

lemma SendFragment_copies:
  assumes "healthy fs" and "fs_content fs (GetFragmentPath (bs_fm src) topic fid) = Some data" and "data \<noteq> []"
    and "healthy tfs" and "fs_wf tfs" and path: "path = GetFragmentPath (bs_fm tgt) topic fid"
    and tmp: "tmp = filepath_Join [filepath_Dir path, ''fragment_tmp_'' @ rnd]" "lookup_ino tfs tmp = None" "tmp \<noteq> path"
  shows "\<exists>tfs'. SendFragmentToTarget md5 (accept_fragment rnd tgt) topic fid src fs tfs = ((None, tick fs), tfs') \<and>
    healthy tfs' \<and> fs_wf tfs' \<and> lookup_ino tfs' tmp = None \<and> fs_content tfs' path = Some data \<and>
    (\<forall>p. p \<noteq> path \<longrightarrow> fs_content tfs' p = fs_content tfs p)"
proof -
  obtain c cs where c: "chunk_loop md5 topic fid data 0 0 = c # cs" "fc_Topic c = topic" "fc_FragmentId c = fid"
    "receive_chunks (map Some cs) (fc_Data c) = Some data"
    using chunk_loop_first [OF assms(3)] by metis
  obtain tfs' where w: "ReplicateFragmentToFile rnd topic fid data path tfs = (None, tfs')" "healthy tfs'" "fs_wf tfs'"
    "lookup_ino tfs' tmp = None" "fs_content tfs' path = Some data" "\<forall>p. p \<noteq> path \<longrightarrow> fs_content tfs' p = fs_content tfs p"
    using ReplicateFragmentToFile_healthy [OF assms(4,5) tmp] by blast
  have "ReadFragmentFile topic fid (bs_fm src) fs = (Inr data, tick fs)"
    using assms(1,2) by (simp add: ReadFragmentFile_def os_Open_def GetFragmentPath_def)
  moreover have "ReplicateFragment rnd (map Some (c # cs)) tgt tfs = (None, tfs')"
    using c w(1) path by (simp add: ReplicateFragment_def)
  ultimately show ?thesis using c(1) w by (simp add: SendFragmentToTarget_def accept_fragment_def)
qed

text \<open>
  C8: Replicating a fragment copies it. If the sender has a non-empty fragment file, the chunks of
  \<^verbatim>\<open>SendFragmentToTarget\<close> make the target's \<^verbatim>\<open>ReplicateFragment\<close> write, on a file system without faults,
  a file with exactly the sender's bytes at the fragment's path.
\<close>

theorem fragment_copied:
  assumes "healthy fs" and "fs_content fs (GetFragmentPath (bs_fm src) topic fid) = Some data" and "data \<noteq> []"
    and "healthy tfs" and "fs_wf tfs" and path: "path = GetFragmentPath (bs_fm tgt) topic fid"
    and tmp: "tmp = filepath_Join [filepath_Dir path, ''fragment_tmp_'' @ rnd]" "lookup_ino tfs tmp = None" "tmp \<noteq> path"
  shows "\<exists>fs' tfs'. SendFragmentToTarget md5 (accept_fragment rnd tgt) topic fid src fs tfs = ((None, fs'), tfs') \<and> fs_content tfs' path = Some data"
  using SendFragment_copies [OF assms] by blast

theorem fragment_copied_witness:
  "\<exists>fs' tfs'. SendFragmentToTarget (\<lambda>_. []) (accept_fragment ''42'' sample_broker) ''a'' 0 sample_broker
      (fs_with ''data/fragments/a/fragment_0.frag'' [1, 2, 3]) empty_fs = ((None, fs'), tfs') \<and>
    fs_content tfs' ''data/fragments/a/fragment_0.frag'' = Some [1, 2, 3]"
proof -
  have "filepath_Join [''data/fragments'', ''a'', fragment_name 0] = ''data/fragments/a/fragment_0.frag''" by code_simp
  then have path: "GetFragmentPath (bs_fm sample_broker) ''a'' 0 = ''data/fragments/a/fragment_0.frag''"
    by (simp add: GetFragmentPath_def sample_broker_def NewFragmentManager_def)
  have tmp: "filepath_Join [filepath_Dir ''data/fragments/a/fragment_0.frag'', ''fragment_tmp_42''] = ''data/fragments/a/fragment_tmp_42''"
    by code_simp
  show ?thesis
    by (rule fragment_copied [where tmp = "''data/fragments/a/fragment_tmp_42''" and ?data = "[1, 2, 3]"])
      (simp_all add: path tmp)
qed

text \<open>
  A refused message is logged. In a broker whose Raft nodes are never leaders (which is every
  broker of a system that talks through the managers), a producer is told to retry and the fragments
  are untouched, but the message is already in the write-ahead log: it will be stored, once for
  every retry, by the next recovery.
\<close>

theorem refused_message_is_logged:
  assumes "healthy fs" and "fs_wf fs" and "mq_Topic q \<in> set (bs_topics bs)" and "IsLeader (mq_Topic q) (bs_rm bs)"
    and "manager_quiet (bs_rm bs)" and "wal_has (bs_wal bs) fs es" and "int (wal_size es) < w_maxFileSize (bs_wal bs)"
    and "e = \<lparr>we_Type = 1, we_Topic = mq_Topic q, we_MessageID = bs_messageCounter bs + 1, we_Payload = mq_Payload q,
             we_Timestamp = word_of_int (Unix now)\<rparr>" and "entry_ok e"
  shows "\<exists>bs' fs'. processMessage stamp now clk q bs fs =
      Returns ((Inr \<lparr>mr_MessageId = mq_MessageId q, mr_Status = STATUS_RETRY\<rparr>, bs'), fs') \<and>
    bs_fm bs' = bs_fm bs \<and> wal_has (bs_wal bs') fs' (es @ [e])"
proof -
  obtain w' fs' where w: "Write stamp e (bs_wal bs) fs = Returns ((None, w'), fs')" "wal_has w' fs' (es @ [e])"
    using Write_room [OF assms(1,2,6,9,7), of stamp] by metis
  obtain x where p: "ProposeMessage now (mq_Topic q) (bs_messageCounter bs + 1) (mq_Payload q) (bs_rm bs) = (Some x, bs_rm bs)"
    using ProposeMessage_quiet [OF assms(5), of now "mq_Topic q" "bs_messageCounter bs + 1" "mq_Payload q"]
    by (cases "ProposeMessage now (mq_Topic q) (bs_messageCounter bs + 1) (mq_Payload q) (bs_rm bs)") auto
  show ?thesis
    using assms(3,4,8) w p by (simp add: processMessage_def WAL.WriteMessage_def retry_def Let_def)
qed

theorem refused_message_is_logged_witness:
  "\<exists>bs fs bs' fs' e. mq_Topic \<lparr>mq_Topic = ''orders'', mq_Payload = [1], mq_MessageId = 5\<rparr> \<in> set (bs_topics bs) \<and>
    processMessage ''s'' 0 (\<lambda>_. 0) \<lparr>mq_Topic = ''orders'', mq_Payload = [1], mq_MessageId = 5\<rparr> bs fs =
      Returns ((Inr \<lparr>mr_MessageId = 5, mr_Status = STATUS_RETRY\<rparr>, bs'), fs') \<and>
    bs_fm bs' = bs_fm bs \<and> wal_has (bs_wal bs') fs' [e]"
proof -
  let ?q = "\<lparr>mq_Topic = ''orders'', mq_Payload = [1], mq_MessageId = 5\<rparr>"
  obtain rm where rm: "RaftManager.SetTopicRole ''orders'' TOPIC_ROLE_LEADER [''h2''] ''h1'' (NewRaftManager ''b1'' ''h1'') = Returns rm"
    "IsLeader ''orders'' rm"
    by (simp add: RaftManager.SetTopicRole_def NewRaftManager_def IsLeader_def Let_def)
  have quiet: "manager_quiet rm"
    by (rule manager_quiet_SetTopicRole [OF _ rm(1)]) (simp add: manager_quiet_def NewRaftManager_def)
  obtain w fs where w: "wal_has w fs []" "healthy fs" "fs_wf fs" "w_maxFileSize w = 1000"
    using createNewFile_has [of empty_fs "wal_in ''data/wal''" "''s''" thesis] by (simp add: wal_in_def)
  define bs where "bs = sample_broker\<lparr>bs_wal := w, bs_rm := rm, bs_topics := [''orders'']\<rparr>"
  define e where "e = \<lparr>we_Type = 1, we_Topic = ''orders'', we_MessageID = 1, we_Payload = [1], we_Timestamp = word_of_int (Unix 0)\<rparr>"
  have ok: "entry_ok e" by (simp add: entry_ok_def entrySize_def e_def)
  have size: "int (wal_size []) < 1000" by (simp add: wal_size_def wal_header_def wal_magic_def)
  have "\<exists>bs' fs'. processMessage ''s'' 0 (\<lambda>_. 0) ?q bs fs =
      Returns ((Inr \<lparr>mr_MessageId = mq_MessageId ?q, mr_Status = STATUS_RETRY\<rparr>, bs'), fs') \<and>
    bs_fm bs' = bs_fm bs \<and> wal_has (bs_wal bs') fs' ([] @ [e])"
    by (rule refused_message_is_logged) (use rm(2) quiet w ok size in \<open>simp_all add: bs_def sample_broker_def e_def\<close>)
  moreover have "mq_Topic ?q \<in> set (bs_topics bs)" by (simp add: bs_def)
  ultimately show ?thesis by simp blast
qed

lemma send_pulled_alive:
  "send_pulled (\<lambda>_. Sent) i topic offset ms =
     (map (\<lambda>(k, m). \<lparr>pm_MessageId = me_MessageID m, pm_Topic = topic, pm_Payload = me_Payload m,
        pm_Offset = offset + word_of_nat k, pm_Seconds = me_Timestamp m\<rparr>) (zip [0..<length ms] ms), None)"
proof (induction ms arbitrary: i offset)
  case (Cons m ms)
  have "[0..<length (m # ms)] = 0 # map Suc [0..<length ms]" by (simp add: map_Suc_upt upt_conv_Cons del: upt_Suc)
  then show ?case
    using Cons.IH by (simp add: zip_map1 comp_def case_prod_beta add.assoc add.commute add.left_commute del: upt_Suc)
qed simp

text \<open>
  C10: What a consumer pulls. A broker with a role in the topic sends, while the stream lives, exactly
  the requested window of the topic's log, and message \<open>i\<close> of the answer carries the offset
  \<^verbatim>\<open>Offset\<close> \<open>+ i\<close>; without a role, or for an unknown topic, it sends nothing and reports an error.
\<close>

theorem PullMessage_window:
  assumes "fm_holds maxSize maxMessages (bs_fm bs, fs) H" and "unat (pq_Offset q) + unat (pq_BatchSize q) < 2 ^ 64"
  shows "(pq_Topic q \<in> set (bs_topics bs) \<and> RaftManager.GetTopicRole (pq_Topic q) (bs_rm bs) \<noteq> TOPIC_ROLE_UNSPECIFIED \<longrightarrow>
      fst (PullMessage (\<lambda>_. Sent) q bs fs) =
        (map (\<lambda>(k, m). \<lparr>pm_MessageId = me_MessageID m, pm_Topic = pq_Topic q, pm_Payload = me_Payload m,
             pm_Offset = pq_Offset q + word_of_nat k, pm_Seconds = me_Timestamp m\<rparr>)
           (enumerate 0 (take (unat (pq_BatchSize q)) (drop (unat (pq_Offset q)) (H (pq_Topic q))))), None)) \<and>
    (pq_Topic q \<notin> set (bs_topics bs) \<or> RaftManager.GetTopicRole (pq_Topic q) (bs_rm bs) = TOPIC_ROLE_UNSPECIFIED \<longrightarrow>
      (\<exists>e. PullMessage ok q bs fs = (([], Some e), fs)))"
proof
  have "word_of_nat (unat (pq_Offset q)) = pq_Offset q" by simp
  then obtain fs1 where rd: "ReadMessages (pq_Topic q) (pq_Offset q) (uint (pq_BatchSize q)) (bs_fm bs) fs =
      (take (unat (pq_BatchSize q)) (drop (unat (pq_Offset q)) (H (pq_Topic q))), fs1)"
    using fm_log.rd_holds [OF assms(1,2), of "pq_Topic q"]
    by (cases "ReadMessages (pq_Topic q) (pq_Offset q) (uint (pq_BatchSize q)) (bs_fm bs) fs") (simp add: fm_rd_def)
  have role: "RaftManager.GetTopicRole (pq_Topic q) (bs_rm bs) \<noteq> TOPIC_ROLE_UNSPECIFIED \<longleftrightarrow>
      RaftManager.GetTopicRole (pq_Topic q) (bs_rm bs) = TOPIC_ROLE_LEADER \<or>
      RaftManager.GetTopicRole (pq_Topic q) (bs_rm bs) = TOPIC_ROLE_FOLLOWER"
    by (cases "RaftManager.GetTopicRole (pq_Topic q) (bs_rm bs)") auto
  show "pq_Topic q \<in> set (bs_topics bs) \<and> RaftManager.GetTopicRole (pq_Topic q) (bs_rm bs) \<noteq> TOPIC_ROLE_UNSPECIFIED \<longrightarrow>
      fst (PullMessage (\<lambda>_. Sent) q bs fs) =
        (map (\<lambda>(k, m). \<lparr>pm_MessageId = me_MessageID m, pm_Topic = pq_Topic q, pm_Payload = me_Payload m,
             pm_Offset = pq_Offset q + word_of_nat k, pm_Seconds = me_Timestamp m\<rparr>)
           (enumerate 0 (take (unat (pq_BatchSize q)) (drop (unat (pq_Offset q)) (H (pq_Topic q))))), None)"
    using rd role
    by (auto simp: PullMessage_def send_pulled_alive enumerate_eq_zip Let_def)
  show "pq_Topic q \<notin> set (bs_topics bs) \<or> RaftManager.GetTopicRole (pq_Topic q) (bs_rm bs) = TOPIC_ROLE_UNSPECIFIED \<longrightarrow>
      (\<exists>e. PullMessage ok q bs fs = (([], Some e), fs))"
    by (auto simp: PullMessage_def Let_def)
qed

theorem PullMessage_window_witness:
  "\<exists>e. PullMessage (\<lambda>_. Sent) \<lparr>pq_Topic = ''orders'', pq_Offset = 0, pq_BatchSize = 10\<rparr> sample_broker empty_fs =
     (([], Some e), empty_fs)"
proof -
  have "fm_holds 4096 10 (bs_fm sample_broker, empty_fs) (\<lambda>_. [])"
    unfolding sample_broker_def by (simp add: fm_holds_new)
  from PullMessage_window [OF this, of "\<lparr>pq_Topic = ''orders'', pq_Offset = 0, pq_BatchSize = 10\<rparr>" "\<lambda>_. Sent"]
  show ?thesis by (simp add: sample_broker_def)
qed

end
