(* ===== verification/Etcd.thy ===== *)
theory Etcd
  imports Json "HOL-Library.List_Lexorder" "HOL-Library.Char_ord" "HOL-Library.Sublist" "HOL-Library.AList"
begin

text \<open>
  The etcd manager of \<^verbatim>\<open>internal/etcd/etcd.go\<close>. The etcd client is a library: it is a record of
  operations on an unknown state \<open>'e\<close>, an argument of every operation here. A value is a decimal text
  or the JSON text of one of the program's structs, which is the struct itself; each kind has its
  own key prefix. The mutex \<^verbatim>\<open>leaseMu\<close> is a field, because one operation calls another while it holds it.
\<close>

section \<open>Data\<close>

record etcd_broker =
  eb_BrokerID :: string
  eb_Address :: string
  eb_Status :: int

record topic_replica_info =
  tr_Topic :: string
  tr_Brokers :: "etcd_broker list"
  tr_Version :: int
  tr_Timestamp :: int
  tr_ReplicaCount :: int

text \<open>
  The parameters of an operation are a JSON text, which is its tree; \<open>None\<close> is a text that is no JSON.
\<close>

record operation_log =
  ol_ID :: int
  ol_Function :: string
  ol_Params :: "json option"
  ol_Timestamp :: int

datatype etcd_value =
  EText string | EBroker etcd_broker | EReplicas topic_replica_info | EOperation operation_log

text \<open>
  \<^verbatim>\<open>json.Unmarshal\<close> of a value: a decimal text is no object and gives an error, and the text of a struct
  of another type gives the fields the two types share and the zero value of the others.
\<close>

fun unmarshal_broker :: "etcd_value \<Rightarrow> etcd_broker option" where
  "unmarshal_broker (EText _) = None"
| "unmarshal_broker (EBroker b) = Some b"
| "unmarshal_broker _ = Some \<lparr>eb_BrokerID = [], eb_Address = [], eb_Status = 0\<rparr>"

fun unmarshal_replicas :: "etcd_value \<Rightarrow> topic_replica_info option" where
  "unmarshal_replicas (EText _) = None"
| "unmarshal_replicas (EReplicas r) = Some r"
| "unmarshal_replicas (EBroker _) =
     Some \<lparr>tr_Topic = [], tr_Brokers = [], tr_Version = 0, tr_Timestamp = 0, tr_ReplicaCount = 0\<rparr>"
| "unmarshal_replicas (EOperation op) =
     Some \<lparr>tr_Topic = [], tr_Brokers = [], tr_Version = 0, tr_Timestamp = ol_Timestamp op, tr_ReplicaCount = 0\<rparr>"

fun unmarshal_operation :: "etcd_value \<Rightarrow> operation_log option" where
  "unmarshal_operation (EText _) = None"
| "unmarshal_operation (EOperation op) = Some op"
| "unmarshal_operation (EBroker _) =
     Some \<lparr>ol_ID = 0, ol_Function = [], ol_Params = None, ol_Timestamp = 0\<rparr>"
| "unmarshal_operation (EReplicas r) =
     Some \<lparr>ol_ID = 0, ol_Function = [], ol_Params = None, ol_Timestamp = tr_Timestamp r\<rparr>"

type_synonym lease = int

text \<open>What a read of one key gives: a failure, the error \<^verbatim>\<open>ErrKeyNotFound\<close>, or the key's value if it is there.\<close>

datatype get_result = GetFailed | GetKeyNotFound | Got "etcd_value option"

text \<open>
  The client calls the program makes. \<open>None\<close> is an error of the call. A transaction puts the new value
  if the key has the expected one, and says whether it did.
\<close>

record 'e etcd_client =
  ec_Get :: "string \<Rightarrow> 'e \<Rightarrow> get_result \<times> 'e"
  ec_GetPrefix :: "string \<Rightarrow> 'e \<Rightarrow> (string \<times> etcd_value) list option \<times> 'e"
  ec_Put :: "string \<Rightarrow> etcd_value \<Rightarrow> lease option \<Rightarrow> 'e \<Rightarrow> bool \<times> 'e"
  ec_Delete :: "string \<Rightarrow> 'e \<Rightarrow> bool \<times> 'e"
  ec_Txn :: "string \<Rightarrow> etcd_value \<Rightarrow> etcd_value \<Rightarrow> 'e \<Rightarrow> bool option \<times> 'e"
  ec_Grant :: "int \<Rightarrow> 'e \<Rightarrow> lease option \<times> 'e"
  ec_KeepAliveOnce :: "lease \<Rightarrow> 'e \<Rightarrow> bool \<times> 'e"
  ec_Revoke :: "lease \<Rightarrow> 'e \<Rightarrow> bool \<times> 'e"
  ec_Status :: "'e \<Rightarrow> (nat \<times> nat) option \<times> 'e"
  ec_MemberList :: "'e \<Rightarrow> (nat \<times> string list) list option \<times> 'e"

record etcd_manager =
  em_isLeader :: bool
  em_leaderAddr :: string
  em_leaseMu :: bool
  em_leases :: "string \<rightharpoonup> lease"

datatype etcd_error =
  EGet | EParse | ETxn | EPut | EDelete | EGrant | ERevoke | ENextID etcd_error | EHandler | EUnmarshal

definition TopicReplicaPrefix :: string where "TopicReplicaPrefix = ''/goulette/topics/''"
definition OperationLogPrefix :: string where "OperationLogPrefix = ''/goulette/operations/''"
definition IncrementIDPrefix :: string where "IncrementIDPrefix = ''/goulette/increment/''"
definition BrokerHeartbeatPrefix :: string where "BrokerHeartbeatPrefix = ''/goulette/brokers/''"

section \<open>Integers as text\<close>

definition format_int :: "int \<Rightarrow> string" where
  "format_int i = (if i < 0 then CHR ''-'' # itoa (nat (- i)) else itoa (nat i))"

definition is_digit :: "char \<Rightarrow> bool" where
  "is_digit c \<longleftrightarrow> 48 \<le> (of_char c :: nat) \<and> (of_char c :: nat) \<le> 57"

definition parse_digits :: "string \<Rightarrow> int option" where
  "parse_digits s = (if s \<noteq> [] \<and> list_all is_digit s then Some (int (atoi s)) else None)"

definition parse_int :: "string \<Rightarrow> int option" where
  "parse_int s =
     (case (case s of
              [] \<Rightarrow> None
            | c # cs \<Rightarrow>
                if c = CHR ''-'' then map_option uminus (parse_digits cs)
                else if c = CHR ''+'' then parse_digits cs else parse_digits s) of
        None \<Rightarrow> None
      | Some i \<Rightarrow> if - (2 ^ 63) \<le> i \<and> i < 2 ^ 63 then Some i else None)"

definition wrap_i64 :: "int \<Rightarrow> int" where
  "wrap_i64 i = (i + 2 ^ 63) mod 2 ^ 64 - 2 ^ 63"

section \<open>Operations\<close>

definition NewEtcdManager :: etcd_manager where
  "NewEtcdManager = \<lparr>em_isLeader = False, em_leaderAddr = [], em_leaseMu = False, em_leases = Map.empty\<rparr>"

text \<open>
  \<^verbatim>\<open>checkLeader\<close>, run at every tick of the election loop: the status gives the member's own identity
  and the leader's.
\<close>

definition checkLeader :: "'e etcd_client \<Rightarrow> etcd_manager \<Rightarrow> 'e \<Rightarrow> etcd_manager \<times> 'e" where
  "checkLeader cl em e =
     (case ec_Status cl e of
        (None, e1) \<Rightarrow> (em, e1)
      | (Some (leader, memberId), e1) \<Rightarrow>
          (let em1 = em\<lparr>em_isLeader := (leader = memberId), em_leaderAddr := []\<rparr>
           in if leader = 0 then (em1, e1)
              else case ec_MemberList cl e1 of
                     (None, e2) \<Rightarrow> (em1, e2)
                   | (Some members, e2) \<Rightarrow>
                       (case find (\<lambda>m. fst m = leader \<and> snd m \<noteq> []) members of
                          None \<Rightarrow> (em1, e2)
                        | Some m \<Rightarrow> (em1\<lparr>em_leaderAddr := hd (snd m)\<rparr>, e2))))"

definition IsLeader :: "etcd_manager \<Rightarrow> bool" where
  "IsLeader em = em_isLeader em"

definition GetLeaderAddr :: "etcd_manager \<Rightarrow> string" where
  "GetLeaderAddr em = em_leaderAddr em"

text \<open>The retry is a call of the function itself; \<open>None\<close> is a call that never returns.\<close>

partial_function (option) getNextID :: "'e etcd_client \<Rightarrow> string \<Rightarrow> 'e \<Rightarrow> ((etcd_error + int) \<times> 'e) option" where
  "getNextID cl key e =
     (case ec_Get cl key e of
        (GetFailed, e1) \<Rightarrow> Some (Inl EGet, e1)
      | (GetKeyNotFound, e1) \<Rightarrow> Some (Inl EGet, e1)
      | (Got kv, e1) \<Rightarrow>
          (case (case kv of None \<Rightarrow> Some 0 | Some (EText s) \<Rightarrow> parse_int s | Some _ \<Rightarrow> None) of
             None \<Rightarrow> Some (Inl EParse, e1)
           | Some currentID \<Rightarrow>
               (case ec_Txn cl key (EText (format_int currentID)) (EText (format_int (wrap_i64 (currentID + 1)))) e1 of
                  (None, e2) \<Rightarrow> Some (Inl ETxn, e2)
                | (Some succeeded, e2) \<Rightarrow>
                    (if succeeded then Some (Inr (wrap_i64 (currentID + 1)), e2) else getNextID cl key e2))))"

definition operation_key :: "int \<Rightarrow> string" where
  "operation_key i = OperationLogPrefix @ format_int i"

definition LogOperation ::
  "'e etcd_client \<Rightarrow> time \<Rightarrow> string \<Rightarrow> json \<Rightarrow> 'e \<Rightarrow> (etcd_error option \<times> 'e) option" where
  "LogOperation cl now function params e =
     Option.bind (getNextID cl (IncrementIDPrefix @ ''operation'') e)
       (\<lambda>(r, e1). case r of
          Inl err \<Rightarrow> Some (Some (ENextID err), e1)
        | Inr nextID \<Rightarrow>
            (case ec_Put cl (operation_key nextID)
                    (EOperation \<lparr>ol_ID = nextID, ol_Function = function, ol_Params = Some params, ol_Timestamp = Unix now\<rparr>) None e1 of
               (ok, e2) \<Rightarrow> Some (if ok then None else Some EPut, e2)))"

definition GetTopicReplicas :: "'e etcd_client \<Rightarrow> string \<Rightarrow> 'e \<Rightarrow> (etcd_error + topic_replica_info option) \<times> 'e" where
  "GetTopicReplicas cl topic e =
     (case ec_Get cl (TopicReplicaPrefix @ topic) e of
        (GetFailed, e1) \<Rightarrow> (Inl EGet, e1)
      | (GetKeyNotFound, e1) \<Rightarrow> (Inr None, e1)
      | (Got None, e1) \<Rightarrow> (Inr None, e1)
      | (Got (Some v), e1) \<Rightarrow>
          (case unmarshal_replicas v of None \<Rightarrow> (Inl EUnmarshal, e1) | Some info \<Rightarrow> (Inr (Some info), e1)))"

text \<open>The version is the clock in nanoseconds, the timestamp the clock in seconds.\<close>

definition SetTopicReplicas ::
  "'e etcd_client \<Rightarrow> time \<Rightarrow> string \<Rightarrow> etcd_broker list \<Rightarrow> int \<Rightarrow> 'e \<Rightarrow> etcd_error option \<times> 'e" where
  "SetTopicReplicas cl now topic brokers replicaCount e =
     (case ec_Put cl (TopicReplicaPrefix @ topic)
             (EReplicas \<lparr>tr_Topic = topic, tr_Brokers = brokers, tr_Version = now, tr_Timestamp = Unix now,
                         tr_ReplicaCount = replicaCount\<rparr>) None e of
        (ok, e1) \<Rightarrow> (if ok then None else Some EPut, e1))"

definition DeleteTopicReplicas :: "'e etcd_client \<Rightarrow> string \<Rightarrow> 'e \<Rightarrow> etcd_error option \<times> 'e" where
  "DeleteTopicReplicas cl topic e =
     (case ec_Delete cl (TopicReplicaPrefix @ topic) e of (ok, e1) \<Rightarrow> (if ok then None else Some EDelete, e1))"

definition operations_of :: "(string \<times> etcd_value) list \<Rightarrow> operation_log list" where
  "operations_of kvs = List.map_filter (\<lambda>(k, v). unmarshal_operation v) kvs"

definition GetAllOperations :: "'e etcd_client \<Rightarrow> 'e \<Rightarrow> (etcd_error + operation_log list) \<times> 'e" where
  "GetAllOperations cl e =
     (case ec_GetPrefix cl OperationLogPrefix e of
        (None, e1) \<Rightarrow> (Inl EGet, e1)
      | (Some kvs, e1) \<Rightarrow> (Inr (operations_of kvs), e1))"

text \<open>The handler of the caller works on its own state \<open>'s\<close> and may use the client too, or panic.\<close>

fun replay_operations ::
  "(operation_log \<Rightarrow> 's \<Rightarrow> 'e \<Rightarrow> (bool \<times> 's \<times> 'e) call) \<Rightarrow> operation_log list \<Rightarrow> 's \<Rightarrow> 'e \<Rightarrow> (bool \<times> 's \<times> 'e) call" where
  "replay_operations handler [] s e = Returns (True, s, e)"
| "replay_operations handler (op # ops) s e =
     bind_call (handler op s e) (\<lambda>(ok, s1, e1).
       if ok then replay_operations handler ops s1 e1 else Returns (False, s1, e1))"

definition ReplayOperations ::
  "'e etcd_client \<Rightarrow> (operation_log \<Rightarrow> 's \<Rightarrow> 'e \<Rightarrow> (bool \<times> 's \<times> 'e) call) \<Rightarrow> 's \<Rightarrow> 'e \<Rightarrow> (etcd_error option \<times> 's \<times> 'e) call" where
  "ReplayOperations cl handler s e =
     (case GetAllOperations cl e of
        (Inl err, e1) \<Rightarrow> Returns (Some err, s, e1)
      | (Inr ops, e1) \<Rightarrow>
          bind_call (replay_operations handler ops s e1) (\<lambda>(ok, s1, e2). Returns (if ok then None else Some EHandler, s1, e2)))"

section \<open>Heartbeats\<close>

definition heartbeat_info :: "string \<Rightarrow> string \<Rightarrow> etcd_broker" where
  "heartbeat_info brokerID address = \<lparr>eb_BrokerID = brokerID, eb_Address = address, eb_Status = 0\<rparr>"

definition RegisterBrokerHeartbeat ::
  "'e etcd_client \<Rightarrow> string \<Rightarrow> string \<Rightarrow> int \<Rightarrow> etcd_manager \<Rightarrow> 'e \<Rightarrow> ((etcd_error option \<times> etcd_manager) \<times> 'e) call" where
  "RegisterBrokerHeartbeat cl brokerID address ttl em e =
     (if em_leaseMu em then Blocks
      else case ec_Grant cl ttl e of
        (None, e1) \<Rightarrow> Returns ((Some EGrant, em), e1)
      | (Some lease, e1) \<Rightarrow>
          (case ec_Put cl (BrokerHeartbeatPrefix @ brokerID) (EBroker (heartbeat_info brokerID address)) (Some lease) e1 of
             (False, e2) \<Rightarrow> Returns ((Some EPut, em), e2)
           | (True, e2) \<Rightarrow> Returns ((None, em\<lparr>em_leases := (em_leases em)(brokerID \<mapsto> lease)\<rparr>), e2)))"

definition RenewBrokerHeartbeat ::
  "'e etcd_client \<Rightarrow> string \<Rightarrow> string \<Rightarrow> int \<Rightarrow> etcd_manager \<Rightarrow> 'e \<Rightarrow> ((etcd_error option \<times> etcd_manager) \<times> 'e) call" where
  "RenewBrokerHeartbeat cl brokerID address ttl em e =
     (if em_leaseMu em then Blocks
      else
        let em1 = em\<lparr>em_leaseMu := True\<rparr>;
            unlock = (\<lambda>((r, em'), e'). Returns ((r, em'\<lparr>em_leaseMu := False\<rparr>), e'))
        in case em_leases em1 brokerID of
             None \<Rightarrow> bind_call (RegisterBrokerHeartbeat cl brokerID address ttl em1 e) unlock
           | Some leaseID \<Rightarrow>
               (case ec_KeepAliveOnce cl leaseID e of
                  (False, e1) \<Rightarrow> bind_call (RegisterBrokerHeartbeat cl brokerID address ttl em1 e1) unlock
                | (True, e1) \<Rightarrow>
                    (case ec_Put cl (BrokerHeartbeatPrefix @ brokerID) (EBroker (heartbeat_info brokerID address)) (Some leaseID) e1 of
                       (ok, e2) \<Rightarrow> unlock ((if ok then None else Some EPut, em1), e2))))"

definition UnregisterBrokerHeartbeat ::
  "'e etcd_client \<Rightarrow> string \<Rightarrow> etcd_manager \<Rightarrow> 'e \<Rightarrow> ((etcd_error option \<times> etcd_manager) \<times> 'e) call" where
  "UnregisterBrokerHeartbeat cl brokerID em e =
     (if em_leaseMu em then Blocks
      else case em_leases em brokerID of
        None \<Rightarrow> Returns ((None, em), e)
      | Some leaseID \<Rightarrow>
          (case ec_Revoke cl leaseID e of
             (False, e1) \<Rightarrow> Returns ((Some ERevoke, em), e1)
           | (True, e1) \<Rightarrow>
               (case ec_Delete cl (BrokerHeartbeatPrefix @ brokerID) e1 of
                  (False, e2) \<Rightarrow> Returns ((Some EDelete, em), e2)
                | (True, e2) \<Rightarrow> Returns ((None, em\<lparr>em_leases := (em_leases em)(brokerID := None)\<rparr>), e2))))"

definition brokers_of :: "(string \<times> etcd_value) list \<Rightarrow> etcd_broker list" where
  "brokers_of kvs = List.map_filter (\<lambda>(k, v). unmarshal_broker v) kvs"

definition GetBrokerHeartbeats :: "'e etcd_client \<Rightarrow> 'e \<Rightarrow> (etcd_error + etcd_broker list) \<times> 'e" where
  "GetBrokerHeartbeats cl e =
     (case ec_GetPrefix cl BrokerHeartbeatPrefix e of
        (None, e1) \<Rightarrow> (Inl EGet, e1)
      | (Some kvs, e1) \<Rightarrow> (Inr (brokers_of kvs), e1))"

text \<open>A watch event, and the arguments with which the handler of \<^verbatim>\<open>WatchBrokerHeartbeats\<close> is called.\<close>

datatype watch_event = WatchPut string etcd_value | WatchDelete string

fun watch_args :: "watch_event \<Rightarrow> string \<times> string \<times> etcd_broker option" where
  "watch_args (WatchPut key v) =
     (drop (length BrokerHeartbeatPrefix) key, ''PUT'', unmarshal_broker v)"
| "watch_args (WatchDelete key) = (drop (length BrokerHeartbeatPrefix) key, ''DELETE'', None)"

definition WatchBrokerHeartbeats ::
  "(string \<Rightarrow> string \<Rightarrow> etcd_broker option \<Rightarrow> 's \<Rightarrow> 's) \<Rightarrow> watch_event list \<Rightarrow> 's \<Rightarrow> 's" where
  "WatchBrokerHeartbeats handler events s =
     foldl (\<lambda>s ev. case watch_args ev of (brokerID, eventType, broker) \<Rightarrow> handler brokerID eventType broker s) s events"

section \<open>What etcd documents of its store\<close>

text \<open>
  The store as the client sees it while no call fails and nobody else writes: reads give the last
  value put, a range is read in the order of the keys, and a transaction that compares the value of
  a key succeeds only if the key is there with that value. A comparison of the value of a key that is
  not there is false, also with the value \<open>0\<close>.
\<close>

definition kv_store :: "'e etcd_client \<Rightarrow> ('e \<Rightarrow> string \<rightharpoonup> etcd_value) \<Rightarrow> bool" where
  "kv_store cl view \<longleftrightarrow>
     (\<forall>e k. ec_Get cl k e = (Got (view e k), e)) \<and>
     (\<forall>e k v l. \<exists>e'. ec_Put cl k v l e = (True, e') \<and> view e' = (view e)(k \<mapsto> v)) \<and>
     (\<forall>e k a b. \<exists>e'. ec_Txn cl k a b e = (Some (view e k = Some a), e') \<and>
        view e' = (if view e k = Some a then (view e)(k \<mapsto> b) else view e)) \<and>
     (\<forall>e p. \<exists>kvs. ec_GetPrefix cl p e = (Some kvs, e) \<and> sorted (map fst kvs) \<and> distinct (map fst kvs) \<and>
        (\<forall>k v. (k, v) \<in> set kvs \<longleftrightarrow> view e k = Some v \<and> prefix p k))"

lemma kv_store_Get: "kv_store cl view \<Longrightarrow> ec_Get cl k e = (Got (view e k), e)"
  by (simp add: kv_store_def)

lemma kv_store_Put:
  assumes "kv_store cl view"
  obtains e' where "ec_Put cl k v l e = (True, e')" and "view e' = (view e)(k \<mapsto> v)"
  using assms unfolding kv_store_def by blast

lemma kv_store_Txn:
  assumes "kv_store cl view"
  obtains e' where "ec_Txn cl k a b e = (Some (view e k = Some a), e')"
    and "view e' = (if view e k = Some a then (view e)(k \<mapsto> b) else view e)"
  using assms unfolding kv_store_def by blast

lemma kv_store_GetPrefix:
  assumes "kv_store cl view"
  obtains kvs where "ec_GetPrefix cl p e = (Some kvs, e)" and "sorted (map fst kvs)" and "distinct (map fst kvs)"
    and "\<And>k v. (k, v) \<in> set kvs \<longleftrightarrow> view e k = Some v \<and> prefix p k"
  using assms unfolding kv_store_def by blast

text \<open>
  A store in memory that satisfies them: every put is kept, the newest first. It grants no leases and
  has no members.
\<close>

definition mem_client :: "(string \<times> etcd_value) list etcd_client" where
  "mem_client = \<lparr>
     ec_Get = (\<lambda>k e. (Got (map_of e k), e)),
     ec_GetPrefix = (\<lambda>p e. (Some (sort_key fst (filter (\<lambda>kv. prefix p (fst kv)) (AList.clearjunk e))), e)),
     ec_Put = (\<lambda>k v l e. (True, (k, v) # e)),
     ec_Delete = (\<lambda>k e. (True, filter (\<lambda>kv. fst kv \<noteq> k) e)),
     ec_Txn = (\<lambda>k a b e. if map_of e k = Some a then (Some True, (k, b) # e) else (Some False, e)),
     ec_Grant = (\<lambda>ttl e. (None, e)),
     ec_KeepAliveOnce = (\<lambda>l e. (False, e)),
     ec_Revoke = (\<lambda>l e. (False, e)),
     ec_Status = (\<lambda>e. (None, e)),
     ec_MemberList = (\<lambda>e. (None, e))\<rparr>"

lemma kv_store_mem: "kv_store mem_client map_of"
proof -
  have "\<exists>kvs. ec_GetPrefix mem_client p e = (Some kvs, e) \<and> sorted (map fst kvs) \<and> distinct (map fst kvs) \<and>
      (\<forall>k v. (k, v) \<in> set kvs \<longleftrightarrow> map_of e k = Some v \<and> prefix p k)" for p e
  proof (intro exI conjI allI)
    let ?kvs = "sort_key fst (filter (\<lambda>kv. prefix p (fst kv)) (AList.clearjunk e))"
    show "ec_GetPrefix mem_client p e = (Some ?kvs, e)" by (simp add: mem_client_def)
    show "sorted (map fst ?kvs)" by simp
    have d: "distinct (map fst (filter (\<lambda>kv. prefix p (fst kv)) (AList.clearjunk e)))"
      by (simp add: distinct_map_filter)
    then show "distinct (map fst ?kvs)"
      by (simp add: distinct_map)
    show "(k, v) \<in> set ?kvs \<longleftrightarrow> map_of e k = Some v \<and> prefix p k" for k v
      using map_of_eq_Some_iff [OF distinct_clearjunk, of e k v] by (auto simp: map_of_clearjunk)
  qed
  then show ?thesis by (simp add: kv_store_def) (simp add: mem_client_def)
qed

section \<open>The counter\<close>

lemma wrap_i64_exact: "- (2 ^ 63) \<le> i \<Longrightarrow> i < 2 ^ 63 \<Longrightarrow> wrap_i64 i = i"
  by (simp add: wrap_i64_def)

lemma is_digit_digit_char: "d < 10 \<Longrightarrow> is_digit (digit_char d)"
  by (simp add: is_digit_def digit_char_def)

lemma is_digit_itoa: "list_all is_digit (itoa n)"
proof (induction n rule: itoa.induct)
  case (1 n)
  then show ?case
    by (cases "n < 10") (simp_all add: itoa.simps [of n] is_digit_digit_char)
qed

lemma parse_format_int:
  assumes "0 \<le> i" and "i < 2 ^ 63"
  shows "parse_int (format_int i) = Some i"
proof -
  obtain c cs where c: "itoa (nat i) = c # cs" by (cases "itoa (nat i)") simp_all
  with is_digit_itoa [of "nat i"] have "is_digit c" by simp
  then have "c \<noteq> CHR ''-''" "c \<noteq> CHR ''+''" by (auto simp: is_digit_def)
  moreover have "parse_digits (itoa (nat i)) = Some i"
    using assms(1) by (simp add: parse_digits_def is_digit_itoa)
  ultimately show ?thesis
    using assms c by (simp add: parse_int_def format_int_def)
qed

text \<open>One call on a counter that is there.\<close>

lemma getNextID_present:
  assumes "kv_store cl view" and "view e k = Some (EText (format_int i))" and "0 \<le> i" and "i + 1 < 2 ^ 63"
  obtains e' where "getNextID cl k e = Some (Inr (i + 1), e')"
    and "view e' = (view e)(k \<mapsto> EText (format_int (i + 1)))"
proof -
  obtain e' where t: "ec_Txn cl k (EText (format_int i)) (EText (format_int (i + 1))) e = (Some True, e')"
    and v: "view e' = (view e)(k \<mapsto> EText (format_int (i + 1)))"
    using kv_store_Txn [OF assms(1), of k "EText (format_int i)" "EText (format_int (i + 1))" e] assms(2) by auto
  have "getNextID cl k e = Some (Inr (i + 1), e')"
    using assms t
    by (subst getNextID.simps) (simp add: kv_store_Get [OF assms(1)] parse_format_int wrap_i64_exact)
  then show ?thesis using v by (rule that)
qed

lemma getNextID_missing_lemma:
  assumes "getNextID cl k e = Some r"
  shows "kv_store cl view \<longrightarrow> view e k \<noteq> None"
proof (rule getNextID.raw_induct [OF _ assms, where P = "\<lambda>cl k e r. kv_store cl view \<longrightarrow> view e k \<noteq> None"], intro impI notI)
  fix f :: "'a etcd_client \<Rightarrow> string \<Rightarrow> 'a \<Rightarrow> ((etcd_error + int) \<times> 'a) option" and cl k e r
  assume IH: "\<And>cl k e r. f cl k e = Some r \<Longrightarrow> kv_store cl view \<longrightarrow> view e k \<noteq> None"
    and st: "kv_store cl view" and none: "view e k = None"
    and eq: "(case ec_Get cl k e of
        (GetFailed, e1) \<Rightarrow> Some (Inl EGet, e1)
      | (GetKeyNotFound, e1) \<Rightarrow> Some (Inl EGet, e1)
      | (Got kv, e1) \<Rightarrow>
          (case (case kv of None \<Rightarrow> Some 0 | Some (EText s) \<Rightarrow> parse_int s | Some _ \<Rightarrow> None) of
             None \<Rightarrow> Some (Inl EParse, e1)
           | Some currentID \<Rightarrow>
               (case ec_Txn cl k (EText (format_int currentID)) (EText (format_int (wrap_i64 (currentID + 1)))) e1 of
                  (None, e2) \<Rightarrow> Some (Inl ETxn, e2)
                | (Some succeeded, e2) \<Rightarrow>
                    (if succeeded then Some (Inr (wrap_i64 (currentID + 1)), e2) else f cl k e2)))) = Some r"
  obtain e' where t: "ec_Txn cl k (EText (format_int 0)) (EText (format_int (wrap_i64 1))) e = (Some False, e')"
    and v: "view e' = view e"
    using kv_store_Txn [OF st, of k "EText (format_int 0)" "EText (format_int (wrap_i64 1))" e] none by auto
  from eq t have "f cl k e' = Some r" by (simp add: kv_store_Get [OF st] none)
  from IH [OF this] st v none show False by simp
qed

section \<open>The operation log\<close>

abbreviation counter_key :: string where
  "counter_key \<equiv> IncrementIDPrefix @ ''operation''"

lemma LogOperation_present:
  assumes "kv_store cl view" and "view e counter_key = Some (EText (format_int i))"
    and "0 \<le> i" and "i + 1 < 2 ^ 63"
  obtains e' where "LogOperation cl now f p e = Some (None, e')"
    and "view e' = (view e)(counter_key \<mapsto> EText (format_int (i + 1)),
           operation_key (i + 1) \<mapsto> EOperation \<lparr>ol_ID = i + 1, ol_Function = f, ol_Params = Some p, ol_Timestamp = Unix now\<rparr>)"
proof -
  let ?op = "EOperation \<lparr>ol_ID = i + 1, ol_Function = f, ol_Params = Some p, ol_Timestamp = Unix now\<rparr>"
  obtain e1 where 1: "getNextID cl counter_key e = Some (Inr (i + 1), e1)"
    and v1: "view e1 = (view e)(counter_key \<mapsto> EText (format_int (i + 1)))"
    using getNextID_present [of cl view e counter_key i] assms by blast
  obtain e2 where 2: "ec_Put cl (operation_key (i + 1)) ?op None e1 = (True, e2)"
    and v2: "view e2 = (view e1)(operation_key (i + 1) \<mapsto> ?op)"
    using kv_store_Put [OF assms(1), of "operation_key (i + 1)" ?op None e1] by blast
  have "LogOperation cl now f p e = Some (None, e2)"
    by (simp add: LogOperation_def 1 2)
  then show ?thesis by (rule that) (simp add: v1 v2)
qed

text \<open>A sequence of logged operations, each with its function, parameters and time.\<close>

fun log_all :: "'e etcd_client \<Rightarrow> (string \<times> json \<times> time) list \<Rightarrow> 'e \<Rightarrow> 'e option" where
  "log_all cl [] e = Some e"
| "log_all cl ((f, p, now) # ops) e = Option.bind (LogOperation cl now f p e) (\<lambda>(err, e1). log_all cl ops e1)"

fun log_entries :: "int \<Rightarrow> (string \<times> json \<times> time) list \<Rightarrow> operation_log list" where
  "log_entries i [] = []"
| "log_entries i ((f, p, now) # ops) =
     \<lparr>ol_ID = i + 1, ol_Function = f, ol_Params = Some p, ol_Timestamp = Unix now\<rparr> # log_entries (i + 1) ops"

abbreviation log_kv :: "operation_log \<Rightarrow> string \<times> etcd_value" where
  "log_kv op \<equiv> (operation_key (ol_ID op), EOperation op)"

lemma operation_key_inject: "0 \<le> i \<Longrightarrow> 0 \<le> j \<Longrightarrow> operation_key i = operation_key j \<longleftrightarrow> i = j"
  by (simp add: operation_key_def format_int_def nat_eq_iff)

lemma log_entries_ID: "map ol_ID (log_entries i ops) = map (\<lambda>j. i + 1 + int j) [0..<length ops]"
proof (induction i ops rule: log_entries.induct)
  case (2 i f p now ops)
  have "map (\<lambda>j. i + 1 + int j) [0..<Suc (length ops)] = (i + 1) # map (\<lambda>j. i + 1 + 1 + int j) [0..<length ops]"
    by (simp add: upt_conv_Cons map_Suc_upt [symmetric] algebra_simps del: upt_Suc)
  with 2 show ?case by simp
qed simp

lemma log_entries_bounds: "op \<in> set (log_entries i ops) \<Longrightarrow> i < ol_ID op"
proof -
  assume "op \<in> set (log_entries i ops)"
  then have "ol_ID op \<in> set (map (\<lambda>j. i + 1 + int j) [0..<length ops])"
    unfolding log_entries_ID [symmetric] by simp
  then show ?thesis by auto
qed

lemma log_keys_distinct: "0 \<le> i \<Longrightarrow> distinct (map (operation_key \<circ> ol_ID) (log_entries i ops))"
proof -
  assume "0 \<le> i"
  then have "distinct (map operation_key (map (\<lambda>j. i + 1 + int j) [0..<length ops]))"
    by (simp add: distinct_map inj_on_def operation_key_inject)
  then show ?thesis by (simp add: log_entries_ID [symmetric] del: map_map add: map_map [symmetric])
qed

lemma operation_key_prefix: "prefix OperationLogPrefix (operation_key i)"
  by (simp add: operation_key_def)

lemma counter_not_operation: "prefix OperationLogPrefix k \<Longrightarrow> k \<noteq> counter_key"
  by (auto simp: OperationLogPrefix_def IncrementIDPrefix_def)

lemma log_all_view:
  assumes st: "kv_store cl view"
  shows "view e counter_key = Some (EText (format_int i)) \<Longrightarrow> 0 \<le> i \<Longrightarrow> i + int (length ops) < 2 ^ 63 \<Longrightarrow>
    \<exists>e'. log_all cl ops e = Some e' \<and> (\<forall>k. prefix OperationLogPrefix k \<longrightarrow>
      view e' k = (view e ++ map_of (map log_kv (log_entries i ops))) k)"
proof (induction ops arbitrary: e i)
  case (Cons x ops)
  obtain f p now where x: "x = (f, p, now)" by (cases x) auto
  let ?op = "\<lparr>ol_ID = i + 1, ol_Function = f, ol_Params = Some p, ol_Timestamp = Unix now\<rparr>"
  obtain e1 where 1: "LogOperation cl now f p e = Some (None, e1)"
    and v1: "view e1 = (view e)(counter_key \<mapsto> EText (format_int (i + 1)), operation_key (i + 1) \<mapsto> EOperation ?op)"
    using LogOperation_present [of cl view e i now f p] st Cons.prems by auto
  have "counter_key \<noteq> operation_key (i + 1)"
    using counter_not_operation [OF operation_key_prefix] by metis
  then have "view e1 counter_key = Some (EText (format_int (i + 1)))"
    by (simp add: v1)
  then obtain e' where 2: "log_all cl ops e1 = Some e'" and v2: "\<forall>k. prefix OperationLogPrefix k \<longrightarrow>
      view e' k = (view e1 ++ map_of (map log_kv (log_entries (i + 1) ops))) k"
    using Cons.IH [of e1 "i + 1"] Cons.prems by auto
  have new: "map_of (map log_kv (log_entries (i + 1) ops)) (operation_key (i + 1)) = None"
    using log_entries_bounds [of _ "i + 1" ops] Cons.prems(2)
    by (fastforce simp: map_of_eq_None_iff operation_key_inject)
  have "view e' k = (view e ++ map_of (map log_kv (log_entries i (x # ops)))) k" if "prefix OperationLogPrefix k" for k
    using that v2 counter_not_operation [OF that] new
    by (auto simp: x v1 map_add_def split: option.splits)
  moreover have "log_all cl (x # ops) e = Some e'" by (simp add: x 1 2)
  ultimately show ?case by blast
qed simp

lemma sorted_by_key_unique:
  assumes "sorted (map fst xs)" and "distinct (map fst xs)" and "distinct (map fst ys)" and "set xs = set ys"
  shows "xs = sort_key fst ys"
proof (rule map_sorted_distinct_set_unique [where f = fst])
  show "inj_on fst (set xs \<union> set (sort_key fst ys))"
    using assms(2,4) by (simp add: distinct_map)
  show "distinct (map fst (sort_key fst ys))"
    using assms(3) by (simp add: distinct_map)
qed (use assms in simp_all)

lemma operations_of_log_kv: "operations_of (map log_kv ops) = ops"
  by (induction ops) (simp_all add: operations_of_def map_filter_simps)

lemma insort_key_log_kv:
  "insort_key fst (log_kv op) (map log_kv ops) = map log_kv (insort_key (\<lambda>op. operation_key (ol_ID op)) op ops)"
  by (induction ops) simp_all

lemma sort_key_log_kv: "sort_key fst (map log_kv ops) = map log_kv (sort_key (\<lambda>op. operation_key (ol_ID op)) ops)"
  by (induction ops) (simp_all add: insort_key_log_kv)

lemma GetAllOperations_log_all:
  assumes "kv_store cl view" and "view e (IncrementIDPrefix @ ''operation'') = Some (EText (format_int i))"
    and "0 \<le> i" and "i + int (length ops) < 2 ^ 63"
    and "\<forall>k. prefix OperationLogPrefix k \<longrightarrow> view e k = None"
  shows "\<exists>e'. log_all cl ops e = Some e' \<and>
    GetAllOperations cl e' = (Inr (sort_key (\<lambda>op. operation_key (ol_ID op)) (log_entries i ops)), e')"
proof -
  let ?kvs = "map log_kv (log_entries i ops)"
  obtain e' where e': "log_all cl ops e = Some e'"
    and v: "\<forall>k. prefix OperationLogPrefix k \<longrightarrow> view e' k = (view e ++ map_of ?kvs) k"
    using log_all_view [of cl view e i ops] assms by blast
  obtain kvs where kvs: "ec_GetPrefix cl OperationLogPrefix e' = (Some kvs, e')"
    and s: "sorted (map fst kvs)" "distinct (map fst kvs)"
    and m: "\<And>k w. (k, w) \<in> set kvs \<longleftrightarrow> view e' k = Some w \<and> prefix OperationLogPrefix k"
    using kv_store_GetPrefix [OF assms(1), of OperationLogPrefix e'] by blast
  have d: "distinct (map fst ?kvs)"
    using log_keys_distinct [OF assms(3), of ops] by (simp add: comp_def)
  have "set kvs = set ?kvs"
  proof (rule set_eqI)
    fix kw :: "string \<times> etcd_value"
    obtain k w where kw: "kw = (k, w)" by (cases kw)
    have "kw \<in> set kvs \<longleftrightarrow> prefix OperationLogPrefix k \<and> map_of ?kvs k = Some w"
      using m [of k w] v assms(5) by (auto simp: kw map_add_def split: option.splits)
    also have "\<dots> \<longleftrightarrow> kw \<in> set ?kvs"
      using map_of_eq_Some_iff [OF d, of k w] operation_key_prefix by (auto simp: kw)
    finally show "kw \<in> set kvs \<longleftrightarrow> kw \<in> set ?kvs" .
  qed
  then have "kvs = sort_key fst ?kvs" by (rule sorted_by_key_unique [OF s d])
  then have "kvs = map log_kv (sort_key (\<lambda>op. operation_key (ol_ID op)) (log_entries i ops))"
    by (simp only: sort_key_log_kv)
  then show ?thesis using e' kvs by (auto simp: GetAllOperations_def operations_of_log_kv)
qed

lemma replay_collect:
  "replay_operations (\<lambda>op s e. Returns (True, s @ [op], e)) ops acc e = Returns (True, acc @ ops, e)"
  by (induction ops arbitrary: acc) simp_all

section \<open>Properties\<close>

text \<open>
  C36: After a run of operations has been logged on a store whose log was empty, a replay calls the handler
  for each of them once, with consecutive identities, but in the order of their keys as texts, not in the
  order in which they happened: the tenth operation is replayed before the second.
\<close>

theorem replay_order:
  assumes "kv_store cl view" and "view e (IncrementIDPrefix @ ''operation'') = Some (EText (format_int i))"
    and "0 \<le> i" and "i + int (length ops) < 2 ^ 63"
    and "\<forall>k. prefix OperationLogPrefix k \<longrightarrow> view e k = None"
  shows "\<exists>e'. log_all cl ops e = Some e' \<and>
    ReplayOperations cl (\<lambda>op s e. Returns (True, s @ [op], e)) [] e' =
      Returns (None, sort_key (\<lambda>op. operation_key (ol_ID op)) (log_entries i ops), e')"
  using GetAllOperations_log_all [OF assms] by (auto simp: ReplayOperations_def replay_collect)

theorem replay_order_witness:
  "\<exists>e' ops. log_all mem_client (replicate 10 (''f'', JNull, 0)) [(IncrementIDPrefix @ ''operation'', EText (format_int 0))] = Some e' \<and>
     ReplayOperations mem_client (\<lambda>op s e. Returns (True, s @ [op], e)) [] e' = Returns (None, ops, e') \<and>
     map ol_ID ops = [1, 10, 2, 3, 4, 5, 6, 7, 8, 9]"
proof -
  let ?ops = "replicate 10 (''f'', JNull, 0 :: time)"
  let ?e = "[(IncrementIDPrefix @ ''operation'', EText (format_int 0))]"
  let ?sorted = "sort_key (\<lambda>op. operation_key (ol_ID op)) (log_entries 0 ?ops)"
  have "\<exists>e'. log_all mem_client ?ops ?e = Some e' \<and>
    ReplayOperations mem_client (\<lambda>op s e. Returns (True, s @ [op], e)) [] e' =
      Returns (None, sort_key (\<lambda>op. operation_key (ol_ID op)) (log_entries 0 ?ops), e')"
    by (rule replay_order [where view = map_of]) (simp_all add: kv_store_mem counter_not_operation)
  then obtain e' where "log_all mem_client ?ops ?e = Some e'"
    and "ReplayOperations mem_client (\<lambda>op s e. Returns (True, s @ [op], e)) [] e' = Returns (None, ?sorted, e')"
    by (elim exE conjE)
  moreover have "map ol_ID (sort_key (\<lambda>op. operation_key (ol_ID op)) (log_entries 0 ?ops)) = [1, 10, 2, 3, 4, 5, 6, 7, 8, 9]"
    by code_simp
  ultimately show ?thesis by (intro exI [of _ e'] exI [of _ ?sorted] conjI)
qed

text \<open>
  On a store that has no operation counter yet, logging an operation never returns: the transaction
  compares the missing key with the text 0, which etcd answers with a failure, and the function calls
  itself again in the same situation.
\<close>

theorem LogOperation_fresh_never_returns:
  assumes "kv_store cl view" and "view e (IncrementIDPrefix @ ''operation'') = None"
  shows "LogOperation cl now f p e = None"
proof -
  have "getNextID cl (IncrementIDPrefix @ ''operation'') e = None"
    using getNextID_missing_lemma [of cl "IncrementIDPrefix @ ''operation''" e _ view] assms
    by (cases "getNextID cl (IncrementIDPrefix @ ''operation'') e") simp_all
  then show ?thesis by (simp add: LogOperation_def)
qed

theorem LogOperation_fresh_never_returns_witness:
  "LogOperation mem_client 0 ''registerBroker'' JNull [] = None"
  by (rule LogOperation_fresh_never_returns [where view = map_of]) (simp_all add: kv_store_mem)

text \<open>
  Renewing a heartbeat waits for ever exactly when the lease table is locked already, the broker
  has no lease yet, or the renewal fails: the function that registers anew takes the lock its caller holds.
\<close>

lemma RenewBrokerHeartbeat_blocks_iff:
  "RenewBrokerHeartbeat cl brokerID address ttl em e = Blocks \<longleftrightarrow>
     em_leaseMu em \<or> em_leases em brokerID = None \<or>
     \<not> fst (ec_KeepAliveOnce cl (the (em_leases em brokerID)) e)"
  by (auto simp: RenewBrokerHeartbeat_def RegisterBrokerHeartbeat_def Let_def split: option.splits prod.splits bool.splits)

end
