(* ===== verification/Sentinel.thy ===== *)
theory Sentinel
  imports HashRing Etcd RaftManager
begin

text \<open>
  The sentinel of \<^verbatim>\<open>sentinel/server.go\<close>: the registry of brokers, the health checker, the choice of the
  brokers and the leader of a topic, and the recovery from etcd. A \<^verbatim>\<open>*BrokerInfo\<close> is shared between the
  registry, the caches and the health checker, so the objects live in a list and a pointer is an index
  of it. The etcd client and the brokers that answer remote calls work on the state \<open>'w\<close> of the world.
  A handler runs as one step; the locks it takes are not modelled, because no handler takes one twice.
\<close>

section \<open>Data\<close>

datatype broker_status = BrokerStatusHealthy | BrokerStatusSuspicious | BrokerStatusDown

fun status_code :: "broker_status \<Rightarrow> int" where
  "status_code BrokerStatusHealthy = 0"
| "status_code BrokerStatusSuspicious = 1"
| "status_code BrokerStatusDown = 2"

record sentinel_broker =
  sb_BrokerID :: string
  sb_Address :: string
  sb_Status :: broker_status
  sb_Topics :: "string list"
  sb_LastHeartbeat :: time

record replication_cache =
  rc_Brokers :: "nat list"
  rc_Version :: int
  rc_ReplicaCount :: nat
  rc_Leader :: "nat option"

text \<open>A topic's query lock is its version; the registry is the map the health checker shares.\<close>

record sentinel_server =
  ss_sentinelID :: string
  ss_address :: string
  ss_hashRing :: hash_ring
  ss_brokers :: "string \<rightharpoonup> nat"
  ss_objects :: "sentinel_broker list"
  ss_replicationCache :: "string \<rightharpoonup> replication_cache"
  ss_topicLocks :: "string \<rightharpoonup> int"
  ss_etcdManager :: "etcd_manager option"

record topic_leader_request =
  lr_Topic :: string
  lr_ReplicaCount :: nat
  lr_UnreachableBrokers :: "string list"

record topic_leader =
  tl_BrokerId :: string
  tl_Address :: string
  tl_Status :: int
  tl_Topics :: "string list"
  tl_LastHeartbeat :: int

record fragment_request =
  fq_Topic :: string
  fq_TargetBrokerId :: string
  fq_TargetBrokerAddress :: string
  fq_ReplicaIndex :: u64
  fq_TotalReplicas :: u64

datatype sentinel_error =
  SEtcd etcd_error | SNoBroker | SNoLeader | SNotEnough | SReplacement | SNoLeaderAddr | SForward
| SNoSuccessor | SNoTarget | SRemote | SNoEtcd

text \<open>
  The remote calls, by the address of the callee. The answer is the success flag of the response, with
  the role where there is one; \<open>None\<close> is a call that failed.
\<close>

record 'w broker_net =
  bn_RemoveTopic :: "string \<Rightarrow> string \<Rightarrow> string \<Rightarrow> 'w \<Rightarrow> bool option \<times> 'w"
  bn_SetTopicRole :: "string \<Rightarrow> string \<Rightarrow> topic_role \<Rightarrow> string list \<Rightarrow> string \<Rightarrow> 'w \<Rightarrow> bool option \<times> 'w"
  bn_GetBrokerTopicRole :: "string \<Rightarrow> string \<Rightarrow> string \<Rightarrow> 'w \<Rightarrow> (bool \<times> topic_role) option \<times> 'w"
  bn_RequestFragmentReplication :: "string \<Rightarrow> fragment_request \<Rightarrow> 'w \<Rightarrow> bool option \<times> 'w"
  bn_GetTopicLeader :: "string \<Rightarrow> topic_leader_request \<Rightarrow> 'w \<Rightarrow> topic_leader option \<times> 'w"

section \<open>The registry\<close>

abbreviation broker_at :: "sentinel_server \<Rightarrow> nat \<Rightarrow> sentinel_broker" where
  "broker_at s r \<equiv> ss_objects s ! r"

abbreviation healthy :: "sentinel_server \<Rightarrow> nat \<Rightarrow> bool" where
  "healthy s r \<equiv> sb_Status (broker_at s r) = BrokerStatusHealthy"

definition update_broker :: "nat \<Rightarrow> (sentinel_broker \<Rightarrow> sentinel_broker) \<Rightarrow> sentinel_server \<Rightarrow> sentinel_server" where
  "update_broker r f s = s\<lparr>ss_objects := (ss_objects s)[r := f (ss_objects s ! r)]\<rparr>"

definition add_broker :: "sentinel_broker \<Rightarrow> sentinel_server \<Rightarrow> sentinel_server" where
  "add_broker b s =
     s\<lparr>ss_objects := ss_objects s @ [b],
       ss_brokers := (ss_brokers s)(sb_BrokerID b \<mapsto> length (ss_objects s)),
       ss_hashRing := AddNode (ss_hashRing s) (sb_BrokerID b)\<rparr>"

definition drop_broker :: "string \<Rightarrow> sentinel_server \<Rightarrow> sentinel_server" where
  "drop_broker brokerID s =
     s\<lparr>ss_hashRing := RemoveNode (ss_hashRing s) brokerID, ss_brokers := (ss_brokers s)(brokerID := None)\<rparr>"

definition new_broker :: "time \<Rightarrow> string \<Rightarrow> string \<Rightarrow> string list \<Rightarrow> sentinel_broker" where
  "new_broker now brokerID address topics =
     \<lparr>sb_BrokerID = brokerID, sb_Address = address, sb_Status = BrokerStatusHealthy, sb_Topics = topics,
      sb_LastHeartbeat = now\<rparr>"

definition NewSentinelServer :: "string \<Rightarrow> string \<Rightarrow> bool \<Rightarrow> sentinel_server" where
  "NewSentinelServer sentinelID address etcd =
     \<lparr>ss_sentinelID = sentinelID, ss_address = address, ss_hashRing = NewHashRing 150,
      ss_brokers = Map.empty, ss_objects = [], ss_replicationCache = Map.empty, ss_topicLocks = Map.empty,
      ss_etcdManager = (if etcd then Some NewEtcdManager else None)\<rparr>"

text \<open>A heartbeat registers a broker that is not known, and refreshes one that is.\<close>

definition refresh_broker :: "time \<Rightarrow> string \<Rightarrow> sentinel_broker \<Rightarrow> sentinel_broker" where
  "refresh_broker now address b =
     b\<lparr>sb_Address := address, sb_Status := BrokerStatusHealthy, sb_LastHeartbeat := now\<rparr>"

definition heartbeat :: "time \<Rightarrow> string \<Rightarrow> string \<Rightarrow> sentinel_server \<Rightarrow> sentinel_server" where
  "heartbeat now brokerID address s =
     (case ss_brokers s brokerID of
        None \<Rightarrow> add_broker (new_broker now brokerID address []) s
      | Some r \<Rightarrow> update_broker r (refresh_broker now address) s)"

definition KeepAlive ::
  "'w etcd_client \<Rightarrow> time \<Rightarrow> string \<Rightarrow> string \<Rightarrow> sentinel_server \<Rightarrow> 'w \<Rightarrow> (bool \<times> sentinel_server \<times> 'w) call" where
  "KeepAlive cl now brokerID address s w =
     (case ss_etcdManager s of
        None \<Rightarrow> Returns (True, heartbeat now brokerID address s, w)
      | Some em \<Rightarrow>
          bind_call (RenewBrokerHeartbeat cl brokerID address 30 em w) (\<lambda>((err, em1), w1).
            let s1 = s\<lparr>ss_etcdManager := Some em1\<rparr>
            in Returns (if err \<noteq> None then (False, s1, w1) else (True, heartbeat now brokerID address s1, w1))))"

definition getTopicLock :: "string \<Rightarrow> sentinel_server \<Rightarrow> sentinel_server" where
  "getTopicLock topic s =
     (case ss_topicLocks s topic of
        None \<Rightarrow> s\<lparr>ss_topicLocks := (ss_topicLocks s)(topic \<mapsto> 0)\<rparr>
      | Some _ \<Rightarrow> s)"

definition set_status :: "broker_status \<Rightarrow> string \<Rightarrow> sentinel_server \<Rightarrow> sentinel_server" where
  "set_status status brokerID s =
     (case ss_brokers s brokerID of
        None \<Rightarrow> s
      | Some r \<Rightarrow> update_broker r (\<lambda>b. b\<lparr>sb_Status := status\<rparr>) s)"

definition updateBrokerStatus :: "string list \<Rightarrow> broker_status \<Rightarrow> sentinel_server \<Rightarrow> sentinel_server" where
  "updateBrokerStatus brokerIDs status s = fold (set_status status) brokerIDs s"

definition invalidateCache :: "string \<Rightarrow> sentinel_server \<Rightarrow> sentinel_server" where
  "invalidateCache topic s = s\<lparr>ss_replicationCache := (ss_replicationCache s)(topic := None)\<rparr>"

section \<open>The choice of brokers\<close>

text \<open>
  The loop of \<^verbatim>\<open>findReplacementBrokers\<close> over the walk of the ring; \<open>None\<close> is a loop that has used up its
  rounds, of which the caller gives more than the walk can take.
\<close>

fun replacement_loop ::
  "nat \<Rightarrow> sentinel_server \<Rightarrow> string list \<Rightarrow> int \<Rightarrow> node_iterator \<Rightarrow> nat list \<Rightarrow> nat list option" where
  "replacement_loop 0 s current neededCount it found = None"
| "replacement_loop (Suc n) s current neededCount it found =
     (if \<not> int (length found) < neededCount then Some found
      else case Next (ss_hashRing s) it of ((brokerID, err), it1) \<Rightarrow>
        if err \<noteq> None \<or> brokerID = [] then Some found
        else if brokerID \<in> set current then replacement_loop n s current neededCount it1 found
        else case ss_brokers s brokerID of
               None \<Rightarrow> replacement_loop n s current neededCount it1 found
             | Some r \<Rightarrow>
                 replacement_loop n s current neededCount it1 (if healthy s r then found @ [r] else found))"

definition findReplacementBrokers ::
  "string \<Rightarrow> nat list \<Rightarrow> int \<Rightarrow> sentinel_server \<Rightarrow> (nat list \<times> sentinel_error option) call" where
  "findReplacementBrokers topic currentBrokers neededCount s =
     (if neededCount \<le> 0 then Returns ([], None)
      else case replacement_loop (length (nodes (ss_hashRing s)) + 2) s
                  (map (\<lambda>r. sb_BrokerID (broker_at s r)) currentBrokers) neededCount
                  (GetNodeIter (ss_hashRing s) topic) [] of
             None \<Rightarrow> Blocks
           | Some found \<Rightarrow>
               Returns (found, if int (length found) < neededCount then Some SReplacement else None))"

text \<open>The healthy brokers among the first \<open>replicaCount\<close> of the walk.\<close>

definition healthy_registered :: "sentinel_server \<Rightarrow> string \<Rightarrow> nat option" where
  "healthy_registered s brokerID =
     (case ss_brokers s brokerID of None \<Rightarrow> None | Some r \<Rightarrow> if healthy s r then Some r else None)"

definition ring_brokers :: "string \<Rightarrow> nat \<Rightarrow> sentinel_server \<Rightarrow> nat list" where
  "ring_brokers topic replicaCount s =
     List.map_filter (healthy_registered s)
       (collect_loop (Next (ss_hashRing s)) replicaCount (GetNodeIter (ss_hashRing s) topic))"

section \<open>Remote calls\<close>

definition callRemoveTopicOnBroker :: "'w broker_net \<Rightarrow> string \<Rightarrow> string \<Rightarrow> string \<Rightarrow> 'w \<Rightarrow> bool \<times> 'w" where
  "callRemoveTopicOnBroker net brokerAddress topic reason w =
     (case bn_RemoveTopic net brokerAddress topic reason w of (resp, w1) \<Rightarrow> (resp = Some True, w1))"

definition callSetTopicRoleOnBroker ::
  "'w broker_net \<Rightarrow> string \<Rightarrow> string \<Rightarrow> topic_role \<Rightarrow> string list \<Rightarrow> string \<Rightarrow> 'w \<Rightarrow> bool \<times> 'w" where
  "callSetTopicRoleOnBroker net brokerAddr topic role followers leaderAddr w =
     (case bn_SetTopicRole net brokerAddr topic role followers leaderAddr w of (resp, w1) \<Rightarrow> (resp = Some True, w1))"

definition callGetBrokerTopicRoleOnBroker ::
  "'w broker_net \<Rightarrow> string \<Rightarrow> string \<Rightarrow> string \<Rightarrow> 'w \<Rightarrow> topic_role option \<times> 'w" where
  "callGetBrokerTopicRoleOnBroker net brokerAddr brokerID topic w =
     (case bn_GetBrokerTopicRole net brokerAddr brokerID topic w of
        (None, w1) \<Rightarrow> (None, w1)
      | (Some (success, role), w1) \<Rightarrow> (if success then Some role else None, w1))"

text \<open>The first healthy broker that answers that it leads the topic.\<close>

fun findLeaderBrokerFromBrokers ::
  "'w broker_net \<Rightarrow> sentinel_server \<Rightarrow> nat list \<Rightarrow> string \<Rightarrow> 'w \<Rightarrow> nat option \<times> 'w" where
  "findLeaderBrokerFromBrokers net s [] topic w = (None, w)"
| "findLeaderBrokerFromBrokers net s (r # rs) topic w =
     (if \<not> healthy s r then findLeaderBrokerFromBrokers net s rs topic w
      else case callGetBrokerTopicRoleOnBroker net (sb_Address (broker_at s r)) (sb_BrokerID (broker_at s r)) topic w of
             (role, w1) \<Rightarrow> if role = Some TOPIC_ROLE_LEADER then (Some r, w1)
                           else findLeaderBrokerFromBrokers net s rs topic w1)"

fun notify_followers ::
  "'w broker_net \<Rightarrow> string \<Rightarrow> sentinel_broker list \<Rightarrow> string list \<Rightarrow> string \<Rightarrow> 'w \<Rightarrow> 'w" where
  "notify_followers net topic [] followers leaderAddr w = w"
| "notify_followers net topic (b # bs) followers leaderAddr w =
     notify_followers net topic bs followers leaderAddr
       (snd (callSetTopicRoleOnBroker net (sb_Address b) topic TOPIC_ROLE_FOLLOWER followers leaderAddr w))"

definition notifyBrokersSetTopicRole ::
  "'w broker_net \<Rightarrow> string \<Rightarrow> nat list \<Rightarrow> nat \<Rightarrow> sentinel_server \<Rightarrow> 'w \<Rightarrow> bool \<times> 'w" where
  "notifyBrokersSetTopicRole net topic brokers leader s w =
     (let l = broker_at s leader;
          others = filter (\<lambda>b. sb_BrokerID b \<noteq> sb_BrokerID l) (map (broker_at s) brokers);
          followers = map sb_Address others
      in case callSetTopicRoleOnBroker net (sb_Address l) topic TOPIC_ROLE_LEADER followers (sb_Address l) w of
           (False, w1) \<Rightarrow> (False, w1)
         | (True, w1) \<Rightarrow> (True, notify_followers net topic others followers (sb_Address l) w1))"

section \<open>The leader of a topic\<close>

text \<open>The JSON texts of the parameters that are logged; a slice with no element is \<^verbatim>\<open>nil\<close> if it comes from a request.\<close>

definition json_strings :: "string list \<Rightarrow> json" where
  "json_strings ss = (if ss = [] then JNull else JArr (map JStr ss))"

definition json_broker :: "etcd_broker \<Rightarrow> json" where
  "json_broker b = JObj [(''broker_id'', JStr (eb_BrokerID b)), (''address'', JStr (eb_Address b)), (''status'', JNum (eb_Status b))]"

definition etcd_broker_of :: "sentinel_broker \<Rightarrow> etcd_broker" where
  "etcd_broker_of b = \<lparr>eb_BrokerID = sb_BrokerID b, eb_Address = sb_Address b, eb_Status = status_code (sb_Status b)\<rparr>"

definition leader_info :: "sentinel_broker \<Rightarrow> string list \<Rightarrow> topic_leader" where
  "leader_info b topics =
     \<lparr>tl_BrokerId = sb_BrokerID b, tl_Address = sb_Address b, tl_Status = status_code (sb_Status b),
      tl_Topics = topics, tl_LastHeartbeat = Unix (sb_LastHeartbeat b)\<rparr>"

text \<open>An operation that never returns from the log never returns to the caller.\<close>

definition log_operation ::
  "'w etcd_client \<Rightarrow> time \<Rightarrow> string \<Rightarrow> json \<Rightarrow> 'w \<Rightarrow> 'w call" where
  "log_operation cl now function params w =
     (case LogOperation cl now function params w of None \<Rightarrow> Blocks | Some (err, w1) \<Rightarrow> Returns w1)"

definition generateAndStoreTopicLeader ::
  "'w etcd_client \<Rightarrow> 'w broker_net \<Rightarrow> time \<Rightarrow> string \<Rightarrow> nat \<Rightarrow> sentinel_server \<Rightarrow> 'w \<Rightarrow>
   ((sentinel_error + topic_leader) \<times> sentinel_server \<times> 'w) call" where
  "generateAndStoreTopicLeader cl net now topic replicaCount s w =
     (let brokers = ring_brokers topic replicaCount s;
          etcdBrokers = map (\<lambda>r. etcd_broker_of (broker_at s r)) brokers;
          w1 = snd (SetTopicReplicas cl now topic etcdBrokers (int replicaCount) w)
      in bind_call
           (log_operation cl now ''generateTopicReplicas''
              (JObj [(''topic'', JStr topic), (''replica_count'', JNum (int replicaCount)),
                     (''brokers'', JArr (map json_broker etcdBrokers))]) w1)
           (\<lambda>w2. case brokers of
              [] \<Rightarrow> Returns (Inl SNoBroker, s, w2)
            | leader # _ \<Rightarrow>
                Returns (Inr (leader_info (broker_at s leader) []), s,
                         snd (notifyBrokersSetTopicRole net topic brokers leader s w2))))"

fun stored_leader ::
  "'w broker_net \<Rightarrow> sentinel_server \<Rightarrow> etcd_broker list \<Rightarrow> string \<Rightarrow> 'w \<Rightarrow> etcd_broker option \<times> 'w" where
  "stored_leader net s [] topic w = (None, w)"
| "stored_leader net s (b # bs) topic w =
     (case ss_brokers s (eb_BrokerID b) of
        None \<Rightarrow> stored_leader net s bs topic w
      | Some r \<Rightarrow>
          if \<not> healthy s r then stored_leader net s bs topic w
          else case callGetBrokerTopicRoleOnBroker net (eb_Address b) (eb_BrokerID b) topic w of
                 (role, w1) \<Rightarrow> if role = Some TOPIC_ROLE_LEADER then (Some b, w1) else stored_leader net s bs topic w1)"

definition getTopicLeaderFromEtcd ::
  "'w etcd_client \<Rightarrow> 'w broker_net \<Rightarrow> time \<Rightarrow> string \<Rightarrow> nat \<Rightarrow> sentinel_server \<Rightarrow> 'w \<Rightarrow>
   ((sentinel_error + topic_leader) \<times> sentinel_server \<times> 'w) call" where
  "getTopicLeaderFromEtcd cl net now topic replicaCount s w =
     (case GetTopicReplicas cl topic w of
        (Inl err, w1) \<Rightarrow> Returns (Inl (SEtcd err), s, w1)
      | (Inr None, w1) \<Rightarrow> generateAndStoreTopicLeader cl net now topic replicaCount s w1
      | (Inr (Some info), w1) \<Rightarrow>
          if Unix now - tr_Timestamp info > 300 then generateAndStoreTopicLeader cl net now topic replicaCount s w1
          else if tr_Brokers info = [] then Returns (Inl SNoBroker, s, w1)
          else case stored_leader net s (tr_Brokers info) topic w1 of
                 (None, w2) \<Rightarrow> Returns (Inl SNoLeader, s, w2)
               | (Some b, w2) \<Rightarrow>
                   Returns (Inr \<lparr>tl_BrokerId = eb_BrokerID b, tl_Address = eb_Address b, tl_Status = eb_Status b,
                                 tl_Topics = [], tl_LastHeartbeat = tr_Timestamp info\<rparr>, s, w2))"

text \<open>The reason that is sent with \<^verbatim>\<open>RemoveTopic\<close>, in UTF-8.\<close>

definition unreachable_reason :: "string \<Rightarrow> string" where
  "unreachable_reason brokerID = ''Broker '' @ brokerID @
     map char_of [0x20, 0xE6, 0x97, 0xA0, 0xE6, 0xB3, 0x95, 0xE8, 0xBF, 0x9E, 0xE6, 0x8E, 0xA5 :: nat]"

fun remove_topic_calls :: "'w broker_net \<Rightarrow> string \<Rightarrow> sentinel_server \<Rightarrow> string list \<Rightarrow> 'w \<Rightarrow> 'w" where
  "remove_topic_calls net topic s [] w = w"
| "remove_topic_calls net topic s (brokerID # ids) w =
     remove_topic_calls net topic s ids
       (case ss_brokers s brokerID of
          None \<Rightarrow> w
        | Some r \<Rightarrow> snd (callRemoveTopicOnBroker net (sb_Address (broker_at s r)) topic (unreachable_reason brokerID) w))"

text \<open>
  The end of two handlers: the broker that answers that it leads the topic is the leader, and the
  brokers are told. \<open>topics\<close> gives the topics that the response names.
\<close>

definition announce_leader ::
  "'w broker_net \<Rightarrow> string \<Rightarrow> (sentinel_broker \<Rightarrow> string list) \<Rightarrow> nat list \<Rightarrow> sentinel_server \<Rightarrow> 'w \<Rightarrow>
   (sentinel_error + topic_leader) \<times> sentinel_server \<times> 'w" where
  "announce_leader net topic topics brokers s w =
     (case findLeaderBrokerFromBrokers net s brokers topic w of
        (None, w1) \<Rightarrow> (Inl SNoLeader, s, w1)
      | (Some leader, w1) \<Rightarrow>
          (Inr (leader_info (broker_at s leader) (topics (broker_at s leader))), s,
           snd (notifyBrokersSetTopicRole net topic brokers leader s w1)))"

text \<open>The second half of the handler: the new choice is stored and logged, its leader asked for and notified.\<close>

definition store_replicas ::
  "'w etcd_client \<Rightarrow> 'w broker_net \<Rightarrow> time \<Rightarrow> string \<Rightarrow> nat \<Rightarrow> string list \<Rightarrow> nat list \<Rightarrow> sentinel_server \<Rightarrow> 'w \<Rightarrow>
   ((sentinel_error + topic_leader) \<times> sentinel_server \<times> 'w) call" where
  "store_replicas cl net now topic replicaCount unreachableBrokers currentBrokers s w =
     (let etcdBrokers = map (\<lambda>r. etcd_broker_of (broker_at s r)) currentBrokers
      in if length currentBrokers \<noteq> replicaCount then Returns (Inl SNotEnough, s, w)
         else case SetTopicReplicas cl now topic etcdBrokers (int replicaCount) w of
                (Some e, w1) \<Rightarrow> Returns (Inl (SEtcd e), s, w1)
              | (None, w1) \<Rightarrow>
                  bind_call
                    (log_operation cl now ''handleUnreachableBrokers''
                       (JObj [(''topic'', JStr topic), (''replica_count'', JNum (int replicaCount)),
                              (''unreachable_brokers'', json_strings unreachableBrokers),
                              (''new_brokers'', JArr (map json_broker etcdBrokers))]) w1)
                    (\<lambda>w2. Returns (announce_leader net topic (\<lambda>b. []) currentBrokers s w2)))"

definition handleUnreachableBrokersForLeader ::
  "'w etcd_client \<Rightarrow> 'w broker_net \<Rightarrow> time \<Rightarrow> string \<Rightarrow> nat \<Rightarrow> string list \<Rightarrow> sentinel_server \<Rightarrow> 'w \<Rightarrow>
   ((sentinel_error + topic_leader) \<times> sentinel_server \<times> 'w) call" where
  "handleUnreachableBrokersForLeader cl net now topic replicaCount unreachableBrokers s w =
     (let w1 = remove_topic_calls net topic s unreachableBrokers w;
          s1 = updateBrokerStatus unreachableBrokers BrokerStatusDown s
      in case GetTopicReplicas cl topic w1 of
           (Inl err, w2) \<Rightarrow> Returns (Inl (SEtcd err), s1, w2)
         | (Inr replicaInfo, w2) \<Rightarrow>
             (let available =
                    (case replicaInfo of
                       None \<Rightarrow> []
                     | Some info \<Rightarrow>
                         List.map_filter (healthy_registered s1)
                           (filter (\<lambda>i. i \<notin> set unreachableBrokers) (map eb_BrokerID (tr_Brokers info))));
                  neededCount = int replicaCount - int (length available)
              in if 0 < neededCount then
                   bind_call (findReplacementBrokers topic available neededCount s1) (\<lambda>(replacement, err).
                     if err \<noteq> None then Returns (Inl SReplacement, s1, w2)
                     else store_replicas cl net now topic replicaCount unreachableBrokers (available @ replacement) s1 w2)
                 else store_replicas cl net now topic replicaCount unreachableBrokers available s1 w2))"

definition forwardToLeader ::
  "'w broker_net \<Rightarrow> topic_leader_request \<Rightarrow> etcd_manager \<Rightarrow> sentinel_server \<Rightarrow> 'w \<Rightarrow>
   ((sentinel_error + topic_leader) \<times> sentinel_server \<times> 'w) call" where
  "forwardToLeader net req em s w =
     (let leaderAddr = GetLeaderAddr em
      in if leaderAddr = [] then Returns (Inl SNoLeaderAddr, s, w)
         else case bn_GetTopicLeader net leaderAddr req w of
                (None, w1) \<Rightarrow> Returns (Inl SForward, s, w1)
              | (Some resp, w1) \<Rightarrow> Returns (Inr resp, s, w1))"

section \<open>The leader of a topic without etcd\<close>

definition store_cache :: "string \<Rightarrow> nat list \<Rightarrow> nat \<Rightarrow> sentinel_server \<Rightarrow> sentinel_server" where
  "store_cache topic brokers replicaCount s =
     (let v = (case ss_topicLocks s topic of None \<Rightarrow> 0 | Some v \<Rightarrow> v) + 1
      in s\<lparr>ss_topicLocks := (ss_topicLocks s)(topic \<mapsto> v),
           ss_replicationCache := (ss_replicationCache s)(topic \<mapsto>
             \<lparr>rc_Brokers = brokers, rc_Version = v, rc_ReplicaCount = replicaCount,
              rc_Leader = (case brokers of [] \<Rightarrow> None | r # _ \<Rightarrow> Some r)\<rparr>)\<rparr>)"

definition current_brokers :: "string \<Rightarrow> nat \<Rightarrow> sentinel_server \<Rightarrow> nat list \<times> sentinel_server" where
  "current_brokers topic replicaCount s =
     (let fresh = ring_brokers topic replicaCount s
      in case ss_replicationCache s topic of
           None \<Rightarrow> (fresh, store_cache topic fresh replicaCount s)
         | Some c \<Rightarrow>
             if rc_ReplicaCount c = replicaCount then (rc_Brokers c, s)
             else (fresh, store_cache topic fresh replicaCount s))"

definition replace_unreachable ::
  "string \<Rightarrow> nat \<Rightarrow> string list \<Rightarrow> nat list \<Rightarrow> sentinel_server \<Rightarrow>
   ((sentinel_error + nat list) \<times> sentinel_server) call" where
  "replace_unreachable topic replicaCount unreachableBrokers currentBrokers s =
     (if unreachableBrokers = [] then Returns (Inr currentBrokers, s)
      else
        let s1 = updateBrokerStatus unreachableBrokers BrokerStatusDown s;
            available = filter (\<lambda>r. sb_BrokerID (broker_at s1 r) \<notin> set unreachableBrokers) currentBrokers;
            neededCount = int replicaCount - int (length available)
        in if 0 < neededCount then
             bind_call (findReplacementBrokers topic available neededCount s1) (\<lambda>(replacement, err).
               Returns (if err \<noteq> None then (Inl SReplacement, s1)
                        else (Inr (available @ replacement), store_cache topic (available @ replacement) replicaCount s1)))
           else Returns (Inr available, s1))"

definition getTopicLeaderLegacy ::
  "'w broker_net \<Rightarrow> topic_leader_request \<Rightarrow> sentinel_server \<Rightarrow> 'w \<Rightarrow>
   ((sentinel_error + topic_leader) \<times> sentinel_server \<times> 'w) call" where
  "getTopicLeaderLegacy net req s w =
     (case current_brokers (lr_Topic req) (lr_ReplicaCount req) (getTopicLock (lr_Topic req) s) of (cur, s1) \<Rightarrow>
        bind_call (replace_unreachable (lr_Topic req) (lr_ReplicaCount req) (lr_UnreachableBrokers req) cur s1)
          (\<lambda>(r, s2). case r of
             Inl err \<Rightarrow> Returns (Inl err, s2, w)
           | Inr brokers \<Rightarrow>
               if brokers = [] then Returns (Inl SNoBroker, s2, w)
               else Returns (announce_leader net (lr_Topic req) sb_Topics brokers s2 w)))"

definition GetTopicLeader ::
  "'w etcd_client \<Rightarrow> 'w broker_net \<Rightarrow> time \<Rightarrow> topic_leader_request \<Rightarrow> sentinel_server \<Rightarrow> 'w \<Rightarrow>
   ((sentinel_error + topic_leader) \<times> sentinel_server \<times> 'w) call" where
  "GetTopicLeader cl net now req s w =
     (case ss_etcdManager s of
        None \<Rightarrow> getTopicLeaderLegacy net req s w
      | Some em \<Rightarrow>
          if lr_UnreachableBrokers req = [] then
            getTopicLeaderFromEtcd cl net now (lr_Topic req) (lr_ReplicaCount req) s w
          else if Etcd.IsLeader em then
            handleUnreachableBrokersForLeader cl net now (lr_Topic req) (lr_ReplicaCount req) (lr_UnreachableBrokers req) s w
          else forwardToLeader net req em s w)"

section \<open>Joining and leaving\<close>

definition RegisterBroker ::
  "'w etcd_client \<Rightarrow> time \<Rightarrow> string \<Rightarrow> string \<Rightarrow> string list \<Rightarrow> sentinel_server \<Rightarrow> 'w \<Rightarrow>
   (bool \<times> sentinel_server \<times> 'w) call" where
  "RegisterBroker cl now brokerID address topics s w =
     (if ss_brokers s brokerID \<noteq> None then Returns (False, s, w)
      else
        let s1 = add_broker (new_broker now brokerID address topics) s;
            s2 = fold invalidateCache topics s1
        in if ss_etcdManager s = None then Returns (True, s2, w)
           else bind_call
                  (log_operation cl now ''registerBroker''
                     (JObj [(''broker_id'', JStr brokerID), (''address'', JStr address), (''topics'', json_strings topics)]) w)
                  (\<lambda>w1. Returns (True, s2, w1)))"

definition unregister_local :: "string \<Rightarrow> sentinel_server \<Rightarrow> bool \<times> sentinel_server" where
  "unregister_local brokerID s =
     (case ss_brokers s brokerID of
        None \<Rightarrow> (False, s)
      | Some r \<Rightarrow> (True, drop_broker brokerID (fold invalidateCache (sb_Topics (broker_at s r)) s)))"

definition UnregisterBroker ::
  "'w etcd_client \<Rightarrow> string \<Rightarrow> sentinel_server \<Rightarrow> 'w \<Rightarrow> (bool \<times> sentinel_server \<times> 'w) call" where
  "UnregisterBroker cl brokerID s w =
     (case ss_etcdManager s of
        None \<Rightarrow> (case unregister_local brokerID s of (ok, s1) \<Rightarrow> Returns (ok, s1, w))
      | Some em \<Rightarrow>
          bind_call (UnregisterBrokerHeartbeat cl brokerID em w) (\<lambda>((err, em1), w1).
            let s1 = s\<lparr>ss_etcdManager := Some em1\<rparr>
            in if err \<noteq> None then Returns (False, s1, w1)
               else case unregister_local brokerID s1 of (ok, s2) \<Rightarrow> Returns (ok, s2, w1)))"

section \<open>The health checker\<close>

abbreviation seconds :: "int \<Rightarrow> time" where
  "seconds n \<equiv> n * 1000000000"

fun checked_status :: "broker_status \<Rightarrow> time \<Rightarrow> broker_status" where
  "checked_status BrokerStatusHealthy silence = (if silence > seconds 60 then BrokerStatusSuspicious else BrokerStatusHealthy)"
| "checked_status BrokerStatusSuspicious silence =
     (if silence > seconds 120 then BrokerStatusDown
      else if silence \<le> seconds 30 then BrokerStatusHealthy else BrokerStatusSuspicious)"
| "checked_status BrokerStatusDown silence = BrokerStatusDown"

text \<open>
  \<open>order\<close> is the order in which the copy of the registry is iterated. The topics of the brokers whose
  status changed are gathered, and their caches dropped at the end.
\<close>

definition check_broker :: "time \<Rightarrow> string \<Rightarrow> sentinel_server \<times> string list \<Rightarrow> sentinel_server \<times> string list" where
  "check_broker now brokerID st =
     (case ss_brokers (fst st) brokerID of
        None \<Rightarrow> st
      | Some r \<Rightarrow>
          (let b = broker_at (fst st) r;
               status = checked_status (sb_Status b) (now - sb_LastHeartbeat b)
           in (update_broker r (\<lambda>b. b\<lparr>sb_Status := status\<rparr>) (fst st),
               if status \<noteq> sb_Status b then snd st @ sb_Topics b else snd st)))"

definition checkBrokers :: "time \<Rightarrow> string list \<Rightarrow> sentinel_server \<Rightarrow> sentinel_server" where
  "checkBrokers now order s =
     (case fold (check_broker now) order (s, []) of (s1, topics) \<Rightarrow> fold invalidateCache topics s1)"

record sentinel_info =
  si_sentinel_id :: string
  si_address :: string
  si_brokers :: "sentinel_broker list"
  si_broker_count :: nat

definition GetSentinelInfo :: "string list \<Rightarrow> sentinel_server \<Rightarrow> sentinel_info" where
  "GetSentinelInfo order s =
     (let bs = List.map_filter (\<lambda>i. map_option (broker_at s) (ss_brokers s i)) order
      in \<lparr>si_sentinel_id = ss_sentinelID s, si_address = ss_address s, si_brokers = bs, si_broker_count = length bs\<rparr>)"

section \<open>Recovery from etcd\<close>

text \<open>
  The type assertions on the values of a decoded map panic on a value of another type, and a missing
  key reads as \<^verbatim>\<open>nil\<close>.
\<close>

fun assert_string :: "json \<Rightarrow> string call" where
  "assert_string (JStr s) = Returns s"
| "assert_string _ = Panics"

fun assert_number :: "json \<Rightarrow> int call" where
  "assert_number (JNum i) = Returns i"
| "assert_number _ = Panics"

fun assert_array :: "json \<Rightarrow> json list call" where
  "assert_array (JArr js) = Returns js"
| "assert_array _ = Panics"

fun assert_map :: "json \<Rightarrow> (string \<times> json) list call" where
  "assert_map (JObj fs) = Returns fs"
| "assert_map _ = Panics"

fun map_call :: "('a \<Rightarrow> 'b call) \<Rightarrow> 'a list \<Rightarrow> 'b list call" where
  "map_call f [] = Returns []"
| "map_call f (x # xs) = bind_call (f x) (\<lambda>y. bind_call (map_call f xs) (\<lambda>ys. Returns (y # ys)))"

definition assert_broker :: "json \<Rightarrow> etcd_broker call" where
  "assert_broker j =
     bind_call (assert_map j) (\<lambda>d.
     bind_call (assert_string (field ''broker_id'' d)) (\<lambda>brokerID.
     bind_call (assert_string (field ''address'' d)) (\<lambda>address.
     bind_call (assert_number (field ''status'' d)) (\<lambda>status.
       Returns \<lparr>eb_BrokerID = brokerID, eb_Address = address, eb_Status = status\<rparr>))))"

text \<open>\<^verbatim>\<open>json.Unmarshal\<close> of the parameters into a map; its error is the handler's.\<close>

definition with_params ::
  "json option \<Rightarrow> ((string \<times> json) list \<Rightarrow> (bool \<times> 's \<times> 'w) call) \<Rightarrow> 's \<Rightarrow> 'w \<Rightarrow> (bool \<times> 's \<times> 'w) call" where
  "with_params params body s w =
     (case Option.bind params un_struct of None \<Rightarrow> Returns (False, s, w) | Some data \<Rightarrow> body data)"

definition replayAddBrokerToHashRing :: "json option \<Rightarrow> sentinel_server \<Rightarrow> 'w \<Rightarrow> (bool \<times> sentinel_server \<times> 'w) call" where
  "replayAddBrokerToHashRing params s w =
     with_params params (\<lambda>data.
       bind_call (assert_string (field ''broker_id'' data)) (\<lambda>brokerID.
         Returns (True, s\<lparr>ss_hashRing := AddNode (ss_hashRing s) brokerID\<rparr>, w))) s w"

definition replayRegisterBroker :: "time \<Rightarrow> json option \<Rightarrow> sentinel_server \<Rightarrow> 'w \<Rightarrow> (bool \<times> sentinel_server \<times> 'w) call" where
  "replayRegisterBroker now params s w =
     with_params params (\<lambda>data.
       bind_call (assert_string (field ''broker_id'' data)) (\<lambda>brokerID.
       bind_call (assert_string (field ''address'' data)) (\<lambda>address.
       bind_call (assert_array (field ''topics'' data)) (\<lambda>topicsInterface.
       bind_call (map_call assert_string topicsInterface) (\<lambda>topics.
         Returns (True, add_broker (new_broker now brokerID address topics) s, w)))))) s w"

definition replayUnregisterBroker :: "json option \<Rightarrow> sentinel_server \<Rightarrow> 'w \<Rightarrow> (bool \<times> sentinel_server \<times> 'w) call" where
  "replayUnregisterBroker params s w =
     with_params params (\<lambda>data.
       bind_call (assert_string (field ''broker_id'' data)) (\<lambda>brokerID.
         Returns (True, drop_broker brokerID s, w))) s w"

definition replayGenerateTopicReplicas ::
  "'w etcd_client \<Rightarrow> time \<Rightarrow> json option \<Rightarrow> sentinel_server \<Rightarrow> 'w \<Rightarrow> (bool \<times> sentinel_server \<times> 'w) call" where
  "replayGenerateTopicReplicas cl now params s w =
     with_params params (\<lambda>data.
       bind_call (assert_string (field ''topic'' data)) (\<lambda>topic.
       bind_call (assert_number (field ''replica_count'' data)) (\<lambda>replicaCount.
       bind_call (assert_array (field ''brokers'' data)) (\<lambda>brokersInterface.
       bind_call (map_call assert_broker brokersInterface) (\<lambda>etcdBrokers.
         case SetTopicReplicas cl now topic etcdBrokers replicaCount w of
           (err, w1) \<Rightarrow> Returns (err = None, s, w1)))))) s w"

definition replayHandleUnreachableBrokers ::
  "'w etcd_client \<Rightarrow> time \<Rightarrow> json option \<Rightarrow> sentinel_server \<Rightarrow> 'w \<Rightarrow> (bool \<times> sentinel_server \<times> 'w) call" where
  "replayHandleUnreachableBrokers cl now params s w =
     with_params params (\<lambda>data.
       bind_call (assert_string (field ''topic'' data)) (\<lambda>topic.
       bind_call (assert_number (field ''replica_count'' data)) (\<lambda>replicaCount.
       bind_call (assert_array (field ''unreachable_brokers'' data)) (\<lambda>unreachableInterface.
       bind_call (assert_array (field ''new_brokers'' data)) (\<lambda>newBrokersInterface.
       bind_call (map_call assert_string unreachableInterface) (\<lambda>unreachableBrokers.
       bind_call (map_call assert_broker newBrokersInterface) (\<lambda>etcdBrokers.
         case SetTopicReplicas cl now topic etcdBrokers replicaCount w of
           (err, w1) \<Rightarrow> Returns (err = None, updateBrokerStatus unreachableBrokers BrokerStatusDown s, w1)))))))) s w"

definition replayOperation ::
  "'w etcd_client \<Rightarrow> time \<Rightarrow> operation_log \<Rightarrow> sentinel_server \<Rightarrow> 'w \<Rightarrow> (bool \<times> sentinel_server \<times> 'w) call" where
  "replayOperation cl now op s w =
     (if ol_Function op = ''addBrokerToHashRing'' then replayAddBrokerToHashRing (ol_Params op) s w
      else if ol_Function op = ''registerBroker'' then replayRegisterBroker now (ol_Params op) s w
      else if ol_Function op = ''unregisterBroker'' then replayUnregisterBroker (ol_Params op) s w
      else if ol_Function op = ''generateTopicReplicas'' then replayGenerateTopicReplicas cl now (ol_Params op) s w
      else if ol_Function op = ''handleUnreachableBrokers'' then replayHandleUnreachableBrokers cl now (ol_Params op) s w
      else Returns (True, s, w))"

definition RecoverFromEtcd ::
  "'w etcd_client \<Rightarrow> time \<Rightarrow> sentinel_server \<Rightarrow> 'w \<Rightarrow> (sentinel_error option \<times> sentinel_server \<times> 'w) call" where
  "RecoverFromEtcd cl now s w =
     (if ss_etcdManager s = None then Returns (Some SNoEtcd, s, w)
      else bind_call (ReplayOperations cl (replayOperation cl now) s w)
             (\<lambda>(err, s1, w1). Returns (map_option SEtcd err, s1, w1)))"

definition handleBrokerHeartbeatChange ::
  "time \<Rightarrow> string \<Rightarrow> string \<Rightarrow> etcd_broker option \<Rightarrow> sentinel_server \<Rightarrow> sentinel_server" where
  "handleBrokerHeartbeatChange now brokerID eventType broker s =
     (if eventType = ''PUT'' then
        (case broker of None \<Rightarrow> s | Some b \<Rightarrow> heartbeat now brokerID (eb_Address b) s)
      else if eventType = ''DELETE'' then
        (if ss_brokers s brokerID \<noteq> None then drop_broker brokerID s else s)
      else s)"

definition recoverBrokersFromEtcd ::
  "'w etcd_client \<Rightarrow> time \<Rightarrow> sentinel_server \<Rightarrow> 'w \<Rightarrow> sentinel_error option \<times> sentinel_server \<times> 'w" where
  "recoverBrokersFromEtcd cl now s w =
     (if ss_etcdManager s = None then (Some SNoEtcd, s, w)
      else case GetBrokerHeartbeats cl w of
             (Inl err, w1) \<Rightarrow> (Some (SEtcd err), s, w1)
           | (Inr brokers, w1) \<Rightarrow>
               (None, fold (\<lambda>b. add_broker (new_broker now (eb_BrokerID b) (eb_Address b) [])) brokers s, w1))"

text \<open>The errors of the recovery are only logged. \<open>listen\<close> says whether the port could be opened.\<close>

definition Start ::
  "'w etcd_client \<Rightarrow> time \<Rightarrow> bool \<Rightarrow> sentinel_server \<Rightarrow> 'w \<Rightarrow> (bool \<times> sentinel_server \<times> 'w) call" where
  "Start cl now listen s w =
     (if \<not> listen then Returns (False, s, w)
      else if ss_etcdManager s = None then Returns (True, s, w)
      else bind_call (RecoverFromEtcd cl now s w) (\<lambda>(err, s1, w1).
             case recoverBrokersFromEtcd cl now s1 w1 of (err2, s2, w2) \<Rightarrow> Returns (True, s2, w2)))"

section \<open>The successor of a broker\<close>

definition has_topic :: "string \<Rightarrow> sentinel_server \<Rightarrow> nat \<Rightarrow> bool" where
  "has_topic topic s r \<longleftrightarrow> healthy s r \<and> topic \<in> set (sb_Topics (broker_at s r))"

definition callRequestFragmentReplication ::
  "'w broker_net \<Rightarrow> string list \<Rightarrow> string \<Rightarrow> string \<Rightarrow> string \<Rightarrow> sentinel_server \<Rightarrow> 'w \<Rightarrow> sentinel_error option \<times> 'w" where
  "callRequestFragmentReplication net order brokerAddr topic targetBrokerID s w =
     (case ss_brokers s targetBrokerID of
        None \<Rightarrow> (Some SNoTarget, w)
      | Some target \<Rightarrow>
          (let currentReplicas = word_of_nat (length (filter (has_topic topic s) (List.map_filter (ss_brokers s) order)));
               req = \<lparr>fq_Topic = topic, fq_TargetBrokerId = targetBrokerID,
                      fq_TargetBrokerAddress = sb_Address (broker_at s target),
                      fq_ReplicaIndex = currentReplicas - 1, fq_TotalReplicas = currentReplicas\<rparr>
           in case bn_RequestFragmentReplication net brokerAddr req w of
                (resp, w1) \<Rightarrow> (if resp = Some True then None else Some SRemote, w1)))"

fun command_replication ::
  "'w broker_net \<Rightarrow> string list \<Rightarrow> string \<Rightarrow> string \<Rightarrow> sentinel_server \<Rightarrow> nat list \<Rightarrow> 'w \<Rightarrow> 'w" where
  "command_replication net order topic successorID s [] w = w"
| "command_replication net order topic successorID s (peer # peers) w =
     command_replication net order topic successorID s peers
       (snd (callRequestFragmentReplication net order (sb_Address (broker_at s peer)) topic successorID s w))"

definition FindAndAssignTopicSuccessor ::
  "'w broker_net \<Rightarrow> string list \<Rightarrow> string \<Rightarrow> string \<Rightarrow> sentinel_server \<Rightarrow> 'w \<Rightarrow> (sentinel_error option \<times> 'w) call" where
  "FindAndAssignTopicSuccessor net order brokerID topic s w =
     (let currentBrokers =
            filter (\<lambda>r. has_topic topic s r \<and> sb_BrokerID (broker_at s r) \<noteq> brokerID) (List.map_filter (ss_brokers s) order)
      in bind_call (findReplacementBrokers topic currentBrokers 1 s) (\<lambda>(successors, err).
           case successors of
             [] \<Rightarrow> Returns (Some SNoSuccessor, w)
           | successor # _ \<Rightarrow>
               if err \<noteq> None then Returns (Some SNoSuccessor, w)
               else Returns (None, command_replication net order topic (sb_BrokerID (broker_at s successor)) s currentBrokers w)))"

section \<open>The search for replacements\<close>

text \<open>The brokers a search may take: registered, healthy and not in use.\<close>

definition replacement_for :: "sentinel_server \<Rightarrow> nat list \<Rightarrow> string \<Rightarrow> nat option" where
  "replacement_for s current brokerID =
     (if brokerID \<in> (\<lambda>r. sb_BrokerID (broker_at s r)) ` set current then None else healthy_registered s brokerID)"

lemma length_visit: "length (visit st S os) \<le> length os"
  by (induction st S os rule: visit.induct) auto

lemma length_pending: "length (pending_nodes h it) \<le> length (nodes h)"
  using length_visit by (auto simp: pending_nodes_def intro: le_trans [OF length_visit])

lemma replacement_loop_spec:
  assumes "valid_iter (ss_hashRing s) it" and "length (pending_nodes (ss_hashRing s) it) < n"
    and "int (length found) \<le> neededCount"
  shows "replacement_loop n s (map (\<lambda>r. sb_BrokerID (broker_at s r)) current) neededCount it found =
    Some (found @ take (nat neededCount - length found)
      (List.map_filter (replacement_for s current) (pending_nodes (ss_hashRing s) it)))"
  using assms
proof (induction n arbitrary: it found)
  case (Suc n)
  let ?h = "ss_hashRing s"
  show ?case
  proof (cases "int (length found) < neededCount")
    case False
    with Suc.prems(3) have "nat neededCount = length found" by simp
    with False show ?thesis by simp
  next
    case more: True
    show ?thesis
    proof (cases "pending_nodes ?h it")
      case Nil
      obtain node err it' where nx: "Next ?h it = ((node, err), it')" by (metis prod.exhaust)
      then have "node = [] \<or> err \<noteq> None" using ring_walk.nxt_Nil [OF Suc.prems(1) Nil] by blast
      with more nx Nil show ?thesis by (auto simp: map_filter_simps)
    next
      case (Cons x xs)
      obtain it' where nx: "Next ?h it = ((x, None), it')" and x: "x \<noteq> []"
        and v: "valid_iter ?h it'" and p: "pending_nodes ?h it' = xs"
        using ring_walk.nxt_Cons [OF Suc.prems(1) Cons] by blast
      have len: "length (pending_nodes ?h it') < n" using Suc.prems(2) Cons p by simp
      have skip: "replacement_loop n s (map (\<lambda>r. sb_BrokerID (broker_at s r)) current) neededCount it' found =
          Some (found @ take (nat neededCount - length found) (List.map_filter (replacement_for s current) xs))"
        using Suc.IH [OF v len Suc.prems(3)] p by simp
      have take_it: "replacement_loop n s (map (\<lambda>r. sb_BrokerID (broker_at s r)) current) neededCount it' (found @ [r]) =
          Some (found @ r # take (nat neededCount - Suc (length found)) (List.map_filter (replacement_for s current) xs))" for r
        using Suc.IH [OF v len, of "found @ [r]"] p more by simp
      have Suc_diff: "nat neededCount - length found = Suc (nat neededCount - Suc (length found))"
        using more by simp
      show ?thesis
        using more nx x skip take_it Cons
        by (auto simp: map_filter_simps replacement_for_def [of s current x] healthy_registered_def [of s x] Suc_diff split: option.splits)
    qed
  qed
qed simp

lemma findReplacementBrokers_eq:
  "findReplacementBrokers topic current neededCount s =
     (let found = take (nat neededCount) (List.map_filter (replacement_for s current) (visit False {} (circle (ss_hashRing s) topic)))
      in Returns (found, if int (length found) < neededCount then Some SReplacement else None))"
proof (cases "neededCount \<le> 0")
  case False
  have "length (pending_nodes (ss_hashRing s) (GetNodeIter (ss_hashRing s) topic)) < length (nodes (ss_hashRing s)) + 2"
    using length_pending [of "ss_hashRing s" "GetNodeIter (ss_hashRing s) topic"] by linarith
  from replacement_loop_spec [OF valid_GetNodeIter this, of "[]" neededCount current] False
  show ?thesis by (simp add: findReplacementBrokers_def pending_GetNodeIter Let_def)
qed (simp add: findReplacementBrokers_def)

section \<open>The registry, the ring and the caches\<close>

text \<open>
  The ring of the members \<open>M\<close>, whether or not their virtual nodes collide: its positions are the virtual
  nodes of the members, each as often as it occurs, and a position that has an owner is owned by a member.
\<close>

definition ring_sound :: "hash_ring \<Rightarrow> string set \<Rightarrow> bool" where
  "ring_sound h M \<longleftrightarrow> finite M \<and> sorted (nodes h) \<and>
     mset (nodes h) = (\<Sum>m \<in> M. mset (map (vhash m) [0..<nat (replicas h)])) \<and>
     (\<forall>x node. nodeMap h x = Some node \<longrightarrow> node \<in> M \<and> x \<in> positions (replicas h) node)"

lemma ring_sound_New: "ring_sound (NewHashRing r) {}"
  by (simp add: ring_sound_def NewHashRing_def)

lemma ring_sound_AddNode:
  assumes "ring_sound h M" and "node \<notin> M"
  shows "ring_sound (AddNode h node) (insert node M)"
  using assms by (auto simp: ring_sound_def AddNode_sel split: if_splits)

lemma ring_sound_RemoveNode:
  assumes "ring_sound h M" and "node \<in> M"
  shows "ring_sound (RemoveNode h node) (M - {node})"
proof -
  let ?v = "\<lambda>m. mset (map (vhash m) [0..<nat (replicas h)])"
  from assms have "mset (nodes h) = ?v node + (\<Sum>m \<in> M - {node}. ?v m)"
    by (simp add: ring_sound_def sum.remove del: mset_map)
  then have "mset (nodes (RemoveNode h node)) = (\<Sum>m \<in> M - {node}. ?v m)"
    by (simp add: RemoveNode_sel(1) del: mset_map)
  with assms show ?thesis
    by (auto simp: ring_sound_def RemoveNode_sel(2-) split: if_splits simp del: mset_map)
qed

text \<open>A cached choice of brokers: existing objects with different identities, the first of them the leader.\<close>

definition cache_ok :: "sentinel_broker list \<Rightarrow> int option \<Rightarrow> replication_cache \<Rightarrow> bool" where
  "cache_ok objs v c \<longleftrightarrow>
     (\<forall>r \<in> set (rc_Brokers c). r < length objs) \<and> distinct (map (\<lambda>r. sb_BrokerID (objs ! r)) (rc_Brokers c)) \<and>
     length (rc_Brokers c) \<le> rc_ReplicaCount c \<and> v = Some (rc_Version c) \<and>
     rc_Leader c = (case rc_Brokers c of [] \<Rightarrow> None | r # _ \<Rightarrow> Some r)"

definition registry_ok :: "sentinel_server \<Rightarrow> bool" where
  "registry_ok s \<longleftrightarrow>
     replicas (ss_hashRing s) = 150 \<and> ring_sound (ss_hashRing s) (dom (ss_brokers s)) \<and>
     (\<forall>i r. ss_brokers s i = Some r \<longrightarrow> r < length (ss_objects s) \<and> sb_BrokerID (broker_at s r) = i) \<and>
     (\<forall>t c. ss_replicationCache s t = Some c \<longrightarrow> cache_ok (ss_objects s) (ss_topicLocks s t) c)"

lemma registry_ok_New: "registry_ok (NewSentinelServer i a e)"
  using ring_sound_New [of 150] by (simp add: registry_ok_def NewSentinelServer_def NewHashRing_def)

lemma registry_ok_broker:
  "registry_ok s \<Longrightarrow> ss_brokers s i = Some r \<Longrightarrow> r < length (ss_objects s) \<and> sb_BrokerID (broker_at s r) = i"
  by (simp add: registry_ok_def)

lemma registry_ok_etcd [simp]: "registry_ok (s\<lparr>ss_etcdManager := x\<rparr>) = registry_ok s"
  by (simp add: registry_ok_def)

lemma cache_ok_cong:
  assumes "cache_ok objs v c" and "length objs \<le> length objs'"
    and "\<And>r. r < length objs \<Longrightarrow> sb_BrokerID (objs' ! r) = sb_BrokerID (objs ! r)"
  shows "cache_ok objs' v c"
proof -
  have "map (\<lambda>r. sb_BrokerID (objs' ! r)) (rc_Brokers c) = map (\<lambda>r. sb_BrokerID (objs ! r)) (rc_Brokers c)"
    using assms(1,3) by (simp add: cache_ok_def)
  with assms(1,2) show ?thesis unfolding cache_ok_def by (metis order_less_le_trans)
qed

lemma registry_ok_update:
  assumes "registry_ok s" and "\<And>b. sb_BrokerID (f b) = sb_BrokerID b"
  shows "registry_ok (update_broker r f s)"
proof -
  have same: "sb_BrokerID ((ss_objects s)[r := f (ss_objects s ! r)] ! q) = sb_BrokerID (ss_objects s ! q)" for q
    using assms(2) by (cases "r < length (ss_objects s)") (auto simp: nth_list_update list_update_beyond)
  have "cache_ok ((ss_objects s)[r := f (ss_objects s ! r)]) v c" if "cache_ok (ss_objects s) v c" for v c
    using that by (rule cache_ok_cong) (simp_all add: same)
  with assms(1) show ?thesis by (simp add: registry_ok_def update_broker_def same)
qed

lemma registry_ok_add:
  assumes "registry_ok s" and "ss_brokers s (sb_BrokerID b) = None"
  shows "registry_ok (add_broker b s)"
proof -
  have "cache_ok (ss_objects s @ [b]) v c" if "cache_ok (ss_objects s) v c" for v c
    using that by (rule cache_ok_cong) (simp_all add: nth_append)
  with assms ring_sound_AddNode [of "ss_hashRing s" "dom (ss_brokers s)" "sb_BrokerID b"] show ?thesis
    by (auto simp: registry_ok_def add_broker_def AddNode_sel nth_append less_Suc_eq split: if_splits)
qed

lemma registry_ok_drop:
  assumes "registry_ok s" and "ss_brokers s i \<noteq> None"
  shows "registry_ok (drop_broker i s)"
  using assms ring_sound_RemoveNode [of "ss_hashRing s" "dom (ss_brokers s)" i]
  by (auto simp: registry_ok_def drop_broker_def RemoveNode_sel split: if_splits)

lemma registry_ok_invalidate: "registry_ok s \<Longrightarrow> registry_ok (invalidateCache t s)"
  by (simp add: registry_ok_def invalidateCache_def)

lemma registry_ok_invalidates: "registry_ok s \<Longrightarrow> registry_ok (fold invalidateCache ts s)"
  by (induction ts arbitrary: s) (simp_all add: registry_ok_invalidate)

lemma invalidates_sel [simp]:
  "ss_brokers (fold invalidateCache ts s) = ss_brokers s" "ss_objects (fold invalidateCache ts s) = ss_objects s"
  "ss_hashRing (fold invalidateCache ts s) = ss_hashRing s" "ss_etcdManager (fold invalidateCache ts s) = ss_etcdManager s"
  by (induction ts arbitrary: s) (simp_all add: invalidateCache_def)

lemma registry_ok_heartbeat: "registry_ok s \<Longrightarrow> registry_ok (heartbeat now i a s)"
  by (auto simp: heartbeat_def new_broker_def refresh_broker_def split: option.splits
        intro: registry_ok_add registry_ok_update)

lemma registry_ok_set_status: "registry_ok s \<Longrightarrow> registry_ok (set_status st i s)"
  by (auto simp: set_status_def split: option.splits intro: registry_ok_update)

lemma registry_ok_updateBrokerStatus: "registry_ok s \<Longrightarrow> registry_ok (updateBrokerStatus ids st s)"
  unfolding updateBrokerStatus_def by (induction ids arbitrary: s) (simp_all add: registry_ok_set_status)

lemma registry_ok_getTopicLock: "registry_ok s \<Longrightarrow> registry_ok (getTopicLock t s)"
  by (auto simp: getTopicLock_def registry_ok_def cache_ok_def split: option.splits)

lemma registry_ok_store_cache:
  assumes "registry_ok s" and "\<forall>r \<in> set rs. r < length (ss_objects s)"
    and "distinct (map (\<lambda>r. sb_BrokerID (broker_at s r)) rs)" and "length rs \<le> n"
  shows "registry_ok (store_cache t rs n s)"
  using assms by (auto simp: registry_ok_def store_cache_def cache_ok_def Let_def)

text \<open>A choice made along the walk is made of registered, healthy objects with different identities.\<close>

lemma map_filter_registered:
  assumes "registry_ok s" and "\<And>i r. g i = Some r \<Longrightarrow> healthy_registered s i = Some r"
  shows "map (\<lambda>r. sb_BrokerID (broker_at s r)) (List.map_filter g ids) = filter (\<lambda>i. g i \<noteq> None) ids"
    and "r \<in> set (List.map_filter g ids) \<Longrightarrow> r < length (ss_objects s) \<and> healthy s r \<and> sb_BrokerID (broker_at s r) \<in> set ids"
proof -
  have g: "r < length (ss_objects s) \<and> healthy s r \<and> sb_BrokerID (broker_at s r) = i" if "g i = Some r" for i r
    using assms(2) [OF that] registry_ok_broker [OF assms(1)]
    by (auto simp: healthy_registered_def split: option.splits if_splits)
  show "map (\<lambda>r. sb_BrokerID (broker_at s r)) (List.map_filter g ids) = filter (\<lambda>i. g i \<noteq> None) ids"
    using g by (induction ids) (auto simp: map_filter_simps split: option.splits)
  show "r < length (ss_objects s) \<and> healthy s r \<and> sb_BrokerID (broker_at s r) \<in> set ids"
    if "r \<in> set (List.map_filter g ids)"
    using that g by (induction ids) (auto simp: map_filter_simps split: option.splits)
qed

lemma ring_brokers_eq:
  "ring_brokers topic n s = List.map_filter (healthy_registered s) (take n (visit False {} (circle (ss_hashRing s) topic)))"
  by (simp add: ring_brokers_def ring_walk.collect_loop_pending [OF valid_GetNodeIter] pending_GetNodeIter)

lemma ring_brokers_ok:
  assumes "registry_ok s"
  shows "\<forall>r \<in> set (ring_brokers topic n s). r < length (ss_objects s) \<and> healthy s r"
    and "distinct (map (\<lambda>r. sb_BrokerID (broker_at s r)) (ring_brokers topic n s))"
    and "length (ring_brokers topic n s) \<le> n"
proof -
  let ?ids = "take n (visit False {} (circle (ss_hashRing s) topic))"
  note m = map_filter_registered [OF assms, where g = "healthy_registered s" and ids = ?ids, folded ring_brokers_eq]
  show "\<forall>r \<in> set (ring_brokers topic n s). r < length (ss_objects s) \<and> healthy s r"
    using m(2) by blast
  show "distinct (map (\<lambda>r. sb_BrokerID (broker_at s r)) (ring_brokers topic n s))"
    using visit_distinct [of False "{}"] by (simp add: m(1))
  have "length (map (\<lambda>r. sb_BrokerID (broker_at s r)) (ring_brokers topic n s)) \<le> length ?ids"
    by (simp only: m(1) length_filter_le)
  then show "length (ring_brokers topic n s) \<le> n" by simp
qed

lemma findReplacementBrokers_ok:
  assumes "registry_ok s" and "findReplacementBrokers topic current neededCount s = Returns (found, err)"
  shows "\<forall>r \<in> set found. r < length (ss_objects s) \<and> healthy s r"
    and "distinct (map (\<lambda>r. sb_BrokerID (broker_at s r)) found)"
    and "(\<lambda>r. sb_BrokerID (broker_at s r)) ` set found \<inter> (\<lambda>r. sb_BrokerID (broker_at s r)) ` set current = {}"
    and "length found \<le> nat neededCount" and "err = None \<Longrightarrow> length found = nat neededCount"
proof -
  let ?ids = "visit False {} (circle (ss_hashRing s) topic)"
  let ?g = "replacement_for s current"
  let ?all = "List.map_filter ?g ?ids"
  have found: "found = take (nat neededCount) ?all"
    and err: "err = (if int (length found) < neededCount then Some SReplacement else None)"
    using assms(2) unfolding findReplacementBrokers_eq Let_def by blast+
  have g: "\<And>i r. ?g i = Some r \<Longrightarrow> healthy_registered s i = Some r"
    by (simp add: replacement_for_def split: if_splits)
  note m = map_filter_registered [OF assms(1) g, where ids = ?ids]
  have sub: "set found \<subseteq> set ?all" unfolding found by (rule set_take_subset)
  show "\<forall>r \<in> set found. r < length (ss_objects s) \<and> healthy s r"
    using sub m(2) by blast
  show "distinct (map (\<lambda>r. sb_BrokerID (broker_at s r)) found)"
    using visit_distinct [of False "{}"] by (simp add: found take_map m(1) flip: take_map)
  have "(\<lambda>r. sb_BrokerID (broker_at s r)) ` set ?all = set (filter (\<lambda>i. ?g i \<noteq> None) ?ids)"
    using arg_cong [OF m(1), where f = set] by (simp only: set_map)
  then show "(\<lambda>r. sb_BrokerID (broker_at s r)) ` set found \<inter> (\<lambda>r. sb_BrokerID (broker_at s r)) ` set current = {}"
    using sub by (force simp: replacement_for_def)
  show "length found \<le> nat neededCount" by (simp add: found)
  then show "length found = nat neededCount" if "err = None" using that err by (simp split: if_splits)
qed

section \<open>Every handler keeps the registry\<close>

lemma registry_ok_current_brokers:
  assumes "registry_ok s" and "current_brokers topic n s = (rs, s')"
  shows "registry_ok s' \<and> (\<forall>r \<in> set rs. r < length (ss_objects s')) \<and>
    distinct (map (\<lambda>r. sb_BrokerID (broker_at s' r)) rs) \<and> length rs \<le> n"
proof -
  have obj: "ss_objects (store_cache topic rs' n s) = ss_objects s" for rs'
    by (simp add: store_cache_def Let_def)
  have fresh: "registry_ok (store_cache topic (ring_brokers topic n s) n s)"
    using ring_brokers_ok [OF assms(1)] by (intro registry_ok_store_cache [OF assms(1)]) auto
  have "cache_ok (ss_objects s) (ss_topicLocks s topic) c" if "ss_replicationCache s topic = Some c" for c
    using assms(1) that by (simp add: registry_ok_def)
  with assms fresh ring_brokers_ok [OF assms(1), of topic n] show ?thesis
    by (auto simp: current_brokers_def Let_def obj cache_ok_def split: option.splits if_splits)
qed

lemma updateBrokerStatus_sel [simp]:
  "ss_brokers (updateBrokerStatus ids st s) = ss_brokers s"
  "ss_hashRing (updateBrokerStatus ids st s) = ss_hashRing s"
  "ss_replicationCache (updateBrokerStatus ids st s) = ss_replicationCache s"
  "ss_etcdManager (updateBrokerStatus ids st s) = ss_etcdManager s"
  "length (ss_objects (updateBrokerStatus ids st s)) = length (ss_objects s)"
  unfolding updateBrokerStatus_def
  by (induction ids arbitrary: s) (simp_all add: set_status_def update_broker_def split: option.splits)

lemma updateBrokerStatus_ID [simp]:
  "sb_BrokerID (broker_at (updateBrokerStatus ids st s) r) = sb_BrokerID (broker_at s r)"
proof -
  have "sb_BrokerID (broker_at (set_status st i s) r) = sb_BrokerID (broker_at s r)" for i s
  proof (cases "ss_brokers s i")
    case (Some q)
    then show ?thesis
      by (cases "q < length (ss_objects s)") (auto simp: set_status_def update_broker_def nth_list_update list_update_beyond)
  qed (simp add: set_status_def)
  then show ?thesis unfolding updateBrokerStatus_def by (induction ids arbitrary: s) simp_all
qed

lemma registry_ok_replace_unreachable:
  assumes ok: "registry_ok s" and cur: "\<forall>r \<in> set rs. r < length (ss_objects s)"
    and d: "distinct (map (\<lambda>r. sb_BrokerID (broker_at s r)) rs)"
    and ret: "replace_unreachable topic n unreachable rs s = Returns (res, s')"
  shows "registry_ok s'"
proof (cases "unreachable = []")
  case True
  with ret ok show ?thesis by (simp add: replace_unreachable_def)
next
  case False
  let ?s1 = "updateBrokerStatus unreachable BrokerStatusDown s"
  let ?av = "filter (\<lambda>r. sb_BrokerID (broker_at ?s1 r) \<notin> set unreachable) rs"
  have ok1: "registry_ok ?s1" using ok by (rule registry_ok_updateBrokerStatus)
  have d1: "distinct (map (\<lambda>r. sb_BrokerID (broker_at ?s1 r)) ?av)"
    using d by (simp add: distinct_map_filter)
  obtain found err where f: "findReplacementBrokers topic ?av (int n - int (length ?av)) ?s1 = Returns (found, err)"
    by (simp add: findReplacementBrokers_eq Let_def)
  note fo = findReplacementBrokers_ok [OF ok1 f]
  have "registry_ok (store_cache topic (?av @ found) n ?s1)" if "err = None" and "length ?av < n"
    using fo(1-3) fo(5) [OF that(1)] that(2) cur d1
    by (intro registry_ok_store_cache [OF ok1]) auto
  with ret False f ok1 show ?thesis
    by (auto simp: replace_unreachable_def Let_def split: if_splits)
qed

lemma announce_leader_state: "announce_leader net topic f rs s w = (res, s', w') \<Longrightarrow> s' = s"
  by (auto simp: announce_leader_def split: prod.splits option.splits)

lemma registry_ok_legacy:
  assumes "registry_ok s" and "getTopicLeaderLegacy net req s w = Returns (res, s', w')"
  shows "registry_ok s'"
proof -
  let ?t = "lr_Topic req" and ?n = "lr_ReplicaCount req"
  obtain rs s1 where c: "current_brokers ?t ?n (getTopicLock ?t s) = (rs, s1)" by (cases "current_brokers ?t ?n (getTopicLock ?t s)")
  note c1 = registry_ok_current_brokers [OF registry_ok_getTopicLock [OF assms(1)] c]
  obtain r2 s2 where r: "replace_unreachable ?t ?n (lr_UnreachableBrokers req) rs s1 = Returns (r2, s2)"
    using assms(2) c by (auto simp: getTopicLeaderLegacy_def bind_call_Returns)
  have "s' = s2"
    using assms(2) c r
    by (auto simp: getTopicLeaderLegacy_def dest: announce_leader_state split: sum.splits if_splits)
  then show ?thesis using registry_ok_replace_unreachable [OF _ _ _ r] c1 by blast
qed

lemma generateAndStoreTopicLeader_state:
  "generateAndStoreTopicLeader cl net now topic n s w = Returns (res, s', w') \<Longrightarrow> s' = s"
  by (cases "ring_brokers topic n s")
    (auto simp: generateAndStoreTopicLeader_def Let_def bind_call_Returns)

lemma getTopicLeaderFromEtcd_state:
  "getTopicLeaderFromEtcd cl net now topic n s w = Returns (res, s', w') \<Longrightarrow> s' = s"
  by (auto simp: getTopicLeaderFromEtcd_def dest: generateAndStoreTopicLeader_state
        split: prod.splits sum.splits option.splits if_splits)

lemma store_replicas_state:
  "store_replicas cl net now topic n ids rs s w = Returns (res, s', w') \<Longrightarrow> s' = s"
  by (auto simp: store_replicas_def Let_def bind_call_Returns dest: announce_leader_state
        split: prod.splits option.splits if_splits)

lemma handleUnreachable_state:
  assumes "handleUnreachableBrokersForLeader cl net now topic n ids s w = Returns (res, s', w')"
  shows "s' = updateBrokerStatus ids BrokerStatusDown s"
  using assms
  by (auto simp: handleUnreachableBrokersForLeader_def Let_def bind_call_Returns
        dest: store_replicas_state split: prod.splits sum.splits if_splits)

lemma registry_ok_GetTopicLeader:
  assumes "registry_ok s" and "GetTopicLeader cl net now req s w = Returns (res, s', w')"
  shows "registry_ok s'"
proof (cases "ss_etcdManager s")
  case None
  with assms registry_ok_legacy show ?thesis by (auto simp: GetTopicLeader_def)
next
  case (Some em)
  with assms show ?thesis
    by (auto simp: GetTopicLeader_def forwardToLeader_def Let_def registry_ok_updateBrokerStatus
          split: if_splits prod.splits option.splits
          dest!: getTopicLeaderFromEtcd_state handleUnreachable_state)
qed

section \<open>One round of the health checker\<close>

definition checked :: "time \<Rightarrow> sentinel_broker \<Rightarrow> sentinel_broker" where
  "checked now b = b\<lparr>sb_Status := checked_status (sb_Status b) (now - sb_LastHeartbeat b)\<rparr>"

definition changed :: "time \<Rightarrow> sentinel_broker \<Rightarrow> bool" where
  "changed now b \<longleftrightarrow> checked_status (sb_Status b) (now - sb_LastHeartbeat b) \<noteq> sb_Status b"

lemma checked_sel [simp]:
  "sb_BrokerID (checked now b) = sb_BrokerID b" "sb_Topics (checked now b) = sb_Topics b"
  "sb_LastHeartbeat (checked now b) = sb_LastHeartbeat b" "sb_Address (checked now b) = sb_Address b"
  by (simp_all add: checked_def)

lemma check_broker_eq:
  "check_broker now i (s, ts) =
     (case ss_brokers s i of
        None \<Rightarrow> (s, ts)
      | Some r \<Rightarrow> (update_broker r (checked now) s, if changed now (broker_at s r) then ts @ sb_Topics (broker_at s r) else ts))"
  by (simp add: check_broker_def checked_def changed_def update_broker_def Let_def split: option.splits)

lemma check_fold:
  assumes "registry_ok s" and "distinct order" and "fold (check_broker now) order (s, ts) = (s', ts')"
  shows "s' = s\<lparr>ss_objects := ss_objects s'\<rparr> \<and> length (ss_objects s') = length (ss_objects s) \<and>
    (\<forall>r < length (ss_objects s). broker_at s' r =
       (if Some r \<in> ss_brokers s ` set order then checked now (broker_at s r) else broker_at s r)) \<and>
    (\<forall>t. t \<in> set ts' \<longleftrightarrow> t \<in> set ts \<or>
       (\<exists>r. Some r \<in> ss_brokers s ` set order \<and> changed now (broker_at s r) \<and> t \<in> set (sb_Topics (broker_at s r))))"
  using assms
proof (induction order arbitrary: s ts)
  case (Cons i order)
  show ?case
  proof (cases "ss_brokers s i")
    case None
    then have "fold (check_broker now) order (s, ts) = (s', ts')" using Cons.prems(3) by (simp add: check_broker_eq)
    from Cons.IH [OF Cons.prems(1) _ this] Cons.prems(2) None show ?thesis by simp
  next
    case (Some q)
    let ?s1 = "update_broker q (checked now) s"
    let ?ts1 = "if changed now (broker_at s q) then ts @ sb_Topics (broker_at s q) else ts"
    have ok1: "registry_ok ?s1" using Cons.prems(1) by (rule registry_ok_update) simp
    have q: "q < length (ss_objects s)" "sb_BrokerID (broker_at s q) = i"
      using registry_ok_broker [OF Cons.prems(1) Some] by simp_all
    have new: "Some q \<notin> ss_brokers s ` set order"
      using registry_ok_broker [OF Cons.prems(1)] Cons.prems(2) q(2) by fastforce
    have b1: "ss_brokers ?s1 = ss_brokers s" "length (ss_objects ?s1) = length (ss_objects s)"
      by (simp_all add: update_broker_def)
    have o1: "broker_at ?s1 r = (if r = q then checked now (broker_at s q) else broker_at s r)" if "r < length (ss_objects s)" for r
      using q(1) that by (simp add: update_broker_def nth_list_update)
    have "fold (check_broker now) order (?s1, ?ts1) = (s', ts')"
      using Cons.prems(3) Some by (simp add: check_broker_eq)
    from Cons.IH [OF ok1 _ this] Cons.prems(2)
    have ih: "s' = ?s1\<lparr>ss_objects := ss_objects s'\<rparr>" "length (ss_objects s') = length (ss_objects s)"
      "\<And>r. r < length (ss_objects s) \<Longrightarrow> broker_at s' r =
         (if Some r \<in> ss_brokers s ` set order then checked now (broker_at ?s1 r) else broker_at ?s1 r)"
      "\<And>t. t \<in> set ts' \<longleftrightarrow> t \<in> set ?ts1 \<or>
         (\<exists>r. Some r \<in> ss_brokers s ` set order \<and> changed now (broker_at ?s1 r) \<and> t \<in> set (sb_Topics (broker_at ?s1 r)))"
      by (simp_all add: b1)
    have keep: "broker_at ?s1 r = broker_at s r" if "Some r \<in> ss_brokers s ` set order" for r
    proof -
      from that have "r < length (ss_objects s)" using registry_ok_broker [OF Cons.prems(1)] by fastforce
      moreover from that new have "r \<noteq> q" by blast
      ultimately show ?thesis by (simp add: o1)
    qed
    have "t \<in> set ts' \<longleftrightarrow> t \<in> set ts \<or>
        (\<exists>r. Some r \<in> ss_brokers s ` set (i # order) \<and> changed now (broker_at s r) \<and> t \<in> set (sb_Topics (broker_at s r)))" for t
    proof -
      define B where "B = ss_brokers s ` set order"
      have B: "ss_brokers s ` set (i # order) = insert (Some q) B" by (simp add: B_def Some)
      have ex: "(\<exists>r. Some r \<in> B \<and> changed now (broker_at ?s1 r) \<and> t \<in> set (sb_Topics (broker_at ?s1 r))) \<longleftrightarrow>
          (\<exists>r. Some r \<in> B \<and> changed now (broker_at s r) \<and> t \<in> set (sb_Topics (broker_at s r)))"
        using keep [folded B_def] by metis
      show ?thesis unfolding ih(4) [folded B_def] ex B by (cases "changed now (broker_at s q)") auto
    qed
    moreover have "s' = s\<lparr>ss_objects := ss_objects s'\<rparr>"
      using ih(1) by (simp add: update_broker_def)
    moreover have "broker_at s' r =
        (if Some r \<in> ss_brokers s ` set (i # order) then checked now (broker_at s r) else broker_at s r)"
      if "r < length (ss_objects s)" for r
      using ih(3) [OF that] o1 [OF that] keep [of r] new Some by (cases "r = q") auto
    ultimately show ?thesis using ih(2) by simp
  qed
qed simp

lemma invalidates_cache:
  "ss_replicationCache (fold invalidateCache ts s) t = (if t \<in> set ts then None else ss_replicationCache s t)"
  by (induction ts arbitrary: s) (auto simp: invalidateCache_def)

lemma invalidates_objects: "fold invalidateCache ts s = s\<lparr>ss_replicationCache := ss_replicationCache (fold invalidateCache ts s)\<rparr>"
proof (induction ts arbitrary: s)
  case (Cons t ts)
  show ?case using Cons [of "invalidateCache t s"] by (simp add: invalidateCache_def)
qed simp

lemma registry_ok_checkBrokers: "registry_ok s \<Longrightarrow> registry_ok (checkBrokers now order s)"
proof -
  have "registry_ok (fst st) \<Longrightarrow> registry_ok (fst (fold (check_broker now) order st))" for st
  proof (induction order arbitrary: st)
    case (Cons i order)
    have "registry_ok (fst (check_broker now i st))"
      using Cons.prems by (cases st) (auto simp: check_broker_eq split: option.splits intro: registry_ok_update)
    then show ?case using Cons.IH by simp
  qed simp
  from this [of "(s, [])"] show "registry_ok s \<Longrightarrow> registry_ok (checkBrokers now order s)"
    by (cases "fold (check_broker now) order (s, [])") (simp add: checkBrokers_def registry_ok_invalidates)
qed

lemma checkBrokers_spec:
  assumes "registry_ok s" and "distinct order" and "set order = dom (ss_brokers s)"
  shows "(\<forall>r < length (ss_objects s). broker_at (checkBrokers now order s) r =
      (if r \<in> ran (ss_brokers s) then checked now (broker_at s r) else broker_at s r)) \<and>
    (\<forall>t. ss_replicationCache (checkBrokers now order s) t =
      (if \<exists>r \<in> ran (ss_brokers s). changed now (broker_at s r) \<and> t \<in> set (sb_Topics (broker_at s r))
       then None else ss_replicationCache s t)) \<and>
    ss_brokers (checkBrokers now order s) = ss_brokers s \<and> ss_hashRing (checkBrokers now order s) = ss_hashRing s \<and>
    length (ss_objects (checkBrokers now order s)) = length (ss_objects s) \<and> registry_ok (checkBrokers now order s)"
proof -
  obtain s1 ts where f: "fold (check_broker now) order (s, []) = (s1, ts)"
    by (cases "fold (check_broker now) order (s, [])")
  note c = check_fold [OF assms(1,2) f]
  have ran: "Some r \<in> ss_brokers s ` set order \<longleftrightarrow> r \<in> ran (ss_brokers s)" for r
    unfolding assms(3) by (auto simp: ran_def image_iff) (metis domI)
  have s1: "ss_brokers s1 = ss_brokers s" "ss_hashRing s1 = ss_hashRing s" "ss_replicationCache s1 = ss_replicationCache s"
    "ss_topicLocks s1 = ss_topicLocks s"
    using c by (metis sentinel_server.select_convs sentinel_server.surjective sentinel_server.update_convs(5))+
  have t: "t \<in> set ts \<longleftrightarrow> (\<exists>r \<in> ran (ss_brokers s). changed now (broker_at s r) \<and> t \<in> set (sb_Topics (broker_at s r)))" for t
    using c by (auto simp: ran)
  have ok: "registry_ok (checkBrokers now order s)"
    using assms(1) by (rule registry_ok_checkBrokers)
  show ?thesis
    using c ok by (simp add: checkBrokers_def f s1 invalidates_cache t ran) blast
qed

section \<open>Runs\<close>

text \<open>
  What can happen to a sentinel after its start: a request of one of the handlers, a round of the health
  checker, an event of the etcd watch. The world (etcd and the brokers) may be any before each of them.
\<close>

datatype sentinel_event =
  SKeepAlive time string string
| SRegister time string string "string list"
| SUnregister string
| SGetLeader time topic_leader_request
| SCheck time "string list"
| SWatch time watch_event

definition forget :: "('a \<times> 's \<times> 'w) call \<Rightarrow> ('s \<times> 'w) call" where
  "forget c = bind_call c (\<lambda>(_, s, w). Returns (s, w))"

fun sentinel_exec ::
  "'w etcd_client \<Rightarrow> 'w broker_net \<Rightarrow> sentinel_event \<Rightarrow> sentinel_server \<Rightarrow> 'w \<Rightarrow> (sentinel_server \<times> 'w) call" where
  "sentinel_exec cl net (SKeepAlive now i a) s w = forget (KeepAlive cl now i a s w)"
| "sentinel_exec cl net (SRegister now i a ts) s w = forget (RegisterBroker cl now i a ts s w)"
| "sentinel_exec cl net (SUnregister i) s w = forget (UnregisterBroker cl i s w)"
| "sentinel_exec cl net (SGetLeader now req) s w = forget (GetTopicLeader cl net now req s w)"
| "sentinel_exec cl net (SCheck now order) s w = Returns (checkBrokers now order s, w)"
| "sentinel_exec cl net (SWatch now ev) s w = Returns (WatchBrokerHeartbeats (handleBrokerHeartbeatChange now) [ev] s, w)"

inductive sentinel_reach :: "'w etcd_client \<Rightarrow> 'w broker_net \<Rightarrow> sentinel_server \<Rightarrow> bool" for cl net where
  start: "sentinel_reach cl net (NewSentinelServer i a e)"
| step: "sentinel_reach cl net s \<Longrightarrow> sentinel_exec cl net ev s w = Returns (s', w') \<Longrightarrow> sentinel_reach cl net s'"

lemma forget_Returns: "forget c = Returns (s, w) \<longleftrightarrow> (\<exists>x. c = Returns (x, s, w))"
  by (cases c) (auto simp: forget_def)

lemma registry_ok_KeepAlive:
  "registry_ok s \<Longrightarrow> KeepAlive cl now i a s w = Returns (x, s', w') \<Longrightarrow> registry_ok s'"
  by (auto simp: KeepAlive_def Let_def bind_call_Returns registry_ok_heartbeat split: option.splits if_splits)

lemma registry_ok_Register:
  "registry_ok s \<Longrightarrow> RegisterBroker cl now i a ts s w = Returns (x, s', w') \<Longrightarrow> registry_ok s'"
  using registry_ok_invalidates [OF registry_ok_add [of s "new_broker now i a ts"]]
  by (auto simp: RegisterBroker_def Let_def bind_call_Returns new_broker_def split: if_splits)

lemma registry_ok_unregister_local: "unregister_local i s = (x, s') \<Longrightarrow> registry_ok s \<Longrightarrow> registry_ok s'"
  by (auto simp: unregister_local_def registry_ok_invalidates intro!: registry_ok_drop split: option.splits)

lemma registry_ok_Unregister:
  "registry_ok s \<Longrightarrow> UnregisterBroker cl i s w = Returns (x, s', w') \<Longrightarrow> registry_ok s'"
  by (auto simp: UnregisterBroker_def Let_def bind_call_Returns split: option.splits if_splits prod.splits
        intro: registry_ok_unregister_local)

lemma registry_ok_watch: "registry_ok s \<Longrightarrow> registry_ok (handleBrokerHeartbeatChange now i t b s)"
  by (auto simp: handleBrokerHeartbeatChange_def registry_ok_heartbeat intro!: registry_ok_drop split: option.splits)

lemma registry_ok_exec:
  "registry_ok s \<Longrightarrow> sentinel_exec cl net ev s w = Returns (s', w') \<Longrightarrow> registry_ok s'"
  by (cases ev)
    (auto simp: forget_Returns WatchBrokerHeartbeats_def registry_ok_watch registry_ok_checkBrokers split: prod.splits
      dest: registry_ok_KeepAlive registry_ok_Register registry_ok_Unregister registry_ok_GetTopicLeader)

lemma sentinel_reach_ok: "sentinel_reach cl net s \<Longrightarrow> registry_ok s"
  by (induction rule: sentinel_reach.induct) (auto intro: registry_ok_New registry_ok_exec)

text \<open>No lease is ever recorded, because the only handler that asks for one never returns.\<close>

definition no_lease :: "sentinel_server \<Rightarrow> bool" where
  "no_lease s \<longleftrightarrow> (\<forall>em. ss_etcdManager s = Some em \<longrightarrow> em_leases em = Map.empty)"

lemma Renew_without_lease: "em_leases em = Map.empty \<Longrightarrow> RenewBrokerHeartbeat cl i a ttl em w = Blocks"
  by (simp add: RenewBrokerHeartbeat_def RegisterBrokerHeartbeat_def Let_def)

lemma KeepAlive_no_lease: "no_lease s \<Longrightarrow> ss_etcdManager s \<noteq> None \<Longrightarrow> KeepAlive cl now i a s w = Blocks"
  by (auto simp: no_lease_def KeepAlive_def Renew_without_lease)

lemma heartbeat_etcd [simp]: "ss_etcdManager (heartbeat now i a s) = ss_etcdManager s"
  by (simp add: heartbeat_def add_broker_def update_broker_def split: option.splits)

lemma unregister_local_etcd: "unregister_local i s = (x, s') \<Longrightarrow> ss_etcdManager s' = ss_etcdManager s"
  by (auto simp: unregister_local_def drop_broker_def split: option.splits)

lemma Unregister_etcd:
  "no_lease s \<Longrightarrow> UnregisterBroker cl i s w = Returns (x, s', w') \<Longrightarrow> no_lease s'"
  by (auto simp: no_lease_def UnregisterBroker_def UnregisterBrokerHeartbeat_def Let_def
        split: option.splits if_splits prod.splits dest!: unregister_local_etcd)

lemma GetTopicLeader_etcd:
  assumes "GetTopicLeader cl net now req s w = Returns (x, s', w')"
  shows "ss_etcdManager s' = ss_etcdManager s"
proof (cases "ss_etcdManager s")
  case None
  obtain rs s1 where c: "current_brokers (lr_Topic req) (lr_ReplicaCount req) (getTopicLock (lr_Topic req) s) = (rs, s1)"
    by (cases "current_brokers (lr_Topic req) (lr_ReplicaCount req) (getTopicLock (lr_Topic req) s)")
  then have "ss_etcdManager s1 = ss_etcdManager s"
    by (auto simp: current_brokers_def store_cache_def getTopicLock_def Let_def split: option.splits if_splits)
  with None assms c show ?thesis
    by (auto simp: GetTopicLeader_def getTopicLeaderLegacy_def replace_unreachable_def store_cache_def Let_def bind_call_Returns
          split: if_splits sum.splits prod.splits dest!: announce_leader_state)
next
  case (Some em)
  with assms show ?thesis
    by (auto simp: GetTopicLeader_def forwardToLeader_def Let_def split: if_splits prod.splits option.splits
          dest!: getTopicLeaderFromEtcd_state handleUnreachable_state)
qed

lemma checkBrokers_etcd: "ss_etcdManager (checkBrokers now order s) = ss_etcdManager s"
proof -
  have "ss_etcdManager (fst (fold (check_broker now) order st)) = ss_etcdManager (fst st)" for st
  proof (induction order arbitrary: st)
    case (Cons i order)
    show ?case using Cons [of "check_broker now i st"]
      by (cases st) (simp add: check_broker_eq update_broker_def split: option.splits)
  qed simp
  from this [of "(s, [])"] show ?thesis
    by (cases "fold (check_broker now) order (s, [])") (simp add: checkBrokers_def)
qed

lemma no_lease_exec:
  assumes "no_lease s" and "sentinel_exec cl net ev s w = Returns (s', w')"
  shows "no_lease s'"
proof -
  have same: "no_lease s'" if "ss_etcdManager s' = ss_etcdManager s"
    using assms(1) that by (simp add: no_lease_def)
  show ?thesis
  proof (cases ev)
    case (SKeepAlive now i a)
    show ?thesis
    proof (cases "ss_etcdManager s = None")
      case True
      with SKeepAlive assms(2) have "s' = heartbeat now i a s" by (auto simp: forget_Returns KeepAlive_def)
      then show ?thesis by (intro same) simp
    next
      case False
      with SKeepAlive assms show ?thesis by (auto simp: forget_Returns KeepAlive_no_lease)
    qed
  next
    case (SRegister now i a ts)
    with assms show ?thesis
      by (auto simp: forget_Returns RegisterBroker_def add_broker_def Let_def bind_call_Returns split: if_splits intro!: same)
  next
    case (SUnregister i)
    with assms show ?thesis by (auto simp: forget_Returns intro: Unregister_etcd)
  next
    case (SGetLeader now req)
    with assms show ?thesis by (auto simp: forget_Returns intro!: same dest: GetTopicLeader_etcd)
  next
    case (SCheck now order)
    with assms show ?thesis by (auto intro!: same simp: checkBrokers_etcd)
  next
    case (SWatch now e)
    with assms show ?thesis
      by (auto simp: WatchBrokerHeartbeats_def handleBrokerHeartbeatChange_def drop_broker_def
            split: prod.splits option.splits if_splits intro!: same)
  qed
qed

lemma no_lease_New: "no_lease (NewSentinelServer i a e)"
  by (simp add: no_lease_def NewSentinelServer_def NewEtcdManager_def)

lemma sentinel_reach_no_lease: "sentinel_reach cl net s \<Longrightarrow> no_lease s"
  by (induction rule: sentinel_reach.induct) (auto intro: no_lease_New no_lease_exec)

section \<open>Properties\<close>

text \<open>A network in which every broker is a follower of every topic and accepts every command.\<close>

definition follower_net :: "'w broker_net" where
  "follower_net = \<lparr>bn_RemoveTopic = (\<lambda>a t r w. (Some True, w)), bn_SetTopicRole = (\<lambda>a t r fs l w. (Some True, w)),
     bn_GetBrokerTopicRole = (\<lambda>a i t w. (Some (True, TOPIC_ROLE_FOLLOWER), w)),
     bn_RequestFragmentReplication = (\<lambda>a q w. (Some True, w)), bn_GetTopicLeader = (\<lambda>a q w. (None, w))\<rparr>"

definition sentinel_a :: sentinel_server where
  "sentinel_a = heartbeat 0 ''a'' ''h:1'' (NewSentinelServer ''s'' ''h:9'' False)"

lemma sentinel_a_reach: "sentinel_reach mem_client follower_net sentinel_a"
proof (rule sentinel_reach.step [OF sentinel_reach.start])
  show "sentinel_exec mem_client follower_net (SKeepAlive 0 ''a'' ''h:1'') (NewSentinelServer ''s'' ''h:9'' False) [] =
      Returns (sentinel_a, [])"
    by (simp add: forget_def KeepAlive_def sentinel_a_def NewSentinelServer_def)
qed

lemma sentinel_a_sel:
  "ss_brokers sentinel_a = [''a'' \<mapsto> 0]" "ss_objects sentinel_a = [new_broker 0 ''a'' ''h:1'' []]"
  "ss_etcdManager sentinel_a = None"
  by (simp_all add: sentinel_a_def heartbeat_def NewSentinelServer_def add_broker_def new_broker_def)



text \<open>
  C31: The search for replacements always ends. It returns the first brokers of the walk of the topic
  that are registered, healthy and not in use, as many as are needed, all different, and fails exactly when
  there are fewer.
\<close>

theorem findReplacementBrokers_terminates:
  assumes "registry_ok s"
  shows "\<exists>found err. findReplacementBrokers topic current neededCount s = Returns (found, err) \<and>
    found = take (nat neededCount) (List.map_filter (replacement_for s current) (visit False {} (circle (ss_hashRing s) topic))) \<and>
    (\<forall>r \<in> set found. healthy s r \<and> sb_BrokerID (broker_at s r) \<notin> (\<lambda>q. sb_BrokerID (broker_at s q)) ` set current) \<and>
    distinct (map (\<lambda>r. sb_BrokerID (broker_at s r)) found) \<and>
    (err = None \<longleftrightarrow> length found = nat neededCount)"
proof -
  obtain found err where f: "findReplacementBrokers topic current neededCount s = Returns (found, err)"
    by (simp add: findReplacementBrokers_eq Let_def)
  then have eq: "found = take (nat neededCount) (List.map_filter (replacement_for s current) (visit False {} (circle (ss_hashRing s) topic)))"
    and err: "err = (if int (length found) < neededCount then Some SReplacement else None)"
    unfolding findReplacementBrokers_eq Let_def by blast+
  note ok = findReplacementBrokers_ok [OF assms f]
  have "err = None \<longleftrightarrow> length found = nat neededCount"
    using err ok(4) by (auto split: if_splits)
  with f eq ok(1-3) show ?thesis by blast
qed

theorem findReplacementBrokers_terminates_witness:
  "\<exists>found err. findReplacementBrokers ''t'' [] 2 sentinel_a = Returns (found, err) \<and> (err = None \<longleftrightarrow> length found = 2)"
  using findReplacementBrokers_terminates [OF sentinel_reach_ok [OF sentinel_a_reach], of "''t''" "[]" 2] by auto

text \<open>
  C33: A round of the health checker sets the status of every registered broker by its old status and the time
  since its last heartbeat and changes nothing else of it, and drops exactly the caches of the topics of the brokers
  whose status changed.
\<close>

theorem checkBrokers_exact:
  assumes "registry_ok s" and "distinct order" and "set order = dom (ss_brokers s)"
  shows "(\<forall>r < length (ss_objects s). broker_at (checkBrokers now order s) r =
      (if r \<in> ran (ss_brokers s)
       then (broker_at s r)\<lparr>sb_Status := checked_status (sb_Status (broker_at s r)) (now - sb_LastHeartbeat (broker_at s r))\<rparr>
       else broker_at s r)) \<and>
    (\<forall>t. ss_replicationCache (checkBrokers now order s) t =
      (if \<exists>r \<in> ran (ss_brokers s). changed now (broker_at s r) \<and> t \<in> set (sb_Topics (broker_at s r))
       then None else ss_replicationCache s t)) \<and>
    ss_brokers (checkBrokers now order s) = ss_brokers s \<and> ss_hashRing (checkBrokers now order s) = ss_hashRing s"
  using checkBrokers_spec [OF assms, of now] by (simp add: checked_def)

theorem checkBrokers_exact_witness:
  "sb_Status (broker_at (checkBrokers (seconds 61) [''a''] sentinel_a) 0) = BrokerStatusSuspicious"
proof -
  have "\<forall>r < length (ss_objects sentinel_a). broker_at (checkBrokers (seconds 61) [''a''] sentinel_a) r =
      (if r \<in> ran (ss_brokers sentinel_a)
       then (broker_at sentinel_a r)\<lparr>sb_Status := checked_status (sb_Status (broker_at sentinel_a r)) (seconds 61 - sb_LastHeartbeat (broker_at sentinel_a r))\<rparr>
       else broker_at sentinel_a r)"
    by (rule checkBrokers_exact [THEN conjunct1, OF sentinel_reach_ok [OF sentinel_a_reach]]) (simp_all add: sentinel_a_sel)
  from this [rule_format, of 0] show ?thesis by (simp add: sentinel_a_sel new_broker_def)
qed



text \<open>
  With etcd, no heartbeat is ever answered: in every state a sentinel with an etcd manager can reach,
  \<^verbatim>\<open>KeepAlive\<close> waits for ever, for every broker, because no broker ever gets its first lease.
\<close>

theorem KeepAlive_with_etcd_blocks:
  assumes "sentinel_reach cl net s" and "ss_etcdManager s \<noteq> None"
  shows "KeepAlive cl now brokerID address s w = Blocks"
  using KeepAlive_no_lease [OF sentinel_reach_no_lease [OF assms(1)] assms(2)] .

theorem KeepAlive_with_etcd_blocks_witness:
  "KeepAlive mem_client 0 ''a'' ''h:1'' (NewSentinelServer ''s'' ''h:9'' True) [] = Blocks"
  by (rule KeepAlive_with_etcd_blocks [OF sentinel_reach.start [of mem_client follower_net]]) (simp add: NewSentinelServer_def)

lemma callGetRole_SetTopicRole [simp]:
  "callGetBrokerTopicRoleOnBroker (net\<lparr>bn_SetTopicRole := f\<rparr>) a i t w = callGetBrokerTopicRoleOnBroker net a i t w"
  by (simp add: callGetBrokerTopicRoleOnBroker_def)

lemma findLeader_SetTopicRole [simp]:
  "findLeaderBrokerFromBrokers (net\<lparr>bn_SetTopicRole := f\<rparr>) s rs t w = findLeaderBrokerFromBrokers net s rs t w"
  by (induction rs arbitrary: w) (simp_all split: prod.splits)

lemma findLeader_none:
  assumes "\<forall>a i t w. fst (bn_GetBrokerTopicRole net a i t w) \<noteq> Some (True, TOPIC_ROLE_LEADER)"
  shows "fst (findLeaderBrokerFromBrokers net s rs t w) = None"
proof (induction rs arbitrary: w)
  case (Cons r rs)
  have "fst (callGetBrokerTopicRoleOnBroker net a i t w) \<noteq> Some TOPIC_ROLE_LEADER" for a i
    using assms [rule_format, of a i t w]
    by (auto simp: callGetBrokerTopicRoleOnBroker_def split: prod.splits option.splits)
  from this [of "sb_Address (broker_at s r)" "sb_BrokerID (broker_at s r)"] Cons show ?case by (auto split: prod.splits)
qed simp

lemma announce_leader_none:
  assumes "\<forall>a i t w. fst (bn_GetBrokerTopicRole net a i t w) \<noteq> Some (True, TOPIC_ROLE_LEADER)"
  shows "announce_leader (net\<lparr>bn_SetTopicRole := f\<rparr>) t g rs s w = (Inl SNoLeader, s, snd (findLeaderBrokerFromBrokers net s rs t w))"
    and "announce_leader net t g rs s w = (Inl SNoLeader, s, snd (findLeaderBrokerFromBrokers net s rs t w))"
  using findLeader_none [OF assms, of s rs t w] by (auto simp: announce_leader_def split: prod.splits option.splits)

lemma replace_unreachable_returns: "\<exists>r s'. replace_unreachable topic n ids rs s = Returns (r, s')"
proof -
  have "\<exists>r s'. bind_call (findReplacementBrokers topic av k s1) (\<lambda>(found, err). Returns (f found err)) = Returns (r, s')"
    for av k s1 and f :: "nat list \<Rightarrow> sentinel_error option \<Rightarrow> (sentinel_error + nat list) \<times> sentinel_server"
    by (cases "findReplacementBrokers topic av k s1") (auto simp: findReplacementBrokers_eq Let_def)
  then show ?thesis by (simp add: replace_unreachable_def Let_def)
qed

text \<open>
  Without etcd the sentinel never makes a broker the leader of a topic: as long as no broker answers that
  it leads, every request for a leader is refused, and no broker is told to take a role.
\<close>

theorem legacy_never_elects:
  assumes "ss_etcdManager s = None"
    and "\<forall>a i t w. fst (bn_GetBrokerTopicRole net a i t w) \<noteq> Some (True, TOPIC_ROLE_LEADER)"
  shows "\<exists>err s' w'. GetTopicLeader cl net now req s w = Returns (Inl err, s', w') \<and>
    (\<forall>f. GetTopicLeader cl (net\<lparr>bn_SetTopicRole := f\<rparr>) now req s w = Returns (Inl err, s', w'))"
proof -
  obtain rs s1 where c: "current_brokers (lr_Topic req) (lr_ReplicaCount req) (getTopicLock (lr_Topic req) s) = (rs, s1)"
    by (cases "current_brokers (lr_Topic req) (lr_ReplicaCount req) (getTopicLock (lr_Topic req) s)")
  obtain r2 s2 where r: "replace_unreachable (lr_Topic req) (lr_ReplicaCount req) (lr_UnreachableBrokers req) rs s1 = Returns (r2, s2)"
    using replace_unreachable_returns by blast
  show ?thesis
    using assms(1) by (cases r2) (auto simp: GetTopicLeader_def getTopicLeaderLegacy_def c r announce_leader_none [OF assms(2)])
qed

theorem legacy_never_elects_witness:
  "\<exists>err s' w'. GetTopicLeader mem_client follower_net 0 \<lparr>lr_Topic = ''t'', lr_ReplicaCount = 1, lr_UnreachableBrokers = []\<rparr> sentinel_a [] =
     Returns (Inl err, s', w')"
proof -
  have "\<exists>err s' w'. GetTopicLeader mem_client follower_net 0 \<lparr>lr_Topic = ''t'', lr_ReplicaCount = 1, lr_UnreachableBrokers = []\<rparr> sentinel_a [] =
     Returns (Inl err, s', w') \<and> (\<forall>f. GetTopicLeader mem_client (follower_net\<lparr>bn_SetTopicRole := f\<rparr>) 0
       \<lparr>lr_Topic = ''t'', lr_ReplicaCount = 1, lr_UnreachableBrokers = []\<rparr> sentinel_a [] = Returns (Inl err, s', w'))"
    by (rule legacy_never_elects) (simp_all add: sentinel_a_sel follower_net_def)
  then show ?thesis by blast
qed

lemma map_call_Returns: "(\<And>x. x \<in> set xs \<Longrightarrow> f (g x) = Returns x) \<Longrightarrow> map_call f (map g xs) = Returns xs"
  by (induction xs) simp_all

lemma log_operation_single:
  assumes "log_all cl [(f, p, now)] e = Some e'"
  shows "log_operation cl now f p e = Returns e'"
  using assms by (auto simp: log_operation_def split: option.splits bind_splits)

text \<open>
  C32: A registration that was logged is recovered: a sentinel that starts on a log with only this registration
  has the broker with its address and topics. If the broker registered without topics, the sentinel cannot
  start any more: the recovery panics, because the missing list was written as \<^verbatim>\<open>null\<close>.
\<close>

theorem registration_recovery:
  assumes "kv_store cl view" and "view w (IncrementIDPrefix @ ''operation'') = Some (EText (format_int i))"
    and "0 \<le> i" and "i + 1 < 2 ^ 63"
    and "\<forall>k. prefix OperationLogPrefix k \<longrightarrow> view w k = None"
    and "ss_etcdManager s \<noteq> None" and "ss_brokers s brokerID = None" and "ss_etcdManager s\<^sub>0 \<noteq> None"
  shows "\<exists>s' w'. RegisterBroker cl now brokerID address topics s w = Returns (True, s', w') \<and>
    RecoverFromEtcd cl now' s\<^sub>0 w' =
      (if topics = [] then Panics else Returns (None, add_broker (new_broker now' brokerID address topics) s\<^sub>0, w'))"
proof -
  let ?p = "JObj [(''broker_id'', JStr brokerID), (''address'', JStr address), (''topics'', json_strings topics)]"
  let ?op = "\<lparr>ol_ID = i + 1, ol_Function = ''registerBroker'', ol_Params = Some ?p, ol_Timestamp = Unix now\<rparr>"
  obtain w' where l: "log_all cl [(''registerBroker'', ?p, now)] w = Some w'"
    and g: "GetAllOperations cl w' = (Inr [?op], w')"
    using GetAllOperations_log_all [of cl view w i "[(''registerBroker'', ?p, now)]"] assms by auto
  have reg: "RegisterBroker cl now brokerID address topics s w =
      Returns (True, fold invalidateCache topics (add_broker (new_broker now brokerID address topics) s), w')"
    using assms(6,7) log_operation_single [OF l] by (auto simp: RegisterBroker_def Let_def)
  have arr: "map_call assert_string (map JStr topics) = Returns topics"
    by (rule map_call_Returns) simp
  have "replayRegisterBroker now' (Some ?p) s\<^sub>0 w' =
      (if topics = [] then Panics else Returns (True, add_broker (new_broker now' brokerID address topics) s\<^sub>0, w'))"
    by (simp add: replayRegisterBroker_def with_params_def json_strings_def arr)
  then have "replayOperation cl now' ?op s\<^sub>0 w' =
      (if topics = [] then Panics else Returns (True, add_broker (new_broker now' brokerID address topics) s\<^sub>0, w'))"
    by (simp add: replayOperation_def)
  then have "RecoverFromEtcd cl now' s\<^sub>0 w' =
      (if topics = [] then Panics else Returns (None, add_broker (new_broker now' brokerID address topics) s\<^sub>0, w'))"
    using assms(8) by (cases "topics = []") (auto simp: RecoverFromEtcd_def ReplayOperations_def g)
  with reg show ?thesis by blast
qed

theorem registration_recovery_witness:
  "\<exists>s' w'. RegisterBroker mem_client 0 ''a'' ''h:1'' [] (NewSentinelServer ''s'' ''h:9'' True)
       [(IncrementIDPrefix @ ''operation'', EText (format_int 0))] = Returns (True, s', w') \<and>
     RecoverFromEtcd mem_client 5 (NewSentinelServer ''s'' ''h:9'' True) w' = Panics"
proof -
  have "\<exists>s' w'. RegisterBroker mem_client 0 ''a'' ''h:1'' [] (NewSentinelServer ''s'' ''h:9'' True)
       [(IncrementIDPrefix @ ''operation'', EText (format_int 0))] = Returns (True, s', w') \<and>
     RecoverFromEtcd mem_client 5 (NewSentinelServer ''s'' ''h:9'' True) w' =
       (if [] = ([] :: string list) then Panics
        else Returns (None, add_broker (new_broker 5 ''a'' ''h:1'' []) (NewSentinelServer ''s'' ''h:9'' True), w'))"
    by (rule registration_recovery [where view = map_of and i = 0])
      (simp_all add: kv_store_mem counter_not_operation NewSentinelServer_def)
  then show ?thesis by simp
qed

end
