(* ===== verification/Migration.thy ===== *)
theory Migration
  imports Sentinel BrokerServer
begin

text \<open>
  The move of a topic to a successor, over the parts that take part in it: the sentinel chooses the successor
  and commands the brokers that hold the topic, each of these selects fragments and sends their files in chunks, and
  the successor writes the files.
\<close>

section \<open>The files of a topic\<close>

text \<open>The temporary file that a target uses for the fragments of a topic.\<close>

definition tmp_path :: "string \<Rightarrow> fragment_manager \<Rightarrow> string \<Rightarrow> string" where
  "tmp_path rnd fm topic = filepath_Join [filepath_Clean (join_prefix (fm_baseDir fm) @ topic @ ''/''), ''fragment_tmp_'' @ rnd]"

lemma fragment_tmp:
  assumes "plain topic" and "CHR ''/'' \<notin> set rnd"
  shows "filepath_Join [filepath_Dir (GetFragmentPath fm topic i), ''fragment_tmp_'' @ rnd] = tmp_path rnd fm topic"
    and "tmp_path rnd fm topic \<noteq> GetFragmentPath fm topic i"
proof -
  have p: "GetFragmentPath fm topic i = (join_prefix (fm_baseDir fm) @ topic) @ ''/'' @ fragment_name i"
    using assms(1) by (simp add: GetFragmentPath_def filepath_Join_plain plain_fragment_name)
  have n: "CHR ''/'' \<notin> set (fragment_name i)" using plain_fragment_name [of i] by (simp add: plain_def)
  show "filepath_Join [filepath_Dir (GetFragmentPath fm topic i), ''fragment_tmp_'' @ rnd] = tmp_path rnd fm topic"
    unfolding p Dir_last [OF n] by (simp add: tmp_path_def)
  have "plain (''fragment_tmp_'' @ rnd)" using assms(2) by (simp add: plain_def)
  then have t: "tmp_path rnd fm topic = join_prefix (filepath_Clean (join_prefix (fm_baseDir fm) @ topic @ ''/'')) @ ''fragment_tmp_'' @ rnd"
    by (simp add: tmp_path_def filepath_Join_plain2)
  show "tmp_path rnd fm topic \<noteq> GetFragmentPath fm topic i"
  proof
    assume "tmp_path rnd fm topic = GetFragmentPath fm topic i"
    then have eq: "join_prefix (filepath_Clean (join_prefix (fm_baseDir fm) @ topic @ ''/'')) @ (''fragment_tmp_'' @ rnd) =
        (join_prefix (fm_baseDir fm) @ topic) @ ''/'' @ fragment_name i" unfolding p t by simp
    have "''fragment_tmp_'' @ rnd = fragment_name i"
      by (rule last_element [OF eq join_prefix_end _ n]) (use assms(2) in simp)
    then have "CHR ''t'' \<in> set (itoa (unat i))" by (cases "itoa (unat i)") (auto simp: fragment_name_def)
    then obtain d where "d < 10" "CHR ''t'' = digit_char d" using itoa_digits by blast
    then have "(of_char (CHR ''t'') :: nat) = 48 + d" using of_digit_char [of d] by simp
    then show False using \<open>d < 10\<close> by simp
  qed
qed

section \<open>Sending the fragments of a broker\<close>

text \<open>A source: its fragment files can be read and are not empty.\<close>

definition source_ok :: "string \<Rightarrow> broker_server \<Rightarrow> fsys \<Rightarrow> bool" where
  "source_ok topic bs fs \<longleftrightarrow> FileSys.healthy fs \<and>
     (\<forall>fr \<in> set (frags (bs_fm bs) topic). \<exists>data. fs_content fs (GetFragmentPath (bs_fm bs) topic (fr_ID fr)) = Some data \<and> data \<noteq> [])"

definition target_ok :: "string \<Rightarrow> broker_server \<Rightarrow> string \<Rightarrow> fsys \<Rightarrow> bool" where
  "target_ok rnd tgt topic tfs \<longleftrightarrow> FileSys.healthy tfs \<and> fs_wf tfs \<and> lookup_ino tfs (tmp_path rnd (bs_fm tgt) topic) = None"

lemma send_fragments_copies:
  assumes "plain topic" and "CHR ''/'' \<notin> set rnd" and "set frs \<subseteq> set (frags (bs_fm src) topic)"
    and "source_ok topic src fs" and "target_ok rnd tgt topic tfs"
  shows "\<exists>fs' tfs'. send_fragments md5 (accept_fragment rnd tgt) topic frs src fs tfs = ((None, fs'), tfs') \<and>
    fs_content fs' = fs_content fs \<and> source_ok topic src fs' \<and> target_ok rnd tgt topic tfs' \<and>
    (\<forall>i. fs_content tfs' (GetFragmentPath (bs_fm tgt) topic i) =
      (if i \<in> fr_ID ` set frs then fs_content fs (GetFragmentPath (bs_fm src) topic i)
       else fs_content tfs (GetFragmentPath (bs_fm tgt) topic i)))"
  using assms(3-)
proof (induction frs arbitrary: fs tfs)
  case Nil
  then show ?case by simp
next
  case (Cons fr frs)
  let ?p = "GetFragmentPath (bs_fm tgt) topic (fr_ID fr)"
  obtain data where d: "fs_content fs (GetFragmentPath (bs_fm src) topic (fr_ID fr)) = Some data" "data \<noteq> []"
    using Cons.prems(1,2) by (auto simp: source_ok_def)
  have h: "FileSys.healthy fs" "FileSys.healthy tfs" "fs_wf tfs" "lookup_ino tfs (tmp_path rnd (bs_fm tgt) topic) = None"
    using Cons.prems(2,3) by (simp_all add: source_ok_def target_ok_def)
  obtain tfs1 where t: "SendFragmentToTarget md5 (accept_fragment rnd tgt) topic (fr_ID fr) src fs tfs = ((None, tick fs), tfs1)"
    "target_ok rnd tgt topic tfs1" "fs_content tfs1 ?p = Some data" "\<forall>p. p \<noteq> ?p \<longrightarrow> fs_content tfs1 p = fs_content tfs p"
    using SendFragment_copies [OF h(1) d h(2,3) refl fragment_tmp(1) [OF assms(1,2), symmetric] h(4) fragment_tmp(2) [OF assms(1,2)], of md5]
    by (auto simp: target_ok_def)
  have s: "source_ok topic src (tick fs)" using Cons.prems(2) by (simp add: source_ok_def)
  have sub: "set frs \<subseteq> set (frags (bs_fm src) topic)" using Cons.prems(1) by simp
  from Cons.IH [OF sub s t(2)] obtain fs' tfs' where r: "send_fragments md5 (accept_fragment rnd tgt) topic frs src (tick fs) tfs1 = ((None, fs'), tfs')"
    "fs_content fs' = fs_content fs" "source_ok topic src fs'" "target_ok rnd tgt topic tfs'"
    "\<forall>i. fs_content tfs' (GetFragmentPath (bs_fm tgt) topic i) =
      (if i \<in> fr_ID ` set frs then fs_content fs (GetFragmentPath (bs_fm src) topic i)
       else fs_content tfs1 (GetFragmentPath (bs_fm tgt) topic i))" by auto
  have "fs_content tfs1 (GetFragmentPath (bs_fm tgt) topic i) =
      (if i = fr_ID fr then fs_content fs (GetFragmentPath (bs_fm src) topic i) else fs_content tfs (GetFragmentPath (bs_fm tgt) topic i))" for i
    using t(3,4) d(1) GetFragmentPath_inject [OF assms(1,1), of "bs_fm tgt" i "fr_ID fr"] by auto
  with r t(1) show ?case by (auto simp: IsFragmentFullyConsumed_def)
qed

lemma ReplicateFragments_copies:
  assumes "plain topic" and "CHR ''/'' \<notin> set rnd" and "n \<noteq> 0" and "source_ok topic src fs" and "target_ok rnd tgt topic tfs"
  shows "\<exists>fs' tfs'. ReplicateFragments md5 (accept_fragment rnd tgt) topic idx n src fs tfs = Returns ((None, fs'), tfs') \<and>
    fs_content fs' = fs_content fs \<and> source_ok topic src fs' \<and> target_ok rnd tgt topic tfs' \<and>
    (\<forall>i. fs_content tfs' (GetFragmentPath (bs_fm tgt) topic i) =
      (if i mod n = idx \<and> i \<in> fr_ID ` set (frags (bs_fm src) topic) then fs_content fs (GetFragmentPath (bs_fm src) topic i)
       else fs_content tfs (GetFragmentPath (bs_fm tgt) topic i)))"
proof -
  let ?frs = "filter (\<lambda>fr. fr_ID fr mod n = idx) (frags (bs_fm src) topic)"
  have "i \<in> fr_ID ` set ?frs \<longleftrightarrow> i mod n = idx \<and> i \<in> fr_ID ` set (frags (bs_fm src) topic)" for i by auto
  moreover have "ReplicateFragments md5 (accept_fragment rnd tgt) topic idx n src fs tfs =
      Returns (send_fragments md5 (accept_fragment rnd tgt) topic ?frs src fs tfs)"
    using assms(3) by (simp add: ReplicateFragments_def SelectFragmentsForReplication_def)
  ultimately show ?thesis
    using send_fragments_copies [OF assms(1,2) _ assms(4,5), of ?frs md5] by simp
qed

section \<open>The commands of the sentinel\<close>

text \<open>
  The world of a move: the brokers that answer at their addresses, with their files, and the files of the successor. The
  replication that a broker starts in a goroutine is over before the next command.
\<close>

type_synonym move_world = "(string \<rightharpoonup> broker_server \<times> fsys) \<times> fsys"

definition move_net :: "(bytes \<Rightarrow> bytes) \<Rightarrow> string \<Rightarrow> broker_server \<Rightarrow> move_world broker_net" where
  "move_net md5 rnd tgt = \<lparr>
     bn_RemoveTopic = (\<lambda>a t r w. (None, w)), bn_SetTopicRole = (\<lambda>a t r fs l w. (None, w)),
     bn_GetBrokerTopicRole = (\<lambda>a i t w. (None, w)),
     bn_RequestFragmentReplication = (\<lambda>a q (srcs, tfs). case srcs a of
         None \<Rightarrow> (None, srcs, tfs)
       | Some (bs, fs) \<Rightarrow>
           (case RequestFragmentReplication md5 (accept_fragment rnd tgt) (fq_Topic q) (fq_ReplicaIndex q) (fq_TotalReplicas q) bs fs tfs of
              (ok, Returns ((e, fs'), tfs')) \<Rightarrow> (Some ok, srcs(a \<mapsto> (bs, fs')), tfs')
            | (ok, _) \<Rightarrow> (Some ok, srcs, tfs))),
     bn_GetTopicLeader = (\<lambda>a q w. (None, w))\<rparr>"

text \<open>The contents of a fragment at a broker that has it.\<close>

definition fragment_at :: "(string \<rightharpoonup> broker_server \<times> fsys) \<Rightarrow> string \<Rightarrow> u64 \<Rightarrow> string \<Rightarrow> bytes option" where
  "fragment_at srcs topic i a =
     (case srcs a of
        None \<Rightarrow> None
      | Some (bs, fs) \<Rightarrow>
          if i \<in> fr_ID ` set (frags (bs_fm bs) topic) then fs_content fs (GetFragmentPath (bs_fm bs) topic i) else None)"

definition move_ok :: "string \<Rightarrow> broker_server \<Rightarrow> string \<Rightarrow> move_world \<Rightarrow> bool" where
  "move_ok rnd tgt topic w \<longleftrightarrow> target_ok rnd tgt topic (snd w) \<and> (\<forall>a bs fs. fst w a = Some (bs, fs) \<longrightarrow> source_ok topic bs fs)"

abbreviation target_fragment :: "broker_server \<Rightarrow> string \<Rightarrow> u64 \<Rightarrow> move_world \<Rightarrow> bytes option" where
  "target_fragment tgt topic i w \<equiv> fs_content (snd w) (GetFragmentPath (bs_fm tgt) topic i)"

lemma command_copies:
  assumes "plain topic" and "CHR ''/'' \<notin> set rnd" and "move_ok rnd tgt topic w" and "ss_brokers s tid \<noteq> None"
    and n: "n = word_of_nat (length (filter (has_topic topic s) (List.map_filter (ss_brokers s) order)))" "n \<noteq> 0"
    and run: "callRequestFragmentReplication (move_net md5 rnd tgt) order a topic tid s w = (e, w')"
  shows "move_ok rnd tgt topic w' \<and> fragment_at (fst w') topic = fragment_at (fst w) topic \<and>
    (\<forall>i. target_fragment tgt topic i w' =
      (if i mod n = n - 1 \<and> fragment_at (fst w) topic i a \<noteq> None then fragment_at (fst w) topic i a else target_fragment tgt topic i w))"
proof -
  obtain srcs tfs where w: "w = (srcs, tfs)" by (cases w)
  obtain r where r: "ss_brokers s tid = Some r" using assms(4) by blast
  show ?thesis
  proof (cases "srcs a")
    case None
    with run w r have "w' = w" by (auto simp: callRequestFragmentReplication_def move_net_def Let_def)
    with None w assms(3) show ?thesis by (simp add: fragment_at_def)
  next
    case (Some x)
    obtain bs fs where x: "x = (bs, fs)" by (cases x)
    have ok: "source_ok topic bs fs" "target_ok rnd tgt topic tfs" using assms(3) w Some x by (simp_all add: move_ok_def)
    obtain fs' tfs' where c: "ReplicateFragments md5 (accept_fragment rnd tgt) topic (n - 1) n bs fs tfs = Returns ((None, fs'), tfs')"
      "fs_content fs' = fs_content fs" "source_ok topic bs fs'" "target_ok rnd tgt topic tfs'"
      "\<forall>i. fs_content tfs' (GetFragmentPath (bs_fm tgt) topic i) =
        (if i mod n = n - 1 \<and> i \<in> fr_ID ` set (frags (bs_fm bs) topic) then fs_content fs (GetFragmentPath (bs_fm bs) topic i)
         else fs_content tfs (GetFragmentPath (bs_fm tgt) topic i))"
      using ReplicateFragments_copies [OF assms(1,2) n(2) ok, of md5 "n - 1"] by blast
    have w': "w' = (srcs(a \<mapsto> (bs, fs')), tfs')"
      using run w r Some x c(1) n(1) by (auto simp: callRequestFragmentReplication_def move_net_def RequestFragmentReplication_def Let_def)
    have have_it: "i \<in> fr_ID ` set (frags (bs_fm bs) topic) \<longleftrightarrow> fragment_at srcs topic i a \<noteq> None" for i
      using ok(1) Some x by (auto simp: fragment_at_def source_ok_def)
    have "fragment_at (srcs(a \<mapsto> (bs, fs'))) topic = fragment_at srcs topic"
      using c(2) Some x by (auto simp: fragment_at_def fun_eq_iff)
    moreover have "move_ok rnd tgt topic w'" using assms(3) w w' c(3,4) by (auto simp: move_ok_def)
    moreover have "fs_content fs (GetFragmentPath (bs_fm bs) topic i) = fragment_at srcs topic i a" if "fragment_at srcs topic i a \<noteq> None" for i
      using that Some x by (auto simp: fragment_at_def split: if_splits)
    ultimately show ?thesis using c(5) w w' have_it by auto
  qed
qed

text \<open>The commands one after the other: for the selected fragments the last broker that has one decides.\<close>

lemma commands_copy:
  assumes "plain topic" and "CHR ''/'' \<notin> set rnd" and "ss_brokers s tid \<noteq> None"
    and n: "n = word_of_nat (length (filter (has_topic topic s) (List.map_filter (ss_brokers s) order)))" "n \<noteq> 0"
    and "move_ok rnd tgt topic w"
  shows "target_fragment tgt topic i (command_replication (move_net md5 rnd tgt) order topic tid s peers w) =
    fold (\<lambda>r c. if i mod n = n - 1 \<and> fragment_at (fst w) topic i (sb_Address (broker_at s r)) \<noteq> None
       then fragment_at (fst w) topic i (sb_Address (broker_at s r)) else c) peers (target_fragment tgt topic i w)"
  using assms(6)
proof (induction peers arbitrary: w)
  case (Cons r peers)
  obtain e w1 where c: "callRequestFragmentReplication (move_net md5 rnd tgt) order (sb_Address (broker_at s r)) topic tid s w = (e, w1)"
    by (cases "callRequestFragmentReplication (move_net md5 rnd tgt) order (sb_Address (broker_at s r)) topic tid s w")
  note step = command_copies [OF assms(1,2) Cons.prems assms(3) n c]
  with Cons.IH [of w1] c show ?case by simp
qed simp

lemma fold_overwrite:
  "\<forall>x \<in> set xs. \<not> P x \<Longrightarrow> fold (\<lambda>x c. if P x then f x else c) xs c = c"
  "\<forall>x \<in> set xs. P x \<longrightarrow> f x = v \<Longrightarrow> (\<exists>x \<in> set xs. P x) \<or> c = v \<Longrightarrow> fold (\<lambda>x c. if P x then f x else c) xs c = v"
  by (induction xs arbitrary: c) auto

section \<open>Properties\<close>


definition move_sentinel :: sentinel_server where
  "move_sentinel = (NewSentinelServer ''s'' ''h:9'' False)\<lparr>
     ss_hashRing := \<lparr>nodes = [0], nodeMap = [0 \<mapsto> ''b''], replicas = 1\<rparr>, ss_brokers := [''a'' \<mapsto> 0, ''b'' \<mapsto> 1],
     ss_objects := [new_broker 0 ''a'' ''h:1'' [''a''], new_broker 0 ''b'' ''h:2'' []]\<rparr>"

definition move_start :: move_world where
  "move_start = ([''h:1'' \<mapsto> (sample_broker\<lparr>bs_fm := one_fragment\<rparr>, fs_with ''data/a/fragment_0.frag'' [1, 2, 3])], empty_fs)"


end
