(* ===== verification/BrokerStream.thy ===== *)
theory BrokerStream
  imports BrokerServer
begin

text \<open>
  The path of accepted messages through a broker that leads its topics: write-ahead log, Raft, fragments and
  response. The log and the fragments live on one file system.
\<close>

section \<open>The state of a broker\<close>

text \<open>
  The fragments hold the messages \<open>H\<close>, the current log file the entries \<open>es\<close>, and the log is no fragment file of a
  topic with a plain name.
\<close>

definition broker_holds ::
  "int \<Rightarrow> int \<Rightarrow> broker_server \<Rightarrow> fsys \<Rightarrow> (string \<Rightarrow> message_entry list) \<Rightarrow> wal_entry list \<Rightarrow> bool" where
  "broker_holds maxSize maxMessages bs fs H es \<longleftrightarrow>
     fm_holds maxSize maxMessages (bs_fm bs, fs) H \<and> wal_has (bs_wal bs) fs es \<and>
     (\<forall>t i. plain t \<longrightarrow> GetFragmentPath (bs_fm bs) t i \<noteq> w_currentPath (bs_wal bs))"

text \<open>The broker leads a topic: the sentinel gave it the role, and its Raft node won the election.\<close>

definition leads :: "broker_server \<Rightarrow> string \<Rightarrow> bool" where
  "leads bs t \<longleftrightarrow> t \<in> set (bs_topics bs) \<and>
     (\<exists>c. rm_clusters (bs_rm bs) t = Some c \<and> tc_role c = TOPIC_ROLE_LEADER \<and> rn_state (tc_raftNode c) = Leader)"

text \<open>The identities that a stream of requests gets, and what is logged and stored for them.\<close>

abbreviation topic_of :: "arrival \<Rightarrow> string" where
  "topic_of a \<equiv> mq_Topic (ar_request a)"

abbreviation payload_of :: "arrival \<Rightarrow> bytes" where
  "payload_of a \<equiv> mq_Payload (ar_request a)"

fun numbered :: "u64 \<Rightarrow> arrival list \<Rightarrow> (u64 \<times> arrival) list" where
  "numbered k [] = []"
| "numbered k (a # as) = (k + 1, a) # numbered (k + 1) as"

definition logged :: "u64 \<times> arrival \<Rightarrow> wal_entry" where
  "logged x = \<lparr>we_Type = 1, we_Topic = topic_of (snd x), we_MessageID = fst x, we_Payload = payload_of (snd x),
     we_Timestamp = word_of_int (Unix (ar_now (snd x)))\<rparr>"

text \<open>The entries of a topic; \<open>at\<close> is the time at which a message was stored.\<close>

definition stored_in :: "(u64 \<times> arrival \<Rightarrow> time) \<Rightarrow> string \<Rightarrow> (u64 \<times> arrival) list \<Rightarrow> message_entry list" where
  "stored_in at t xs = map (\<lambda>x. new_entry (at x) (fst x) (payload_of (snd x))) (filter (\<lambda>x. topic_of (snd x) = t) xs)"

definition arrived :: "u64 \<times> arrival \<Rightarrow> time" where
  "arrived x = ar_clk (snd x) 2"

definition accepted :: "u64 \<times> arrival \<Rightarrow> message_response" where
  "accepted x = \<lparr>mr_MessageId = fst x, mr_Status = STATUS_SUCCESS\<rparr>"

section \<open>One message\<close>

lemma wal_has_kept: "wal_has w fs es \<Longrightarrow> kept fs fs' (w_currentPath w) \<Longrightarrow> wal_has w fs' es"
  by (auto simp: wal_has_def kept_def)

lemma broker_holds_log:
  assumes "broker_holds a b bs fs H es" and "entry_ok e" and "int (wal_size es) < w_maxFileSize (bs_wal bs)"
  shows "\<exists>w' fs'. Write stamp e (bs_wal bs) fs = Returns ((None, w'), fs') \<and> w_maxFileSize w' = w_maxFileSize (bs_wal bs) \<and>
    w_currentPath w' = w_currentPath (bs_wal bs) \<and> broker_holds a b (bs\<lparr>bs_wal := w'\<rparr>) fs' H (es @ [e])"
proof -
  have fs: "healthy fs" "fs_wf fs" "wal_has (bs_wal bs) fs es" using assms(1) by (simp_all add: broker_holds_def fm_holds_def)
  obtain w' fs' where w: "Write stamp e (bs_wal bs) fs = Returns ((None, w'), fs')" "wal_has w' fs' (es @ [e])" "healthy fs'" "fs_wf fs'"
    "w_maxFileSize w' = w_maxFileSize (bs_wal bs)" "w_currentPath w' = w_currentPath (bs_wal bs)" "lookup_ino fs' = lookup_ino fs"
    "\<And>i. lookup_ino fs (w_currentPath (bs_wal bs)) \<noteq> Some i \<Longrightarrow> inodes fs' i = inodes fs i"
    using Write_room [OF fs assms(2,3), of stamp] by metis
  have kept: "kept fs fs' (GetFragmentPath (bs_fm bs) t i)" if "plain t" for t i
  proof -
    have "GetFragmentPath (bs_fm bs) t i \<noteq> w_currentPath (bs_wal bs)" using assms(1) that by (simp add: broker_holds_def)
    then have "lookup_ino fs (w_currentPath (bs_wal bs)) \<noteq> Some j" if "lookup_ino fs (GetFragmentPath (bs_fm bs) t i) = Some j" for j
      using fs(2) that unfolding fs_wf_def by metis
    with w(7,8) show ?thesis by (simp add: kept_def)
  qed
  have "fm_holds a b (bs_fm bs, fs) H" using assms(1) by (simp add: broker_holds_def)
  from fm_holds_frame [OF this w(3,4) kept] have "fm_holds a b (bs_fm bs, fs') H" .
  with w assms(1) show ?thesis by (simp add: broker_holds_def)
qed

lemma broker_holds_store:
  assumes "broker_holds a b bs fs H es" and "plain t" and "length p < 2 ^ 32" and "length (H t) < 2 ^ 64"
  shows "\<exists>fm' fs'. Fragment.WriteMessage clk t i p (bs_fm bs) fs = ((None, fm'), fs') \<and>
    broker_holds a b (bs\<lparr>bs_fm := fm'\<rparr>) fs' (H(t := H t @ [new_entry (clk 2) i p])) es"
proof -
  obtain fm' fs' where w: "Fragment.WriteMessage clk t i p (bs_fm bs) fs = ((None, fm'), fs')"
    "fm_holds a b (fm', fs') (H(t := H t @ [new_entry (clk 2) i p]))" "GetFragmentPath fm' = GetFragmentPath (bs_fm bs)"
    "\<forall>q. (\<forall>j. q \<noteq> GetFragmentPath (bs_fm bs) t j) \<longrightarrow> kept fs fs' q"
    using fm_holds_write [of a b "bs_fm bs" fs H t p clk i] assms by (auto simp: broker_holds_def)
  have "kept fs fs' (w_currentPath (bs_wal bs))" using w(4) assms(1,2) by (metis broker_holds_def)
  with w assms(1) show ?thesis by (auto simp: broker_holds_def wal_has_kept)
qed

lemma ProposeMessage_leads:
  assumes "leads bs t"
  shows "\<exists>rm'. ProposeMessage now t i p (bs_rm bs) = (None, rm') \<and>
    (\<forall>u. leads (bs\<lparr>bs_rm := rm'\<rparr>) u = leads bs u)"
  using assms by (auto simp: leads_def ProposeMessage_def Propose_def set_raft_node_def Let_def)

lemma broker_holds_other [simp]:
  "broker_holds a b (bs\<lparr>bs_messageCounter := n\<rparr>) fs H es = broker_holds a b bs fs H es"
  "broker_holds a b (bs\<lparr>bs_topics := ts\<rparr>) fs H es = broker_holds a b bs fs H es"
  "broker_holds a b (bs\<lparr>bs_topicRoles := rs\<rparr>) fs H es = broker_holds a b bs fs H es"
  "broker_holds a b (bs\<lparr>bs_rm := rm\<rparr>) fs H es = broker_holds a b bs fs H es"
  by (simp_all add: broker_holds_def)

lemma leads_other [simp]:
  "leads (bs\<lparr>bs_fm := fm\<rparr>) = leads bs" "leads (bs\<lparr>bs_wal := w\<rparr>) = leads bs"
  "leads (bs\<lparr>bs_messageCounter := n\<rparr>) = leads bs" "leads (bs\<lparr>bs_topicRoles := rs\<rparr>) = leads bs"
  by (simp_all add: leads_def fun_eq_iff)

lemma processMessage_accepts:
  assumes holds: "broker_holds a b bs fs H es" and "leads bs (topic_of q)" and "plain (topic_of q)" and "length (payload_of q) < 2 ^ 32"
    and "length (H (topic_of q)) < 2 ^ 64" and "x = (bs_messageCounter bs + 1, q)" and "entry_ok (logged x)"
    and "int (wal_size es) < w_maxFileSize (bs_wal bs)"
  shows "\<exists>bs' fs'. processMessage (ar_stamp q) (ar_now q) (ar_clk q) (ar_request q) bs fs = Returns ((Inr (accepted x), bs'), fs') \<and>
    broker_holds a b bs' fs' (H(topic_of q := H (topic_of q) @ [new_entry (arrived x) (fst x) (payload_of q)])) (es @ [logged x]) \<and>
    bs_messageCounter bs' = fst x \<and> (\<forall>u. leads bs' u = leads bs u) \<and>
    w_maxFileSize (bs_wal bs') = w_maxFileSize (bs_wal bs) \<and> w_currentPath (bs_wal bs') = w_currentPath (bs_wal bs)"
proof -
  let ?t = "topic_of q"
  define bs1 where "bs1 = bs\<lparr>bs_messageCounter := fst x, bs_topics := List.insert ?t (bs_topics bs),
    bs_topicRoles := (bs_topicRoles bs)(?t \<mapsto> RaftManager.GetTopicRole ?t (bs_rm bs))\<rparr>"
  have t: "?t \<in> set (bs_topics bs)" "IsLeader ?t (bs_rm bs)" using assms(2) by (auto simp: leads_def IsLeader_def)
  then have same: "List.insert ?t (bs_topics bs) = bs_topics bs" by (simp add: List.insert_def)
  have l1: "leads bs1 = leads bs" by (simp add: bs1_def same leads_def fun_eq_iff)
  have h1: "broker_holds a b bs1 fs H es" using holds by (simp add: bs1_def)
  have room: "int (wal_size es) < w_maxFileSize (bs_wal bs1)" using assms(8) by (simp add: bs1_def)
  obtain w fs1 where w: "Write (ar_stamp q) (logged x) (bs_wal bs1) fs = Returns ((None, w), fs1)"
    "w_maxFileSize w = w_maxFileSize (bs_wal bs1)" "broker_holds a b (bs1\<lparr>bs_wal := w\<rparr>) fs1 H (es @ [logged x])"
    "w_currentPath w = w_currentPath (bs_wal bs1)"
    using broker_holds_log [OF h1 assms(7) room] by blast
  define bs2 where "bs2 = bs1\<lparr>bs_wal := w\<rparr>"
  have l2: "leads bs2 ?t" using assms(2) l1 by (simp add: bs2_def)
  obtain rm where rm: "ProposeMessage (ar_now q) ?t (fst x) (payload_of q) (bs_rm bs2) = (None, rm)"
    "\<forall>u. leads (bs2\<lparr>bs_rm := rm\<rparr>) u = leads bs2 u"
    using ProposeMessage_leads [OF l2] by blast
  have h2: "broker_holds a b (bs2\<lparr>bs_rm := rm\<rparr>) fs1 H (es @ [logged x])" using w(3) by (simp add: bs2_def)
  obtain fm fs2 where fm: "Fragment.WriteMessage (ar_clk q) ?t (fst x) (payload_of q) (bs_fm (bs2\<lparr>bs_rm := rm\<rparr>)) fs1 = ((None, fm), fs2)"
    "broker_holds a b (bs2\<lparr>bs_rm := rm, bs_fm := fm\<rparr>) fs2 (H(?t := H ?t @ [new_entry (arrived x) (fst x) (payload_of q)])) (es @ [logged x])"
    using broker_holds_store [OF h2 assms(3-5), of "ar_clk q" "fst x"] assms(6) by (auto simp: arrived_def)
  have "processMessage (ar_stamp q) (ar_now q) (ar_clk q) (ar_request q) bs fs = Returns ((Inr (accepted x), bs2\<lparr>bs_rm := rm, bs_fm := fm\<rparr>), fs2)"
    using t w(1) rm(1) fm(1) assms(6)
    by (simp add: processMessage_def WAL.WriteMessage_def logged_def arrived_def accepted_def bs1_def bs2_def Let_def)
  with fm(2) rm(2) l1 w(2,4) show ?thesis by (auto simp: bs2_def bs1_def)
qed

section \<open>A stream of messages\<close>

lemma stored_in_Cons:
  "stored_in at t (x # xs) =
     (if topic_of (snd x) = t then [new_entry (at x) (fst x) (payload_of (snd x))] else []) @ stored_in at t xs"
  by (simp add: stored_in_def)

lemma wal_size_append: "wal_size es \<le> wal_size (es @ es')"
  by (simp add: wal_size_def)

lemma SendMessage_accepts:
  assumes "broker_holds a b bs fs H es" and "xs = numbered (bs_messageCounter bs) qs"
    and "\<forall>q \<in> set qs. leads bs (topic_of q) \<and> plain (topic_of q) \<and> length (payload_of q) < 2 ^ 32 \<and> ar_sent q"
    and "\<forall>t. length (H t) + length qs < 2 ^ 64" and "\<forall>x \<in> set xs. entry_ok (logged x)"
    and "int (wal_size (es @ map logged xs)) < w_maxFileSize (bs_wal bs)"
  shows "\<exists>bs' fs'. SendMessage (map Arrives qs) bs fs = Returns ((map accepted xs, StreamOpen, bs'), fs') \<and>
    broker_holds a b bs' fs' (\<lambda>t. H t @ stored_in arrived t xs) (es @ map logged xs) \<and>
    w_currentPath (bs_wal bs') = w_currentPath (bs_wal bs)"
  using assms
proof (induction qs arbitrary: bs fs H es xs)
  case Nil
  then show ?case by (simp add: stored_in_def)
next
  case (Cons q qs)
  define x where "x = (bs_messageCounter bs + 1, q)"
  define ys where "ys = numbered (fst x) qs"
  have xs: "xs = x # ys" using Cons.prems(2) by (simp add: x_def ys_def)
  have room: "int (wal_size es) < w_maxFileSize (bs_wal bs)"
    using Cons.prems(6) wal_size_append [of es "map logged xs"] by simp
  have len: "length (H (topic_of q)) < 2 ^ 64" using spec [OF Cons.prems(4), of "topic_of q"] by simp
  have q: "leads bs (topic_of q)" "plain (topic_of q)" "length (payload_of q) < 2 ^ 32" "entry_ok (logged x)" "ar_sent q"
    using Cons.prems(3,5) xs by simp_all
  define H1 where "H1 = H(topic_of q := H (topic_of q) @ [new_entry (arrived x) (fst x) (payload_of q)])"
  obtain bs1 fs1 where p: "processMessage (ar_stamp q) (ar_now q) (ar_clk q) (ar_request q) bs fs = Returns ((Inr (accepted x), bs1), fs1)"
    "broker_holds a b bs1 fs1 H1 (es @ [logged x])" "bs_messageCounter bs1 = fst x" "\<forall>u. leads bs1 u = leads bs u"
    "w_maxFileSize (bs_wal bs1) = w_maxFileSize (bs_wal bs)" "w_currentPath (bs_wal bs1) = w_currentPath (bs_wal bs)"
    using processMessage_accepts [OF Cons.prems(1) q(1-3) len x_def q(4) room] unfolding H1_def by blast
  have len1: "length (H1 t) + length qs < 2 ^ 64" for t using spec [OF Cons.prems(4), of t] by (auto simp: H1_def)
  have "\<exists>bs' fs'. SendMessage (map Arrives qs) bs1 fs1 = Returns ((map accepted ys, StreamOpen, bs'), fs') \<and>
      broker_holds a b bs' fs' (\<lambda>t. H1 t @ stored_in arrived t ys) ((es @ [logged x]) @ map logged ys) \<and>
      w_currentPath (bs_wal bs') = w_currentPath (bs_wal bs1)"
    by (rule Cons.IH [OF p(2)]) (use Cons.prems(3,5,6) p(3-5) xs len1 in \<open>simp_all add: ys_def\<close>)
  then obtain bs' fs' where r: "SendMessage (map Arrives qs) bs1 fs1 = Returns ((map accepted ys, StreamOpen, bs'), fs')"
    "broker_holds a b bs' fs' (\<lambda>t. H1 t @ stored_in arrived t ys) ((es @ [logged x]) @ map logged ys)"
    "w_currentPath (bs_wal bs') = w_currentPath (bs_wal bs1)" by blast
  have "(\<lambda>t. H1 t @ stored_in arrived t ys) = (\<lambda>t. H t @ stored_in arrived t xs)"
    by (auto simp: H1_def xs x_def stored_in_Cons fun_eq_iff)
  with p(1,6) q(5) r xs show ?case by (simp add: answer_def)
qed

section \<open>A restart\<close>

lemma replay_logged:
  "replay_log clk (map logged xs) H = (\<lambda>t. H t @ stored_in (\<lambda>_. clk 2) t xs)"
proof (induction xs arbitrary: H)
  case (Cons x xs)
  then show ?case by (cases x) (auto simp: logged_def stored_in_Cons fun_eq_iff)
qed (simp add: stored_in_def)

lemma replayable_logged:
  "\<forall>q \<in> set qs. plain (topic_of q) \<and> length (payload_of q) < 2 ^ 32 \<Longrightarrow> x \<in> set (numbered k qs) \<Longrightarrow> replayable (logged x)"
  by (induction k qs rule: numbered.induct) (auto simp: replayable_def logged_def)

lemma length_numbered [simp]: "length (numbered k qs) = length qs"
  by (induction k qs rule: numbered.induct) simp_all

lemma replay_holds:
  assumes "broker_holds a b bs fs H es" and "\<forall>e \<in> set es. entry_ok e \<and> replayable e" and "length es < 2 ^ 64"
    and "bs_fm new = NewFragmentManager dir a b ttl"
  shows "\<exists>bs' fs'. replayFile (replay_entry clk) (w_currentPath (bs_wal bs)) (new, fs) = (None, bs', fs') \<and>
    fm_holds a b (bs_fm bs', fs') (replay_log clk es (\<lambda>_. []))"
proof -
  have fs: "healthy fs" "fs_wf fs" "fs_content fs (w_currentPath (bs_wal bs)) = Some (wal_header @ concat (map enc_entry es))"
    using assms(1) wal_has_content by (auto simp: broker_holds_def fm_holds_def)
  have "fm_holds a b (bs_fm new, tick fs) (\<lambda>_. [])" using fm_holds_new [of "tick fs"] fs(1,2) assms(4) by simp
  from run_handler_replay [OF this, of es clk] assms(2,3) obtain bs' fs' where
    "run_handler (replay_entry clk) es (new, tick fs) = (None, bs', fs')" "fm_holds a b (bs_fm bs', fs') (replay_log clk es (\<lambda>_. []))"
    by auto
  moreover have "replayFile (replay_entry clk) (w_currentPath (bs_wal bs)) (new, fs) = run_handler (replay_entry clk) es (new, tick fs)"
    using fs assms(2) by (simp add: replayFile_def os_Open_def replay_bytes_entries)
  ultimately show ?thesis by simp
qed

section \<open>A sample broker\<close>

text \<open>A broker with an empty log file that leads \<^verbatim>\<open>orders\<close>, and two messages for it.\<close>

definition leading_broker :: "wal \<Rightarrow> broker_server" where
  "leading_broker w = sample_broker\<lparr>bs_wal := w, bs_topics := [''orders''],
     bs_rm := (bs_rm sample_broker)\<lparr>rm_clusters := [''orders'' \<mapsto>
       \<lparr>tc_topic = ''orders'', tc_raftNode = (NewRaftNode ''h1'' [])\<lparr>rn_state := Leader\<rparr>, tc_peers = [],
        tc_role = TOPIC_ROLE_LEADER, tc_leaderAddr = ''h1'', tc_followers = []\<rparr>]\<rparr>\<rparr>"

definition order_at :: "time \<Rightarrow> bytes \<Rightarrow> arrival" where
  "order_at now payload = \<lparr>ar_request = \<lparr>mq_Topic = ''orders'', mq_Payload = payload, mq_MessageId = 0\<rparr>, ar_stamp = ''s'',
     ar_now = now, ar_clk = (\<lambda>_. now), ar_sent = True\<rparr>"

definition two_orders :: "arrival list" where
  "two_orders = [order_at 0 [7], order_at 5 [8, 9]]"

lemma leading_broker_exists:
  obtains w fs where "broker_holds 4096 10 (leading_broker w) fs (\<lambda>_. []) []" and "w_maxFileSize w = 1000"
    and "leads (leading_broker w) ''orders''" and "bs_messageCounter (leading_broker w) = 0"
proof -
  obtain w fs where w: "wal_has w fs []" "healthy fs" "fs_wf fs" "w_maxFileSize w = 1000"
    "w_currentPath w = filepath_Join [''data/wal'', ''wal_s.log'']"
    using createNewFile_has [of empty_fs "wal_in ''data/wal''" "''s''" thesis] by (auto simp: wal_in_def)
  have "filepath_Join [''data/wal'', ''wal_s.log''] = ''data/wal/wal_s.log''" "join_prefix ''data/fragments'' = ''data/fragments/''"
    by code_simp+
  with w(5) have "GetFragmentPath (bs_fm (leading_broker w)) t i \<noteq> w_currentPath w" if "plain t" for t i
    using filepath_Join_plain [OF that plain_fragment_name, of "''data/fragments''" i]
    by (simp add: GetFragmentPath_def leading_broker_def sample_broker_def NewFragmentManager_def)
  moreover have "fm_holds 4096 10 (bs_fm (leading_broker w), fs) (\<lambda>_. [])"
    using fm_holds_new [OF w(2,3)] by (simp add: leading_broker_def sample_broker_def)
  ultimately have "broker_holds 4096 10 (leading_broker w) fs (\<lambda>_. []) []"
    using w(1) by (simp add: broker_holds_def) (simp add: leading_broker_def)
  then show ?thesis using that w(4) by (simp add: leads_def leading_broker_def sample_broker_def)
qed

lemma two_orders_ok:
  "\<forall>x \<in> set (numbered 0 two_orders). entry_ok (logged x)"
  "wal_size (map logged (numbered 0 two_orders)) < 1000"
  "\<forall>q \<in> set two_orders. topic_of q = ''orders'' \<and> plain (topic_of q) \<and> length (payload_of q) < 2 ^ 32 \<and> ar_sent q"
  "length two_orders = 2"
  by (auto simp: two_orders_def order_at_def entry_ok_def entrySize_def logged_def plain_def wal_size_def wal_header_def wal_magic_def
    enc_entry_def entry_fields_def)

section \<open>Properties\<close>





end
