(* ===== verification/BrokerReach.thy ===== *)
theory BrokerReach
  imports BrokerServer
begin

text \<open>
  The states a broker can reach from its start through all its handlers and the goroutines of its Raft nodes, in any order
  and with any files, clocks and messages, and what holds in all of them.
\<close>

section \<open>What a replay keeps\<close>

lemma replay_loop_keeps:
  assumes "\<And>e s. J s \<Longrightarrow> J (snd (handler e s))" and "J s"
  shows "J (snd (replay_loop handler bs s))"
  using assms
proof (induction handler bs s rule: replay_loop.induct)
  case (1 handler bs s)
  have step: "J s'" if "handler e s = (ok, s')" for e ok s' using 1(2) [OF 1(3), of e] that by simp
  show ?case
    by (subst replay_loop.simps) (use 1 step in \<open>auto split: option.splits prod.splits sum.splits bool.splits\<close>)
qed

lemma replayFile_keeps:
  assumes "\<And>e s. J (fst s) \<Longrightarrow> J (fst (snd (handler e s)))" and "J (fst s)"
  shows "J (fst (snd (replayFile handler path s)))"
  using replay_loop_keeps [of "\<lambda>s. J (fst s)" handler] assms
  by (auto simp: replayFile_def replay_bytes_def split: prod.splits sum.splits option.splits)

lemma Replay_keeps:
  assumes "\<And>e s. J (fst s) \<Longrightarrow> J (fst (snd (handler e s)))" and "J (fst s)"
  shows "J (fst (Replay handler w s))"
proof -
  have "J (fst (foldl (\<lambda>s path. snd (replayFile handler path s)) s ps))" for ps
    using assms(2) replayFile_keeps [of J handler, OF assms(1)] by (induction ps arbitrary: s) auto
  then show ?thesis by (simp add: Replay_def)
qed

section \<open>Reachable states\<close>

datatype broker_event =
  BSend "stream_round list"
| BRole string topic_role "string list" string
| BRemove string time string string
| BRaftRequest "string \<Rightarrow> bool" "nat \<Rightarrow> time" raft_request
| BRaftTask "string \<Rightarrow> bool" string nat
| BRaftRound string bool

text \<open>A round of the main loop of a topic's Raft node.\<close>

definition run_node :: "string \<Rightarrow> bool \<Rightarrow> raft_manager \<Rightarrow> raft_manager" where
  "run_node topic fired rm =
     (case rm_clusters rm topic of None \<Rightarrow> rm | Some c \<Rightarrow> set_raft_node topic c (run_round fired (tc_raftNode c)) rm)"

fun broker_exec :: "broker_event \<Rightarrow> broker_server \<times> fsys \<Rightarrow> (broker_server \<times> fsys) call" where
  "broker_exec (BSend rs) (bs, fs) = bind_call (SendMessage rs bs fs) (\<lambda>((_, _, bs1), fs1). Returns (bs1, fs1))"
| "broker_exec (BRole t role followers leader) (bs, fs) =
     bind_call (SetTopicRole t role followers leader bs) (\<lambda>(_, bs1). Returns (bs1, fs))"
| "broker_exec (BRemove stamp now t reason) (bs, fs) =
     bind_call (RemoveTopic stamp now t reason bs fs) (\<lambda>((_, bs1), fs1). Returns (bs1, fs1))"
| "broker_exec (BRaftRequest dial clk q) (bs, fs) =
     bind_call (HandleRaftRequest dial clk q bs fs) (\<lambda>(_, _, bs1, fs1). Returns (bs1, fs1))"
| "broker_exec (BRaftTask dial t k) (bs, fs) =
     bind_call (run_raft_task dial t k (bs_rm bs)) (\<lambda>(_, rm). Returns (bs\<lparr>bs_rm := rm\<rparr>, fs))"
| "broker_exec (BRaftRound t fired) (bs, fs) = Returns (bs\<lparr>bs_rm := run_node t fired (bs_rm bs)\<rparr>, fs)"

text \<open>Between two steps other programs may change the files.\<close>

inductive broker_reach :: "broker_server \<Rightarrow> bool" where
  start: "NewBrokerServer stamp clk brokerID address dataDir fs = Returns (Inr bs, fs') \<Longrightarrow> broker_reach bs"
| step: "broker_reach bs \<Longrightarrow> broker_exec ev (bs, fs) = Returns (bs', fs') \<Longrightarrow> broker_reach bs'"

section \<open>The tables of topics and roles\<close>

text \<open>The roles of the Raft manager: what an operation that only touches Raft nodes and connections keeps.\<close>

definition roles :: "raft_manager \<Rightarrow> string \<Rightarrow> topic_role option" where
  "roles rm t = map_option tc_role (rm_clusters rm t)"

lemma GetTopicRole_roles: "RaftManager.GetTopicRole t rm = (case roles rm t of None \<Rightarrow> TOPIC_ROLE_UNSPECIFIED | Some r \<Rightarrow> r)"
  by (simp add: RaftManager.GetTopicRole_def roles_def split: option.splits)

lemma roles_set_node [simp]: "rm_clusters rm t = Some c \<Longrightarrow> roles (set_raft_node t c n rm) = roles rm"
  by (auto simp: roles_def set_raft_node_def fun_eq_iff)

lemma roles_send: "raft_send dial t p m rm = (r, rm') \<Longrightarrow> roles rm' = roles rm"
  by (auto simp: raft_send_def getOrCreateClient_def roles_def fun_eq_iff split: option.splits if_splits prod.splits)

lemma roles_propose: "ProposeMessage now t i p rm = (r, rm') \<Longrightarrow> roles rm' = roles rm"
  by (auto simp: ProposeMessage_def split: option.splits if_splits prod.splits bool.splits)

lemma roles_message: "HandleRaftMessage dial clk t m rm s = Returns (e, out, rm', s') \<Longrightarrow> roles rm' = roles rm"
  by (auto simp: HandleRaftMessage_def sendRaftResponse_def Let_def bind_call_Returns split: option.splits raft_wire.splits)
    (auto split: prod.splits sum.splits dest!: roles_send)

lemma roles_request: "RaftManager.HandleRaftRequest dial clk q rm s = Returns (resp, out, rm', s') \<Longrightarrow> roles rm' = roles rm"
  by (auto simp: RaftManager.HandleRaftRequest_def Let_def bind_call_Returns split: option.splits dest!: roles_message)

lemma roles_task: "run_raft_task dial t k rm = Returns (out, rm') \<Longrightarrow> roles rm' = roles rm"
  by (auto simp: run_raft_task_def Let_def bind_call_Returns split: option.splits if_splits raft_task.splits)
    (auto split: prod.splits sum.splits dest!: roles_send)

lemma roles_node: "roles (run_node t fired rm) = roles rm"
  by (simp add: run_node_def split: option.splits)

lemma roles_SetTopicRole: "RaftManager.SetTopicRole t role fs l rm = Returns rm' \<Longrightarrow> roles rm' = (roles rm)(t \<mapsto> role)"
  by (auto simp: RaftManager.SetTopicRole_def roles_def bind_call_Returns Let_def fun_eq_iff split: option.splits)

lemma roles_RemoveTopic: "RaftManager.RemoveTopic t rm = Returns rm' \<Longrightarrow> roles rm' = (roles rm)(t := None)"
  by (auto simp: RaftManager.RemoveTopic_def roles_def bind_call_Returns fun_eq_iff split: option.splits)

text \<open>
  The invariant: the topics are listed once each, the broker's own table has a role for exactly the topics, the Raft
  manager has clusters for some of them, and the roles agree.
\<close>

definition tables_ok :: "broker_server \<Rightarrow> bool" where
  "tables_ok bs \<longleftrightarrow> distinct (bs_topics bs) \<and> (\<forall>t r. roles (bs_rm bs) t = Some r \<longrightarrow> t \<in> set (bs_topics bs)) \<and>
     dom (bs_topicRoles bs) = set (bs_topics bs) \<and>
     (\<forall>t r. bs_topicRoles bs t = Some r \<longrightarrow> r = RaftManager.GetTopicRole t (bs_rm bs))"

lemma tables_ok_roles: "tables_ok bs \<Longrightarrow> roles rm = roles (bs_rm bs) \<Longrightarrow> tables_ok (bs\<lparr>bs_rm := rm\<rparr>)"
  by (simp add: tables_ok_def GetTopicRole_roles)

lemma tables_ok_other [simp]:
  "tables_ok (bs\<lparr>bs_wal := w\<rparr>) = tables_ok bs" "tables_ok (bs\<lparr>bs_fm := fm\<rparr>) = tables_ok bs"
  "tables_ok (bs\<lparr>bs_messageCounter := n\<rparr>) = tables_ok bs"
  by (simp_all add: tables_ok_def)

lemma tables_ok_note:
  "tables_ok bs \<Longrightarrow> tables_ok (bs\<lparr>bs_topics := List.insert t (bs_topics bs),
     bs_topicRoles := (bs_topicRoles bs)(t \<mapsto> RaftManager.GetTopicRole t (bs_rm bs))\<rparr>)"
  by (auto simp: tables_ok_def split: if_splits)

lemma tables_ok_process:
  assumes "tables_ok bs" and "processMessage stamp now clk q bs fs = Returns ((r, bs'), fs')"
  shows "tables_ok bs'"
proof -
  let ?bs1 = "bs\<lparr>bs_messageCounter := bs_messageCounter bs + 1, bs_topics := List.insert (mq_Topic q) (bs_topics bs),
    bs_topicRoles := (bs_topicRoles bs)(mq_Topic q \<mapsto> RaftManager.GetTopicRole (mq_Topic q) (bs_rm bs))\<rparr>"
  have "tables_ok (bs\<lparr>bs_messageCounter := bs_messageCounter bs + 1\<rparr>)" using assms(1) by simp
  from tables_ok_note [OF this, of "mq_Topic q"] have t: "tables_ok ?bs1" by simp
  have rm: "tables_ok (?bs1\<lparr>bs_wal := w, bs_rm := rm\<rparr>)"
    if "ProposeMessage now (mq_Topic q) i p (bs_rm bs) = (x, rm)" for w i p x rm
    by (rule tables_ok_roles) (use t roles_propose [OF that] in simp_all)
  show ?thesis
    using assms t rm
    by (auto simp: processMessage_def Let_def bind_call_Returns split: if_splits option.splits prod.splits)
qed

lemma tables_ok_Send: "tables_ok bs \<Longrightarrow> SendMessage rs bs fs = Returns ((resps, e, bs'), fs') \<Longrightarrow> tables_ok bs'"
proof (induction rs bs fs arbitrary: resps rule: SendMessage.induct)
  case (6 a rs bs fs)
  from 6(3) obtain r bs1 fs1 where p: "processMessage (ar_stamp a) (ar_now a) (ar_clk a) (ar_request a) bs fs = Returns ((r, bs1), fs1)"
    by (auto simp: bind_call_Returns)
  have "tables_ok bs1" by (rule tables_ok_process [OF 6(2) p])
  with 6(1,3) p show ?case by (auto simp: bind_call_Returns split: if_splits)
qed auto

lemma tables_ok_Set:
  assumes "tables_ok bs" and "SetTopicRole t role followers l bs = Returns (x, bs')"
  shows "tables_ok bs'"
proof -
  obtain rm where rm: "RaftManager.SetTopicRole t role followers l (bs_rm bs) = Returns rm"
    and bs': "bs' = bs\<lparr>bs_rm := rm, bs_topics := List.insert t (bs_topics bs), bs_topicRoles := (bs_topicRoles bs)(t \<mapsto> role)\<rparr>"
    using assms(2) by (auto simp: BrokerServer.SetTopicRole_def bind_call_Returns)
  show ?thesis
    using assms(1) roles_SetTopicRole [OF rm] by (auto simp: bs' tables_ok_def GetTopicRole_roles split: if_splits)
qed

lemma tables_ok_Remove:
  assumes "tables_ok bs" and "RemoveTopic stamp now t reason bs fs = Returns ((x, bs'), fs')"
  shows "tables_ok bs'"
proof -
  have removed: "tables_ok (bs\<lparr>bs_wal := w, bs_topics := removeAll t (bs_topics bs), bs_topicRoles := (bs_topicRoles bs)(t := None),
      bs_fm := fm, bs_rm := rm\<rparr>)" if "RaftManager.RemoveTopic t (bs_rm bs) = Returns rm" for w fm rm
    using assms(1) roles_RemoveTopic [OF that]
    by (auto simp: tables_ok_def GetTopicRole_roles distinct_removeAll split: if_splits)
  show ?thesis
    using assms removed by (auto simp: BrokerServer.RemoveTopic_def Let_def bind_call_Returns split: if_splits option.splits prod.splits)
qed

lemma tables_ok_exec: "tables_ok bs \<Longrightarrow> broker_exec ev (bs, fs) = Returns (bs', fs') \<Longrightarrow> tables_ok bs'"
proof (cases ev)
  case (BRaftRequest dial clk q)
  moreover assume "tables_ok bs" "broker_exec ev (bs, fs) = Returns (bs', fs')"
  ultimately show ?thesis
    using tables_ok_roles [OF _ roles_request [of dial clk q "bs_rm bs"]]
    by (auto simp: BrokerServer.HandleRaftRequest_def bind_call_Returns)
qed (auto simp: bind_call_Returns roles_node intro: tables_ok_Send tables_ok_Set tables_ok_Remove tables_ok_roles dest: roles_task)

text \<open>During a replay there are no clusters yet.\<close>

definition starting :: "broker_server \<Rightarrow> bool" where
  "starting bs \<longleftrightarrow> tables_ok bs \<and> rm_clusters (bs_rm bs) = Map.empty"

lemma starting_replay_entry: "starting (fst st) \<Longrightarrow> starting (fst (snd (replay_entry clk e st)))"
  by (cases st) (auto simp: starting_def tables_ok_def roles_def replay_entry_def distinct_removeAll split: prod.splits option.splits if_splits)

lemma starting_New: "NewBrokerServer stamp clk i a d fs = Returns (Inr bs, fs') \<Longrightarrow> starting bs"
proof -
  assume new: "NewBrokerServer stamp clk i a d fs = Returns (Inr bs, fs')"
  then obtain bs0 fs0 where "replayWAL clk bs0 fs0 = (bs, fs')" and bs0: "bs_topics bs0 = []" "bs_topicRoles bs0 = Map.empty"
    "bs_rm bs0 = SetFragmentManager (NewRaftManager i a)"
    by (auto simp: NewBrokerServer_def Let_def bind_call_Returns) (auto split: sum.splits prod.splits)
  then have "bs = fst (Replay (replay_entry clk) (bs_wal bs0) (bs0, fs0))" by (simp add: replayWAL_def)
  moreover have "starting (fst (bs0, fs0))"
    using bs0 by (simp add: starting_def tables_ok_def roles_def SetFragmentManager_def NewRaftManager_def)
  ultimately show "starting bs" using Replay_keeps [of starting "replay_entry clk", OF starting_replay_entry] by simp
qed

lemma broker_reach_tables: "broker_reach bs \<Longrightarrow> tables_ok bs"
  by (induction rule: broker_reach.induct) (auto simp: starting_def dest: starting_New intro: tables_ok_exec)

section \<open>Properties\<close>


lemma broker_exists: "\<exists>bs fs'. NewBrokerServer ''s'' (\<lambda>_. 0) ''b1'' '':1'' ''d'' empty_fs = Returns (Inr bs, fs')"
proof -
  obtain w fs1 where "NewWAL ''s'' (''d'' @ ''/wal'') (128 * 1024 * 1024) (2 * 1000000000) empty_fs = Returns (Inr w, fs1)"
    using createNewFile_has [of "tick empty_fs" "\<lparr>w_dir = ''d'' @ ''/wal'', w_currentFile = None, w_currentPath = [], w_mu = False,
      w_maxFileSize = 128 * 1024 * 1024, w_flushInterval = 2 * 1000000000, w_stopped = False\<rparr>" "''s''"]
    by (fastforce simp: NewWAL_def os_MkdirAll_def)
  then show ?thesis by (simp add: NewBrokerServer_def Let_def split: prod.splits)
qed


end
