(* ===== verification/Client.thy ===== *)
theory Client
  imports BrokerServer
begin

text \<open>
  The client library: the producer of \<^verbatim>\<open>client/producer.go\<close> with its sliding window, and the consumer of
  \<^verbatim>\<open>client/consumer.go\<close>. The connections are a record of operations on the state \<open>'w\<close> of the world. A call
  of \<^verbatim>\<open>SendMessage\<close> that calls itself again is a partial function: \<open>None\<close> is a call that never returns. The
  consume loop is a machine that makes one step for every pass of a \<^verbatim>\<open>select\<close> statement.
\<close>

section \<open>The sliding window\<close>

text \<open>The map \<^verbatim>\<open>window\<close> only ever holds \<^verbatim>\<open>true\<close>: it is the list of its keys.\<close>

record sliding_window =
  sw_size :: int
  sw_window :: "u64 list"

definition NewSlidingWindow :: "int \<Rightarrow> sliding_window" where
  "NewSlidingWindow n = \<lparr>sw_size = n, sw_window = []\<rparr>"

text \<open>\<^verbatim>\<open>WaitForSlot\<close> returns in a state in which its loop condition is false, and does not change the window.\<close>

definition slot_free :: "sliding_window \<Rightarrow> bool" where
  "slot_free sw \<longleftrightarrow> \<not> int (length (sw_window sw)) \<ge> sw_size sw"

definition Add :: "u64 \<Rightarrow> sliding_window \<Rightarrow> sliding_window" where
  "Add messageID sw = sw\<lparr>sw_window := List.insert messageID (sw_window sw)\<rparr>"

definition Remove :: "u64 \<Rightarrow> sliding_window \<Rightarrow> sliding_window" where
  "Remove messageID sw = sw\<lparr>sw_window := removeAll messageID (sw_window sw)\<rparr>"

section \<open>Connections\<close>

text \<open>
  \<open>cn_Dial\<close> creates a connection, \<open>cn_GetTopicLeader\<close> asks a sentinel (\<open>None\<close> is an error, \<open>Some None\<close> a response
  without a leader), the others are the calls on the stream of \<^verbatim>\<open>SendMessage\<close> to a broker.
\<close>

record 'w client_net =
  cn_Dial :: "string \<Rightarrow> 'w \<Rightarrow> bool \<times> 'w"
  cn_GetTopicLeader :: "string \<Rightarrow> string \<Rightarrow> nat \<Rightarrow> 'w \<Rightarrow> string option option \<times> 'w"
  cn_OpenSend :: "string \<Rightarrow> 'w \<Rightarrow> bool \<times> 'w"
  cn_Send :: "string \<Rightarrow> message_request \<Rightarrow> 'w \<Rightarrow> bool \<times> 'w"
  cn_Recv :: "string \<Rightarrow> 'w \<Rightarrow> message_response option \<times> 'w"
  cn_CloseSend :: "string \<Rightarrow> 'w \<Rightarrow> bool \<times> 'w"

datatype client_error =
  CSentinel | CLeaderCall | CNoLeader | CConnect | COpen | CSend | CRecv | CStatus

section \<open>The producer\<close>

record producer =
  pr_sentinelAddress :: string
  pr_brokerClients :: "string list"
  pr_messageCounter :: u64
  pr_windowSize :: int
  pr_window :: sliding_window
  pr_stopped :: bool
  pr_wg :: nat

definition NewProducer :: "string \<Rightarrow> int \<Rightarrow> producer" where
  "NewProducer sentinelAddress windowSize =
     \<lparr>pr_sentinelAddress = sentinelAddress, pr_brokerClients = [], pr_messageCounter = 0,
      pr_windowSize = windowSize, pr_window = NewSlidingWindow windowSize, pr_stopped = False, pr_wg = 0\<rparr>"

definition Connect :: "'w client_net \<Rightarrow> string \<Rightarrow> producer \<Rightarrow> 'w \<Rightarrow> bool \<times> producer \<times> 'w" where
  "Connect cn brokerAddress p w =
     (if brokerAddress \<in> set (pr_brokerClients p) then (True, p, w)
      else case cn_Dial cn brokerAddress w of
             (False, w1) \<Rightarrow> (False, p, w1)
           | (True, w1) \<Rightarrow> (True, p\<lparr>pr_brokerClients := brokerAddress # pr_brokerClients p\<rparr>, w1))"

definition getTopicLeader :: "'w client_net \<Rightarrow> string \<Rightarrow> string \<Rightarrow> nat \<Rightarrow> 'w \<Rightarrow> (client_error + string) \<times> 'w" where
  "getTopicLeader cn sentinelAddress topic replicaCount w =
     (case cn_Dial cn sentinelAddress w of
        (False, w1) \<Rightarrow> (Inl CSentinel, w1)
      | (True, w1) \<Rightarrow>
          (case cn_GetTopicLeader cn sentinelAddress topic replicaCount w1 of
             (None, w2) \<Rightarrow> (Inl CLeaderCall, w2)
           | (Some None, w2) \<Rightarrow> (Inl CNoLeader, w2)
           | (Some (Some address), w2) \<Rightarrow> (Inr address, w2)))"

text \<open>One exchange on a new stream: open it, send the request, receive the response, close it.\<close>

definition exchange :: "'w client_net \<Rightarrow> string \<Rightarrow> message_request \<Rightarrow> 'w \<Rightarrow> (client_error + message_response) \<times> 'w" where
  "exchange cn address req w =
     (case cn_OpenSend cn address w of
        (False, w1) \<Rightarrow> (Inl COpen, w1)
      | (True, w1) \<Rightarrow>
          (case cn_Send cn address req w1 of
             (False, w2) \<Rightarrow> (Inl CSend, w2)
           | (True, w2) \<Rightarrow>
               (case cn_Recv cn address w2 of
                  (None, w3) \<Rightarrow> (Inl CRecv, w3)
                | (Some resp, w3) \<Rightarrow> (Inr resp, snd (cn_CloseSend cn address w3)))))"

definition take_id :: "producer \<Rightarrow> u64 \<times> producer" where
  "take_id p = (pr_messageCounter p + 1, p\<lparr>pr_messageCounter := pr_messageCounter p + 1\<rparr>)"

definition in_window :: "(sliding_window \<Rightarrow> sliding_window) \<Rightarrow> producer \<Rightarrow> producer" where
  "in_window f p = p\<lparr>pr_window := f (pr_window p)\<rparr>"

definition forget_broker :: "string \<Rightarrow> producer \<Rightarrow> producer" where
  "forget_broker address p = p\<lparr>pr_brokerClients := removeAll address (pr_brokerClients p)\<rparr>"

text \<open>
  A call that waits for a slot while nobody else uses the producer never returns, as does one that is
  told to retry for ever.
\<close>

partial_function (option) SendMessage ::
  "'w client_net \<Rightarrow> string \<Rightarrow> bytes \<Rightarrow> producer \<Rightarrow> 'w \<Rightarrow> ((client_error + u64) \<times> producer \<times> 'w) option" where
  "SendMessage cn topic payload p w =
     (case getTopicLeader cn (pr_sentinelAddress p) topic 3 w of
        (Inl err, w1) \<Rightarrow> Some (Inl err, p, w1)
      | (Inr leaderAddress, w1) \<Rightarrow>
          (if leaderAddress = [] then Some (Inl CNoLeader, p, w1)
           else case Connect cn leaderAddress p w1 of
             (connected, p1, w2) \<Rightarrow>
               (if \<not> connected then Some (Inl CConnect, p1, w2)
                else case take_id p1 of (messageID, p2) \<Rightarrow>
                  if \<not> slot_free (pr_window p2) then None
                  else case exchange cn leaderAddress \<lparr>mq_Topic = topic, mq_Payload = payload, mq_MessageId = messageID\<rparr> w2 of
                    (Inl err, w3) \<Rightarrow> Some (Inl err, in_window (Remove messageID) (in_window (Add messageID) p2), w3)
                  | (Inr resp, w3) \<Rightarrow>
                      (if mr_Status resp = STATUS_RETRY then
                           SendMessage cn topic payload
                             (forget_broker leaderAddress (in_window (Remove messageID) (in_window (Add messageID) p2))) w3
                       else if mr_Status resp \<noteq> STATUS_SUCCESS then
                           Some (Inl CStatus, in_window (Remove messageID) (in_window (Add messageID) p2), w3)
                       else Some (Inr messageID, in_window (Remove messageID) (in_window (Add messageID) p2), w3)))))"

text \<open>
  \<^verbatim>\<open>SendMessageAsync\<close> counts a goroutine, which calls \<^verbatim>\<open>SendMessage\<close>, hands the result to the callback, if there is one, and
  is counted off; the two halves are two steps. \<^verbatim>\<open>Close\<close> waits for the goroutines, and panics the second time.
\<close>

definition SendMessageAsync :: "producer \<Rightarrow> producer" where
  "SendMessageAsync p = p\<lparr>pr_wg := Suc (pr_wg p)\<rparr>"

definition async_body ::
  "'w client_net \<Rightarrow> string \<Rightarrow> bytes \<Rightarrow> (client_error + u64 \<Rightarrow> 'w \<Rightarrow> 'w) option \<Rightarrow> producer \<Rightarrow> 'w \<Rightarrow> (producer \<times> 'w) option" where
  "async_body cn topic payload callback p w =
     (case SendMessage cn topic payload p w of
        None \<Rightarrow> None
      | Some (r, p1, w1) \<Rightarrow> Some (p1\<lparr>pr_wg := pr_wg p1 - 1\<rparr>, case callback of None \<Rightarrow> w1 | Some f \<Rightarrow> f r w1))"

definition producer_Close :: "producer \<Rightarrow> producer call" where
  "producer_Close p =
     (if pr_stopped p then Panics else if pr_wg p \<noteq> 0 then Blocks else Returns (p\<lparr>pr_stopped := True\<rparr>))"

section \<open>The consumer\<close>

text \<open>
  How the creation of a pull stream and a receive on it can fail. The first is told by its text: only the text
  of a removed topic makes the consumer look for another broker.
\<close>

datatype pull_error = PullTopicRemoved | PullOther
datatype recv_error = RecvEOF | RecvOther

record 'w pull_net =
  pn_PullMessage :: "string \<Rightarrow> pull_request \<Rightarrow> 'w \<Rightarrow> pull_error option \<times> 'w"
  pn_Recv :: "string \<Rightarrow> 'w \<Rightarrow> (recv_error + pulled_message) \<times> 'w"

record consumer =
  cs_sentinelAddress :: string
  cs_brokerClients :: "string list"
  cs_windowSize :: int
  cs_window :: sliding_window
  cs_stopped :: bool

definition NewConsumer :: "string \<Rightarrow> int \<Rightarrow> consumer" where
  "NewConsumer sentinelAddress windowSize =
     \<lparr>cs_sentinelAddress = sentinelAddress, cs_brokerClients = [], cs_windowSize = windowSize,
      cs_window = NewSlidingWindow windowSize, cs_stopped = False\<rparr>"

definition consumer_Connect :: "'w client_net \<Rightarrow> string \<Rightarrow> consumer \<Rightarrow> 'w \<Rightarrow> bool \<times> consumer \<times> 'w" where
  "consumer_Connect cn brokerAddress c w =
     (if brokerAddress \<in> set (cs_brokerClients c) then (True, c, w)
      else case cn_Dial cn brokerAddress w of
             (False, w1) \<Rightarrow> (False, c, w1)
           | (True, w1) \<Rightarrow> (True, c\<lparr>cs_brokerClients := brokerAddress # cs_brokerClients c\<rparr>, w1))"

text \<open>
  The goroutine of \<^verbatim>\<open>consumeFromBroker\<close>: before a pull (the outer \<^verbatim>\<open>select\<close>), waiting for a slot, or on a stream (the inner \<^verbatim>\<open>select\<close>). The
  messages handed to the handler and the number of pulls are kept for the statements.
\<close>

datatype consume_phase = Pulling | Waiting | Streaming

record consume_loop =
  lo_topic :: string
  lo_broker :: string
  lo_offset :: u64
  lo_phase :: consume_phase
  lo_pulls :: nat
  lo_handled :: "pulled_message list"

definition start_loop :: "string \<Rightarrow> u64 \<Rightarrow> string \<Rightarrow> consume_loop" where
  "start_loop topic offset brokerAddress =
     \<lparr>lo_topic = topic, lo_broker = brokerAddress, lo_offset = offset, lo_phase = Pulling, lo_pulls = 0, lo_handled = []\<rparr>"

text \<open>\<^verbatim>\<open>StartConsuming\<close>, and \<^verbatim>\<open>restartConsuming\<close>, which has the same body: the new goroutine, or an error.\<close>

definition consumer_getTopicLeader :: "'w client_net \<Rightarrow> string \<Rightarrow> nat \<Rightarrow> consumer \<Rightarrow> 'w \<Rightarrow> (client_error + string) \<times> 'w" where
  "consumer_getTopicLeader cn topic replicaCount c w =
     (case cn_Dial cn (cs_sentinelAddress c) w of
        (False, w1) \<Rightarrow> (Inl CSentinel, w1)
      | (True, w1) \<Rightarrow>
          (case cn_GetTopicLeader cn (cs_sentinelAddress c) topic replicaCount w1 of
             (None, w2) \<Rightarrow> (Inl CLeaderCall, w2)
           | (Some None, w2) \<Rightarrow> (Inl CNoLeader, w2)
           | (Some (Some address), w2) \<Rightarrow> (Inr address, w2)))"

lemma consumer_getTopicLeader_eq [simp]:
  "consumer_getTopicLeader cn topic replicaCount c w = getTopicLeader cn (cs_sentinelAddress c) topic replicaCount w"
  by (simp add: consumer_getTopicLeader_def getTopicLeader_def)

definition StartConsuming ::
  "'w client_net \<Rightarrow> string \<Rightarrow> u64 \<Rightarrow> consumer \<Rightarrow> 'w \<Rightarrow> (client_error + consume_loop) \<times> consumer \<times> 'w" where
  "StartConsuming cn topic offset c w =
     (case consumer_getTopicLeader cn topic 3 c w of
        (Inl err, w1) \<Rightarrow> (Inl err, c, w1)
      | (Inr leaderAddress, w1) \<Rightarrow>
          (if leaderAddress = [] then (Inl CNoLeader, c, w1)
           else case consumer_Connect cn leaderAddress c w1 of
             (False, c1, w2) \<Rightarrow> (Inl CConnect, c1, w2)
           | (True, c1, w2) \<Rightarrow> (Inr (start_loop topic offset leaderAddress), c1, w2)))"

definition restartConsuming ::
  "'w client_net \<Rightarrow> string \<Rightarrow> u64 \<Rightarrow> consumer \<Rightarrow> 'w \<Rightarrow> (client_error + consume_loop) \<times> consumer \<times> 'w" where
  "restartConsuming cn topic offset c w = StartConsuming cn topic offset c w"

definition pull_of :: "consume_loop \<Rightarrow> pull_request" where
  "pull_of lp = \<lparr>pq_Topic = lo_topic lp, pq_Offset = lo_offset lp, pq_BatchSize = 10\<rparr>"

text \<open>
  One step of the goroutine. A \<^verbatim>\<open>select\<close> first looks whether the stop channel is closed. The result has the goroutines that go on:
  none if this one returns, itself, or the one that a restart has started. A \<^verbatim>\<open>break\<close> inside a \<^verbatim>\<open>select\<close>
  leaves the \<^verbatim>\<open>select\<close>, and the loop around it goes on.
\<close>

definition consumeFromBroker ::
  "'w client_net \<Rightarrow> 'w pull_net \<Rightarrow> consume_loop \<Rightarrow> consumer \<Rightarrow> 'w \<Rightarrow> consume_loop list \<times> consumer \<times> 'w" where
  "consumeFromBroker cn pn lp c w =
     (case lo_phase lp of
        Pulling \<Rightarrow> (if cs_stopped c then ([], c, w) else ([lp\<lparr>lo_phase := Waiting\<rparr>], c, w))
      | Waiting \<Rightarrow>
          (if \<not> slot_free (cs_window c) then ([lp], c, w)
           else case pn_PullMessage pn (lo_broker lp) (pull_of lp) w of
             (Some PullTopicRemoved, w1) \<Rightarrow>
               (case restartConsuming cn (lo_topic lp) (lo_offset lp)
                       (c\<lparr>cs_brokerClients := removeAll (lo_broker lp) (cs_brokerClients c)\<rparr>) w1 of
                  (Inl err, c1, w2) \<Rightarrow> ([], c1, w2)
                | (Inr lp1, c1, w2) \<Rightarrow> ([lp1], c1, w2))
           | (Some PullOther, w1) \<Rightarrow> ([lp\<lparr>lo_phase := Pulling\<rparr>], c, w1)
           | (None, w1) \<Rightarrow> ([lp\<lparr>lo_phase := Streaming, lo_pulls := Suc (lo_pulls lp)\<rparr>], c, w1))
      | Streaming \<Rightarrow>
          (if cs_stopped c then ([], c, w)
           else case pn_Recv pn (lo_broker lp) w of
             (Inl err, w1) \<Rightarrow> ([lp], c, w1)
           | (Inr message, w1) \<Rightarrow>
               ([lp\<lparr>lo_offset := pm_Offset message + 1, lo_handled := lo_handled lp @ [message]\<rparr>],
                c\<lparr>cs_window := Add (pm_MessageId message) (cs_window c)\<rparr>, w1)))"

text \<open>
  \<^verbatim>\<open>StopConsuming\<close> closes the stop channel, which panics the second time, and then waits until no goroutine of the
  consumer is left: it returns after the steps that end them.
\<close>

definition StopConsuming :: "consumer \<Rightarrow> consumer call" where
  "StopConsuming c = (if cs_stopped c then Panics else Returns (c\<lparr>cs_stopped := True\<rparr>))"

text \<open>Events: a pass of the \<open>i\<close>-th goroutine, the end of the handler of a message, and the stop.\<close>

datatype consume_event = CPass nat | CHandled u64 | CStop

type_synonym 'w consume_state = "consume_loop list \<times> consumer \<times> 'w"

fun consume_exec :: "'w client_net \<Rightarrow> 'w pull_net \<Rightarrow> consume_event \<Rightarrow> 'w consume_state \<Rightarrow> 'w consume_state call" where
  "consume_exec cn pn (CPass i) (lps, c, w) =
     (if i < length lps then
        (case consumeFromBroker cn pn (lps ! i) c w of
           (ls, c1, w1) \<Rightarrow> Returns (take i lps @ ls @ drop (Suc i) lps, c1, w1))
      else Returns (lps, c, w))"
| "consume_exec cn pn (CHandled messageID) (lps, c, w) = Returns (lps, c\<lparr>cs_window := Remove messageID (cs_window c)\<rparr>, w)"
| "consume_exec cn pn CStop (lps, c, w) = bind_call (StopConsuming c) (\<lambda>c1. Returns (lps, c1, w))"

fun consume_run :: "'w client_net \<Rightarrow> 'w pull_net \<Rightarrow> consume_event list \<Rightarrow> 'w consume_state \<Rightarrow> 'w consume_state call" where
  "consume_run cn pn [] st = Returns st"
| "consume_run cn pn (ev # evs) st = bind_call (consume_exec cn pn ev st) (consume_run cn pn evs)"

section \<open>What a producer's call does\<close>

lemma Remove_Add: "messageID \<notin> set (sw_window sw) \<Longrightarrow> Remove messageID (Add messageID sw) = sw"
  by (simp add: Remove_def Add_def)

lemma Connect_sel:
  "Connect cn a p w = (ok, p', w') \<Longrightarrow>
   pr_window p' = pr_window p \<and> pr_messageCounter p' = pr_messageCounter p \<and> pr_sentinelAddress p' = pr_sentinelAddress p"
  by (auto simp: Connect_def split: if_splits prod.splits bool.splits)

lemmas producer_step_defs = take_id_def in_window_def forget_broker_def

text \<open>
  What a call leaves behind, for an invariant \<open>good\<close> of the world, and what the last exchange of a successful call
  must have been.
\<close>

definition sent_ok ::
  "('w \<Rightarrow> bool) \<Rightarrow> 'w client_net \<Rightarrow> string \<Rightarrow> bytes \<Rightarrow> producer \<Rightarrow> (client_error + u64) \<times> producer \<times> 'w \<Rightarrow> bool" where
  "sent_ok good cn topic payload p res =
     (case res of (r, p', w') \<Rightarrow>
        sw_window (pr_window p') = [] \<and> sw_size (pr_window p') = sw_size (pr_window p) \<and>
        pr_sentinelAddress p' = pr_sentinelAddress p \<and> good w' \<and>
        (\<forall>i. r = Inr i \<longrightarrow> i = pr_messageCounter p' \<and>
          (\<exists>address w\<^sub>1 resp. good w\<^sub>1 \<and>
             exchange cn address \<lparr>mq_Topic = topic, mq_Payload = payload, mq_MessageId = i\<rparr> w\<^sub>1 = (Inr resp, w') \<and>
             mr_Status resp = STATUS_SUCCESS)))"

text \<open>
  The interface between a producer and its world: an invariant that dialling, asking the sentinel and an exchange
  with a broker keep.
\<close>

locale producer_world =
  fixes cn :: "'w client_net" and good :: "'w \<Rightarrow> bool"
  assumes dial_inv: "good w \<Longrightarrow> good (snd (cn_Dial cn a w))"
    and leader_inv: "good w \<Longrightarrow> good (snd (cn_GetTopicLeader cn a topic n w))"
    and exchange_inv: "good w \<Longrightarrow> good (snd (exchange cn a q w))"
begin

lemma getTopicLeader_inv: "good w \<Longrightarrow> getTopicLeader cn a topic n w = (r, w') \<Longrightarrow> good w'"
  using dial_inv [of w a] leader_inv [of "snd (cn_Dial cn a w)" a topic n]
  by (auto simp: getTopicLeader_def split: prod.splits bool.splits option.splits)

lemma Connect_inv: "good w \<Longrightarrow> Connect cn a p w = (ok, p', w') \<Longrightarrow> good w'"
  using dial_inv [of w a] by (auto simp: Connect_def split: prod.splits bool.splits if_splits)

lemma SendMessage_sent_ok:
  assumes "SendMessage cn topic payload p w = Some res" and "sw_window (pr_window p) = []" and "good w"
  shows "sent_ok good cn topic payload p res"
proof -
  let ?P = "\<lambda>c topic payload p w res. c = cn \<longrightarrow> sw_window (pr_window p) = [] \<longrightarrow> good w \<longrightarrow> sent_ok good c topic payload p res"
  have "?P cn topic payload p w res"
  proof (rule SendMessage.raw_induct [OF _ assms(1), where P = ?P], intro impI, goal_cases)
    case (1 f c topic payload p w res)
    note IH = 1(1) and run = 1(2) and empty = 1(4) and w = 1(5)
    have keep: "in_window (Remove i) (in_window (Add i) q) = q" if "sw_window (pr_window q) = []" for i q
      using that by (simp add: in_window_def Remove_Add)
    obtain g w1 where g: "getTopicLeader cn (pr_sentinelAddress p) topic 3 w = (g, w1)" by (metis prod.exhaust)
    note w1 = getTopicLeader_inv [OF w g]
    show ?case
    proof (cases g)
      case (Inl err)
      with run g empty w1 show ?thesis by (auto simp: sent_ok_def \<open>c = cn\<close>)
    next
      case (Inr leader)
      obtain ok p1 w2 where c: "Connect cn leader p w1 = (ok, p1, w2)" by (metis prod.exhaust)
      note sel = Connect_sel [OF c] and w2 = Connect_inv [OF w1 c]
      obtain i p2 where t: "take_id p1 = (i, p2)" by (cases "take_id p1")
      then have p2: "pr_window p2 = pr_window p" "pr_messageCounter p2 = i" "pr_sentinelAddress p2 = pr_sentinelAddress p"
        using sel by (auto simp: take_id_def)
      obtain x w3 where e: "exchange cn leader \<lparr>mq_Topic = topic, mq_Payload = payload, mq_MessageId = i\<rparr> w2 = (x, w3)"
        by (metis prod.exhaust)
      then have w3: "good w3" using exchange_inv [OF w2] by (metis snd_conv)
      have k: "in_window (Remove i) (in_window (Add i) p2) = p2" using keep p2(1) empty by simp
      have "sent_ok good cn topic payload p2 res" if "f cn topic payload (forget_broker leader p2) w3 = Some res"
        using IH [OF that] empty p2 w3 by (simp add: sent_ok_def forget_broker_def split: prod.splits)
      then have again: "sent_ok good cn topic payload p res" if "f cn topic payload (forget_broker leader p2) w3 = Some res"
        using that p2 by (auto simp: sent_ok_def split: prod.splits)
      show ?thesis
        using run empty p2 sel e again w1 w2 w3
        by (auto simp: \<open>c = cn\<close> g Inr c t k sent_ok_def split: if_splits sum.splits)
    qed
  qed
  with assms(2,3) show ?thesis by simp
qed

text \<open>A producer cannot succeed in a world in which no exchange does.\<close>

lemma SendMessage_no_success:
  assumes none: "\<And>a q w resp w'. good w \<Longrightarrow> exchange cn a q w = (Inr resp, w') \<Longrightarrow> mr_Status resp \<noteq> STATUS_SUCCESS"
    and "sw_window (pr_window p) = []" and "good w"
  shows "SendMessage cn topic payload p w \<noteq> Some (Inr i, p', w')"
  using SendMessage_sent_ok [OF _ assms(2,3), of topic payload "(Inr i, p', w')"] none
  by (auto simp: sent_ok_def)

end

interpretation any_world: producer_world cn "\<lambda>_. True" for cn
  by unfold_locales simp_all

section \<open>The consumer and a broker\<close>

text \<open>A read never gives more messages than its limit, whatever the files hold and whatever fails.\<close>

lemma read_loop_bound:
  "length messages \<le> cur - offset \<Longrightarrow> read_loop offset bound bs cur messages = (cur', messages') \<Longrightarrow>
   length messages' \<le> cur' - offset \<and> cur' \<le> max bound cur"
proof (induction offset bound bs cur messages arbitrary: cur' messages' rule: read_loop.induct)
  case (1 offset bound bs cur messages)
  show ?case
  proof (cases "bound \<le> cur \<or> read_entry bs = None")
    case True
    with "1.prems" show ?thesis by (auto simp: read_loop.simps [of _ _ _ cur] split: if_splits)
  next
    case False
    then obtain e r where e: "read_entry bs = Some (e, r)" by (cases "read_entry bs") auto
    let ?ms = "if offset \<le> cur then messages @ [e] else messages"
    have "length ?ms \<le> Suc cur - offset" using "1.prems"(1) by auto
    moreover have "read_loop offset bound r (Suc cur) ?ms = (cur', messages')"
      using "1.prems"(2) False e by (simp add: read_loop.simps [of _ _ _ cur])
    ultimately have "length messages' \<le> cur' - offset \<and> cur' \<le> max bound (Suc cur)"
      using "1.IH" [OF _ e] False by simp
    then show ?thesis using False by (auto simp: max_def split: if_splits)
  qed
qed

lemma read_fragments_bound:
  "length messages \<le> cur - offset \<Longrightarrow> cur \<le> max bound offset \<Longrightarrow>
   length (fst (read_fragments offset bound frs cur messages fs)) \<le> bound - offset"
proof (induction offset bound frs cur messages fs rule: read_fragments.induct)
  case (2 offset bound fr frs cur messages fs)
  show ?case
  proof (cases "bound \<le> cur")
    case True
    with "2.prems" show ?thesis by (auto simp: max_def split: if_splits)
  next
    case False
    obtain o1 fs1 where o: "os_Open (fr_Path fr) fs = (o1, fs1)" by (cases "os_Open (fr_Path fr) fs")
    show ?thesis
    proof (cases o1)
      case (Inl x)
      then show ?thesis using "2.IH"(1) [OF False o [symmetric] Inl] "2.prems" False o by simp
    next
      case (Inr bs)
      obtain c' m' where r: "read_loop offset bound (drop (headerSize fr) bs) cur messages = (c', m')"
        by (cases "read_loop offset bound (drop (headerSize fr) bs) cur messages")
      have "length m' \<le> c' - offset \<and> c' \<le> max bound cur" using read_loop_bound [OF "2.prems"(1) r] .
      moreover have "c' \<le> max bound offset" using calculation "2.prems"(2) by (auto simp: max_def split: if_splits)
      ultimately show ?thesis using "2.IH"(2) [OF False o [symmetric] Inr r [symmetric]] False o Inr r by simp
    qed
  qed
qed (auto simp: max_def split: if_splits)

lemma ReadMessages_bound: "0 \<le> limit \<Longrightarrow> length (fst (ReadMessages topic offset limit fm fs)) \<le> nat limit"
proof -
  assume "0 \<le> limit"
  have "u64_add (unat offset) (u64_of_int limit) \<le> unat offset + u64_of_int limit" by (simp add: u64_add_def)
  moreover have "u64_of_int limit \<le> nat limit"
    using \<open>0 \<le> limit\<close> by (simp add: u64_of_int_def nat_mod_distrib)
  ultimately have "u64_add (unat offset) (u64_of_int limit) - unat offset \<le> nat limit" by linarith
  then show ?thesis
    using read_fragments_bound [of "[]" 0 "unat offset" "u64_add (unat offset) (u64_of_int limit)" "frags fm topic" fs]
    by (auto simp: ReadMessages_def)
qed

lemma send_pulled_length: "length (fst (send_pulled ok i topic off ms)) \<le> length ms"
  by (induction ok i topic off ms rule: send_pulled.induct) (auto split: prod.splits send_outcome.splits)

lemma PullMessage_bound: "length (fst (fst (PullMessage ok q bs fs))) \<le> unat (pq_BatchSize q)"
proof -
  obtain ms fs1 where r: "ReadMessages (pq_Topic q) (pq_Offset q) (uint (pq_BatchSize q)) (bs_fm bs) fs = (ms, fs1)"
    by (cases "ReadMessages (pq_Topic q) (pq_Offset q) (uint (pq_BatchSize q)) (bs_fm bs) fs")
  have "length ms \<le> unat (pq_BatchSize q)"
    using ReadMessages_bound [of "uint (pq_BatchSize q)" "pq_Topic q" "pq_Offset q" "bs_fm bs" fs] r by simp
  then show ?thesis
    using send_pulled_length [of ok 0 "pq_Topic q" "pq_Offset q" ms] r
    by (auto simp: PullMessage_def Let_def split: prod.splits bool.splits)
qed

text \<open>
  A consumer's world with one broker: the broker, its files, and what is left of the current stream. The stream
  of a pull is what the broker sends for it, then its end or error. \<open>ok\<close> says how long each stream lives.
\<close>

type_synonym pull_world = "broker_server \<times> fsys \<times> pulled_message list"

definition broker_pulls :: "(nat \<Rightarrow> send_outcome) \<Rightarrow> pull_world pull_net" where
  "broker_pulls ok = \<lparr>
     pn_PullMessage = (\<lambda>a q (bs, fs, rest).
        case PullMessage ok q bs fs of ((sent, err), fs1) \<Rightarrow> (None, bs, fs1, sent)),
     pn_Recv = (\<lambda>a (bs, fs, rest). case rest of [] \<Rightarrow> (Inl RecvEOF, bs, fs, []) | m # ms \<Rightarrow> (Inr m, bs, fs, ms))\<rparr>"

text \<open>What a goroutine can have handled: at most the stream of its only pull. After a stop it may be gone.\<close>

definition one_batch :: "pull_world consume_state \<Rightarrow> bool" where
  "one_batch st = (case st of (lps, c, bs, fs, rest) \<Rightarrow>
     lps = [] \<or> (\<exists>lp. lps = [lp] \<and>
       (case lo_phase lp of
          Streaming \<Rightarrow> lo_pulls lp = 1 \<and> length (lo_handled lp) + length rest \<le> 10
        | _ \<Rightarrow> lo_pulls lp = 0 \<and> lo_handled lp = [])))"

lemma one_batch_pass:
  assumes "one_batch ([lp], c, bs, fs, rest)" and "consumeFromBroker cn (broker_pulls ok) lp c (bs, fs, rest) = (ls, c', w')"
  shows "one_batch (ls, c', w')"
proof (cases "lo_phase lp")
  case Pulling
  with assms show ?thesis by (auto simp: one_batch_def consumeFromBroker_def split: if_splits)
next
  case Streaming
  with assms show ?thesis
    by (cases rest) (auto simp: one_batch_def consumeFromBroker_def broker_pulls_def split: if_splits)
next
  case Waiting
  obtain sent err fs1 where p: "PullMessage ok (pull_of lp) bs fs = ((sent, err), fs1)" by (metis prod.exhaust)
  have "length sent \<le> 10" using PullMessage_bound [of ok "pull_of lp" bs fs] p by (simp add: pull_of_def)
  with Waiting assms p show ?thesis
    by (auto simp: one_batch_def consumeFromBroker_def broker_pulls_def split: if_splits)
qed

lemma one_batch_exec:
  assumes "one_batch st" and "consume_exec cn (broker_pulls ok) ev st = Returns st'"
  shows "one_batch st'"
proof -
  obtain lps c bs fs rest where st: "st = (lps, c, bs, fs, rest)" by (cases st)
  show ?thesis
  proof (cases ev)
    case (CPass i)
    show ?thesis
    proof (cases "i < length lps")
      case True
      with assms(1) st obtain lp where lp: "lps = [lp]" "i = 0" by (auto simp: one_batch_def)
      obtain ls c1 w1 where "consumeFromBroker cn (broker_pulls ok) lp c (bs, fs, rest) = (ls, c1, w1)" by (metis prod.exhaust)
      with one_batch_pass [OF _ this] assms st lp CPass show ?thesis by simp
    qed (use assms st CPass in simp)
  qed (use assms st in \<open>auto simp: one_batch_def bind_call_Returns\<close>)
qed

lemma one_batch_run: "one_batch st \<Longrightarrow> consume_run cn (broker_pulls ok) evs st = Returns st' \<Longrightarrow> one_batch st'"
proof (induction evs arbitrary: st)
  case (Cons ev evs)
  then obtain st1 where "consume_exec cn (broker_pulls ok) ev st = Returns st1"
    and "consume_run cn (broker_pulls ok) evs st1 = Returns st'" unfolding consume_run.simps bind_call_Returns by blast
  with Cons.IH one_batch_exec [OF Cons.prems(1)] show ?case by blast
qed simp

section \<open>The producer and a broker\<close>

text \<open>
  A producer's world with one broker, which is also the leader the sentinel names: the broker, its files, the request
  that waits in the stream, and the number of calls so far, which the readings of the clock depend on. \<open>up k\<close> says
  whether the connection holds for the \<open>k\<close>-th call. A handler that blocks or panics gives no response.
\<close>

type_synonym send_world = "broker_server \<times> fsys \<times> message_request option \<times> nat"

definition broker_call ::
  "(nat \<Rightarrow> string) \<Rightarrow> (nat \<Rightarrow> time) \<Rightarrow> (nat \<Rightarrow> nat \<Rightarrow> time) \<Rightarrow> message_request \<Rightarrow> broker_server \<Rightarrow> fsys \<Rightarrow> nat \<Rightarrow>
   message_response option \<times> send_world" where
  "broker_call stamp now clk q bs fs k =
     (case BrokerServer.SendMessage
             [Arrives \<lparr>ar_request = q, ar_stamp = stamp k, ar_now = now k, ar_clk = clk k, ar_sent = True\<rparr>] bs fs of
        Returns ((resp # _, _, bs1), fs1) \<Rightarrow> (Some resp, bs1, fs1, None, Suc k)
      | _ \<Rightarrow> (None, bs, fs, None, Suc k))"

definition broker_sends ::
  "string \<Rightarrow> (nat \<Rightarrow> bool) \<Rightarrow> (nat \<Rightarrow> string) \<Rightarrow> (nat \<Rightarrow> time) \<Rightarrow> (nat \<Rightarrow> nat \<Rightarrow> time) \<Rightarrow> send_world client_net" where
  "broker_sends address up stamp now clk = \<lparr>
     cn_Dial = (\<lambda>a w. (True, w)),
     cn_GetTopicLeader = (\<lambda>s t n w. (Some (Some address), w)),
     cn_OpenSend = (\<lambda>a w. (True, w)),
     cn_Send = (\<lambda>a q (bs, fs, _, k). (up k, bs, fs, Some q, Suc k)),
     cn_Recv = (\<lambda>a (bs, fs, pending, k). case pending of
         None \<Rightarrow> (None, bs, fs, None, Suc k)
       | Some q \<Rightarrow> if up k then broker_call stamp now clk q bs fs k else (None, bs, fs, None, Suc k)),
     cn_CloseSend = (\<lambda>a w. (True, w))\<rparr>"

definition quiet_world :: "send_world \<Rightarrow> bool" where
  "quiet_world w = manager_quiet (bs_rm (fst w))"

lemma processMessage_quiet:
  assumes "manager_quiet (bs_rm bs)" and "processMessage stamp now clk q bs fs = Returns ((r, bs'), fs')"
  shows "bs_rm bs' = bs_rm bs \<and> (\<forall>resp. r = Inr resp \<longrightarrow> mr_Status resp = STATUS_RETRY)"
  using assms(2) ProposeMessage_quiet [OF assms(1), of now "mq_Topic q" "bs_messageCounter bs + 1" "mq_Payload q"]
  by (auto simp: processMessage_def retry_def Let_def bind_call_Returns split: if_splits option.splits prod.splits)

lemma broker_call_quiet:
  assumes "manager_quiet (bs_rm bs)" and "broker_call stamp now clk q bs fs k = (r, w')"
  shows "quiet_world w' \<and> (\<forall>resp. r = Some resp \<longrightarrow> mr_Status resp \<noteq> STATUS_SUCCESS)"
proof (cases "processMessage (stamp k) (now k) (clk k) q bs fs")
  case (Returns x)
  obtain r1 bs1 fs1 where x: "x = ((r1, bs1), fs1)" by (metis prod.exhaust)
  from processMessage_quiet [OF assms(1) Returns [unfolded x]] assms Returns x show ?thesis
    by (cases r1) (auto simp: broker_call_def quiet_world_def answer_def)
qed (use assms in \<open>auto simp: broker_call_def quiet_world_def\<close>)

lemma broker_exchange_quiet:
  assumes "quiet_world w" and "exchange (broker_sends address up stamp now clk) a q w = (r, w')"
  shows "quiet_world w' \<and> (\<forall>resp. r = Inr resp \<longrightarrow> mr_Status resp \<noteq> STATUS_SUCCESS)"
proof -
  obtain bs fs pending k where w: "w = (bs, fs, pending, k)" by (cases w)
  obtain r1 w1 where c: "broker_call stamp now clk q bs fs (Suc k) = (r1, w1)" by (metis prod.exhaust)
  have "quiet_world w1 \<and> (\<forall>resp. r1 = Some resp \<longrightarrow> mr_Status resp \<noteq> STATUS_SUCCESS)"
    by (rule broker_call_quiet [OF _ c]) (use assms(1) w in \<open>simp add: quiet_world_def\<close>)
  with assms w c show ?thesis
    by (cases "up k"; cases "up (Suc k)"; cases r1) (auto simp: exchange_def broker_sends_def quiet_world_def)
qed

interpretation quiet_broker: producer_world "broker_sends address up stamp now clk" quiet_world
  for address up stamp now clk
proof unfold_locales
  fix w a q assume "quiet_world w"
  then show "quiet_world (snd (exchange (broker_sends address up stamp now clk) a q w))"
    using broker_exchange_quiet [of w address up stamp now clk a q] by (metis prod.collapse)
qed (simp_all add: broker_sends_def)

section \<open>Concurrent senders\<close>

text \<open>
  The calls of several goroutines on one window. A state has the window and the number of goroutines that
  have come back from \<^verbatim>\<open>WaitForSlot\<close> and not yet called \<^verbatim>\<open>Add\<close>, which is another critical section.
\<close>

inductive window_step :: "sliding_window \<times> nat \<Rightarrow> sliding_window \<times> nat \<Rightarrow> bool" where
  wait: "slot_free sw \<Longrightarrow> window_step (sw, n) (sw, Suc n)"
| add: "messageID \<notin> set (sw_window sw) \<Longrightarrow> window_step (sw, Suc n) (Add messageID sw, n)"
| remove: "window_step (sw, n) (Remove messageID sw, n)"

inductive_simps window_step_simps: "window_step (sw, n) st"

lemma window_waits: "slot_free sw \<Longrightarrow> window_step\<^sup>*\<^sup>* (sw, 0) (sw, k)"
  by (induction k) (auto intro: rtranclp.rtrancl_into_rtrancl window_step.wait)

definition first_ids :: "int \<Rightarrow> nat \<Rightarrow> sliding_window" where
  "first_ids n k = \<lparr>sw_size = n, sw_window = rev (map word_of_nat [0..<k])\<rparr>"

lemma new_id_fresh: "j < 2 ^ 64 \<Longrightarrow> (word_of_nat j :: u64) \<notin> word_of_nat ` {0..<j}"
proof
  assume j: "j < 2 ^ 64" and "(word_of_nat j :: u64) \<in> word_of_nat ` {0..<j}"
  then obtain i where i: "i < j" "(word_of_nat j :: u64) = word_of_nat i" by auto
  then have "unat (word_of_nat j :: u64) = unat (word_of_nat i :: u64)" by simp
  with i(1) j show False by (simp add: unat_of_nat)
qed

lemma window_adds: "k \<le> 2 ^ 64 \<Longrightarrow> window_step\<^sup>*\<^sup>* (NewSlidingWindow n, k + m) (first_ids n k, m)"
proof (induction k arbitrary: m)
  case 0
  then show ?case by (simp add: NewSlidingWindow_def first_ids_def)
next
  case (Suc k)
  have fresh: "word_of_nat k \<notin> set (sw_window (first_ids n k))"
    using Suc.prems new_id_fresh [of k] by (simp add: first_ids_def)
  moreover have "Add (word_of_nat k) (first_ids n k) = first_ids n (Suc k)"
    using fresh by (simp add: Add_def first_ids_def List.insert_def)
  ultimately have "window_step (first_ids n k, Suc m) (first_ids n (Suc k), m)"
    using window_step.add [OF fresh, of m] by simp
  with Suc.IH [of "Suc m"] Suc.prems show ?case by simp
qed

section \<open>Properties\<close>

text \<open>
  C13: A call of \<^verbatim>\<open>SendMessage\<close> that returns leaves the sliding window as it found it, empty, whether it
  succeeds or fails and however often it was told to retry. If it returns an identity, that is the identity of the
  last attempt, and the last thing that happened was an exchange in which a broker accepted this topic and payload
  under this identity.
\<close>

theorem SendMessage_result:
  assumes "SendMessage cn topic payload p w = Some (r, p', w')" and "sw_window (pr_window p) = []"
  shows "sw_window (pr_window p') = [] \<and>
    (\<forall>i. r = Inr i \<longrightarrow> i = pr_messageCounter p' \<and>
      (\<exists>address w\<^sub>1 resp. exchange cn address \<lparr>mq_Topic = topic, mq_Payload = payload, mq_MessageId = i\<rparr> w\<^sub>1 = (Inr resp, w') \<and>
         mr_Status resp = STATUS_SUCCESS))"
  using any_world.SendMessage_sent_ok [OF assms] by (simp add: sent_ok_def)

text \<open>A world that answers \<^verbatim>\<open>RETRY\<close> as often as its state says, and then accepts.\<close>

definition retry_net :: "nat client_net" where
  "retry_net = \<lparr>cn_Dial = (\<lambda>a w. (True, w)), cn_GetTopicLeader = (\<lambda>s t n w. (Some (Some ''h:1''), w)),
     cn_OpenSend = (\<lambda>a w. (True, w)), cn_Send = (\<lambda>a q w. (True, w)),
     cn_Recv = (\<lambda>a w. (Some \<lparr>mr_MessageId = 0, mr_Status = (if w = 0 then STATUS_SUCCESS else STATUS_RETRY)\<rparr>, w - 1)),
     cn_CloseSend = (\<lambda>a w. (True, w))\<rparr>"

lemmas retry_run = retry_net_def getTopicLeader_def Connect_def exchange_def take_id_def in_window_def forget_broker_def
  NewProducer_def NewSlidingWindow_def slot_free_def Add_def Remove_def

theorem SendMessage_result_witness:
  "\<exists>p'. SendMessage retry_net ''t'' [1] (NewProducer ''s'' 1) 1 = Some (Inr 2, p', 0) \<and>
     sw_window (pr_window p') = [] \<and> pr_messageCounter p' = 2"
proof -
  have "\<exists>p'. SendMessage retry_net ''t'' [1] (NewProducer ''s'' 1) 1 = Some (Inr 2, p', 0)"
    by (subst SendMessage.simps, simp add: retry_run) (subst SendMessage.simps, simp add: retry_run)
  then obtain p' where p': "SendMessage retry_net ''t'' [1] (NewProducer ''s'' 1) 1 = Some (Inr 2, p', 0)" by blast
  have "sw_window (pr_window (NewProducer ''s'' 1)) = []" by (simp add: NewProducer_def NewSlidingWindow_def)
  from SendMessage_result [OF p' this] p' show ?thesis by auto
qed

text \<open>
  C38: A producer never gets a message accepted. In a system that talks through the Raft managers no node
  is ever a leader; with a broker of such a system no call of \<^verbatim>\<open>SendMessage\<close> of the client returns an identity, for
  any topic, any state of the broker and any behaviour of its files, clock and connection: a call that
  returns, returns an error.
\<close>

theorem producer_never_succeeds:
  assumes "manager_quiet (bs_rm bs)" and "sw_window (pr_window p) = []"
  shows "SendMessage (broker_sends address up stamp now clk) topic payload p (bs, fs, pending, k) \<noteq> Some (Inr i, p', w')"
  by (rule quiet_broker.SendMessage_no_success [OF _ assms(2)])
    (use broker_exchange_quiet assms(1) in \<open>auto simp: quiet_world_def\<close>)

theorem producer_never_succeeds_witness:
  "\<forall>i p' w'. SendMessage (broker_sends ''h1'' (\<lambda>k. k < 5) (\<lambda>_. ''s'') (\<lambda>_. 0) (\<lambda>_ _. 0)) ''orders'' [1] (NewProducer ''s:1'' 4)
     (sample_broker, empty_fs, None, 0) \<noteq> Some (Inr i, p', w')"
proof (intro allI producer_never_succeeds)
  show "manager_quiet (bs_rm sample_broker)"
    by (simp add: sample_broker_def manager_quiet_def SetFragmentManager_def NewRaftManager_def)
  show "sw_window (pr_window (NewProducer ''s:1'' 4)) = []" by (simp add: NewProducer_def NewSlidingWindow_def)
qed

text \<open>
  The size does not bound the window. Waiting for a slot and taking it are two critical sections, so for every
  positive size and every number of concurrent senders there is a run after which the window holds the messages of
  all of them.
\<close>

theorem window_not_bounded:
  assumes "0 < n" and "k \<le> 2 ^ 64"
  shows "\<exists>sw. window_step\<^sup>*\<^sup>* (NewSlidingWindow n, 0) (sw, 0) \<and> sw_size sw = n \<and> length (sw_window sw) = k"
proof (intro exI conjI)
  have "slot_free (NewSlidingWindow n)" using assms(1) by (simp add: slot_free_def NewSlidingWindow_def)
  then have "window_step\<^sup>*\<^sup>* (NewSlidingWindow n, 0) (NewSlidingWindow n, k)" by (rule window_waits)
  also have "window_step\<^sup>*\<^sup>* (NewSlidingWindow n, k) (first_ids n k, 0)"
    using window_adds [OF assms(2), of n 0] by simp
  finally show "window_step\<^sup>*\<^sup>* (NewSlidingWindow n, 0) (first_ids n k, 0)" .
  show "sw_size (first_ids n k) = n" "length (sw_window (first_ids n k)) = k" by (simp_all add: first_ids_def)
qed

theorem window_not_bounded_witness:
  "\<exists>sw. window_step\<^sup>*\<^sup>* (NewSlidingWindow 1, 0) (sw, 0) \<and> sw_size sw = 1 \<and> length (sw_window sw) = 5"
  by (rule window_not_bounded) simp_all

text \<open>
  A consumer gets one batch. In every run, with any number of passes, ends of handlers and a stop, a consumer
  that reads from a broker asks it once and hands at most ten messages to its handler: at the end of the stream it
  goes on receiving from the same stream.
\<close>

theorem consumer_one_batch:
  assumes "consume_run cn (broker_pulls ok) evs ([start_loop topic offset address], c, bs, fs, []) = Returns (lps, c', w')"
  shows "length lps \<le> 1 \<and> list_all (\<lambda>lp. lo_pulls lp \<le> 1 \<and> length (lo_handled lp) \<le> 10) lps"
proof -
  have "one_batch ([start_loop topic offset address], c, bs, fs, [])"
    by (simp add: one_batch_def start_loop_def)
  from one_batch_run [OF this assms] have "one_batch (lps, c', w')" .
  moreover obtain bs' fs' rest where "w' = (bs', fs', rest)" by (cases w')
  ultimately consider "lps = []" | lp where "lps = [lp]" "case lo_phase lp of
      Streaming \<Rightarrow> lo_pulls lp = 1 \<and> length (lo_handled lp) + length rest \<le> 10
    | _ \<Rightarrow> lo_pulls lp = 0 \<and> lo_handled lp = []"
    by (simp only: one_batch_def prod.case) blast
  then show ?thesis
  proof cases
    case (2 lp)
    then show ?thesis by (cases "lo_phase lp") simp_all
  qed simp
qed

definition still_net :: "pull_world client_net" where
  "still_net = \<lparr>cn_Dial = (\<lambda>a w. (True, w)), cn_GetTopicLeader = (\<lambda>s t n w. (Some (Some ''h:1''), w)),
     cn_OpenSend = (\<lambda>a w. (True, w)), cn_Send = (\<lambda>a q w. (True, w)), cn_Recv = (\<lambda>a w. (None, w)),
     cn_CloseSend = (\<lambda>a w. (True, w))\<rparr>"

theorem consumer_one_batch_witness:
  "\<exists>lps c' w'. consume_run still_net (broker_pulls (\<lambda>_. Sent)) [CPass 0, CPass 0, CPass 0]
     ([start_loop ''t'' 0 ''h:1''], NewConsumer ''s'' 1, sample_broker, empty_fs, []) = Returns (lps, c', w') \<and>
     length lps \<le> 1 \<and> list_all (\<lambda>lp. lo_pulls lp \<le> 1 \<and> length (lo_handled lp) \<le> 10) lps"
proof -
  have "PullMessage (\<lambda>_. Sent) (pull_of (start_loop ''t'' 0 ''h:1'')) sample_broker empty_fs = (([], Some BTopicRemoved), empty_fs)"
    by (simp add: PullMessage_def pull_of_def start_loop_def sample_broker_def)
  then have "\<exists>lps c' w'. consume_run still_net (broker_pulls (\<lambda>_. Sent)) [CPass 0, CPass 0, CPass 0]
     ([start_loop ''t'' 0 ''h:1''], NewConsumer ''s'' 1, sample_broker, empty_fs, []) = Returns (lps, c', w')"
    by (simp add: consumeFromBroker_def broker_pulls_def start_loop_def pull_of_def NewConsumer_def NewSlidingWindow_def slot_free_def)
  then obtain lps c' w' where r: "consume_run still_net (broker_pulls (\<lambda>_. Sent)) [CPass 0, CPass 0, CPass 0]
     ([start_loop ''t'' 0 ''h:1''], NewConsumer ''s'' 1, sample_broker, empty_fs, []) = Returns (lps, c', w')" by blast
  from consumer_one_batch [OF r] r show ?thesis by blast
qed

end
