(* ===== verification/BrokerCore.thy ===== *)
theory BrokerCore
  imports FileSys "HOL-Library.Multiset"
begin

text \<open>
  The in-memory broker of \<^verbatim>\<open>broker/core/core.go\<close> with the message log of \<^verbatim>\<open>broker/core/persistence.go\<close>, and the
  token bucket of \<^verbatim>\<open>broker/common/utils/tokenbucket.go\<close>. Directories matter here: a disk is a file system with the
  directories it has. \<^verbatim>\<open>bufio.Writer\<close> is a buffer of 4096 bytes before a file; a Go channel is its buffer with the
  senders that wait at it.
\<close>

section \<open>Disks and buffered writers\<close>

record disk =
  dk_dirs :: "string list"
  dk_fs :: fsys

definition disk_MkdirAll :: "string \<Rightarrow> disk \<Rightarrow> io_error option \<times> disk" where
  "disk_MkdirAll p d =
     (case os_MkdirAll p (dk_fs d) of
        (Some e, fs1) \<Rightarrow> (Some e, d\<lparr>dk_fs := fs1\<rparr>)
      | (None, fs1) \<Rightarrow> (None, d\<lparr>dk_dirs := List.insert p (dk_dirs d), dk_fs := fs1\<rparr>))"

definition disk_Create :: "string \<Rightarrow> disk \<Rightarrow> (io_error + os_file) \<times> disk" where
  "disk_Create p d =
     (if filepath_Dir p \<notin> set (dk_dirs d) then (Inl ENOENT, d\<lparr>dk_fs := tick (dk_fs d)\<rparr>)
      else case os_Create p (dk_fs d) of (r, fs1) \<Rightarrow> (r, d\<lparr>dk_fs := fs1\<rparr>))"

text \<open>
  A buffered writer. Its error is sticky: from the first failed write to a \<^verbatim>\<open>Reset\<close> every call returns it, so
  what is left in the buffer then cannot be seen.
\<close>

record bufio =
  bw_buf :: bytes
  bw_err :: "io_error option"
  bw_file :: os_file

definition bufio_size :: nat where
  "bufio_size = 4096"

definition bufio_NewWriter :: "os_file \<Rightarrow> bufio" where
  "bufio_NewWriter f = \<lparr>bw_buf = [], bw_err = None, bw_file = f\<rparr>"

definition bufio_direct :: "bytes \<Rightarrow> bufio \<Rightarrow> fsys \<Rightarrow> bufio \<times> fsys" where
  "bufio_direct p b fs = (case file_Write (bw_file b) p fs of ((f, e), fs1) \<Rightarrow> (b\<lparr>bw_file := f, bw_err := e\<rparr>, fs1))"

definition bufio_Flush :: "bufio \<Rightarrow> fsys \<Rightarrow> (io_error option \<times> bufio) \<times> fsys" where
  "bufio_Flush b fs =
     (if bw_err b \<noteq> None then ((bw_err b, b), fs)
      else if bw_buf b = [] then ((None, b), fs)
      else case bufio_direct (bw_buf b) b fs of
             (b1, fs1) \<Rightarrow> ((bw_err b1, if bw_err b1 = None then b1\<lparr>bw_buf := []\<rparr> else b1), fs1))"

text \<open>
  \<^verbatim>\<open>Write\<close>: data that does not fit fills the buffer, which is flushed; what then still does not fit is written directly.
\<close>

definition bufio_Write :: "bytes \<Rightarrow> bufio \<Rightarrow> fsys \<Rightarrow> (io_error option \<times> bufio) \<times> fsys" where
  "bufio_Write p b fs =
     (let free = bufio_size - length (bw_buf b);
          (p1, b1, fs1) =
            (if length p \<le> free \<or> bw_err b \<noteq> None \<or> bw_buf b = [] then (p, b, fs)
             else case bufio_Flush (b\<lparr>bw_buf := bw_buf b @ take free p\<rparr>) fs of ((_, b'), fs') \<Rightarrow> (drop free p, b', fs'));
          (p2, b2, fs2) =
            (if length p1 \<le> bufio_size - length (bw_buf b1) \<or> bw_err b1 \<noteq> None then (p1, b1, fs1)
             else case bufio_direct p1 b1 fs1 of (b', fs') \<Rightarrow> ([], b', fs'))
      in if bw_err b2 \<noteq> None then ((bw_err b2, b2), fs2)
         else ((None, b2\<lparr>bw_buf := bw_buf b2 @ p2\<rparr>), fs2))"

section \<open>The message log\<close>

definition LogPath :: string where
  "LogPath = ''log''"

definition MaxLogFileSize :: nat where
  "MaxLogFileSize = 1024 * 1024 * 512"

text \<open>
  \<^verbatim>\<open>fd\<close> and the file behind \<^verbatim>\<open>buf\<close> are the same file until a new one is opened; of \<^verbatim>\<open>fd\<close> only the name is read, and
  it is closed only right after it was opened.
\<close>

record writer =
  wt_flushWhenWrite :: bool
  wt_size :: nat
  wt_fd :: os_file
  wt_buf :: bufio
  wt_latestIDs :: "(string \<times> u64) list"

record line =
  ln_topic :: string
  ln_data :: bytes

definition latestID :: "writer \<Rightarrow> string \<Rightarrow> u64" where
  "latestID w topic = (case map_of (wt_latestIDs w) topic of None \<Rightarrow> 0 | Some mid \<Rightarrow> mid)"

text \<open>\<open>stamp\<close> is the time in nanoseconds, in hexadecimal.\<close>

definition newMsgFile :: "string \<Rightarrow> disk \<Rightarrow> (io_error + os_file) \<times> disk" where
  "newMsgFile stamp d = disk_Create (LogPath @ ''/'' @ stamp @ ''.msg'') d"

definition index_line :: "string \<times> u64 \<Rightarrow> bytes" where
  "index_line kv = str_bytes (fst kv @ '' '' @ itoa (unat (snd kv)) @ [CHR 0x0A])"

fun write_index :: "(string \<times> u64) list \<Rightarrow> bufio \<Rightarrow> fsys \<Rightarrow> (io_error option \<times> bufio) \<times> fsys" where
  "write_index [] b fs = bufio_Flush b fs"
| "write_index (kv # kvs) b fs =
     (case bufio_Write (index_line kv) b fs of
        ((Some e, b1), fs1) \<Rightarrow> ((Some e, b1), fs1)
      | ((None, b1), fs1) \<Rightarrow> write_index kvs b1 fs1)"

text \<open>The index is named after the whole path of the message file, under \<^verbatim>\<open>LogPath\<close> again.\<close>

definition newIndexFile :: "writer \<Rightarrow> disk \<Rightarrow> io_error option \<times> disk" where
  "newIndexFile w d =
     (case disk_Create (LogPath @ ''/'' @ f_name (wt_fd w) @ ''.idx'') d of
        (Inl e, d1) \<Rightarrow> (Some e, d1)
      | (Inr fd, d1) \<Rightarrow>
          (case write_index (wt_latestIDs w) (bufio_NewWriter fd) (dk_fs d1) of
             ((Some e, _), fs2) \<Rightarrow> (Some e, d1\<lparr>dk_fs := fs2\<rparr>)
           | ((None, b), fs2) \<Rightarrow>
               (case file_Close (bw_file b) fs2 of ((_, e), fs3) \<Rightarrow> (e, d1\<lparr>dk_fs := fs3\<rparr>))))"

definition newWriter :: "string \<Rightarrow> bool \<Rightarrow> disk \<Rightarrow> (io_error + writer) \<times> disk" where
  "newWriter stamp flushWhenWrite d =
     (case disk_MkdirAll LogPath d of
        (Some e, d1) \<Rightarrow> (Inl e, d1)
      | (None, d1) \<Rightarrow>
          (case newMsgFile stamp d1 of
             (Inl e, d2) \<Rightarrow> (Inl e, d2)
           | (Inr fd, d2) \<Rightarrow>
               (Inr \<lparr>wt_flushWhenWrite = flushWhenWrite, wt_size = 0, wt_fd = fd, wt_buf = bufio_NewWriter fd,
                     wt_latestIDs = []\<rparr>, d2)))"

definition msg_line :: "line \<Rightarrow> u64 \<Rightarrow> bytes" where
  "msg_line content mid =
     str_bytes (ln_topic content) @ str_bytes '' '' @ str_bytes (itoa (unat mid)) @ str_bytes '' '' @ ln_data content @
     str_bytes [CHR 0x0A]"

text \<open>The change of the files when the current one has reached its limit.\<close>

definition rotate :: "string \<Rightarrow> writer \<Rightarrow> disk \<Rightarrow> ((io_error + u64) \<times> writer) \<times> disk" where
  "rotate stamp w d =
     (case newIndexFile w d of
        (Some e, d1) \<Rightarrow> ((Inl e, w), d1)
      | (None, d1) \<Rightarrow>
          (case newMsgFile stamp d1 of
             (Inl e, d2) \<Rightarrow> ((Inl e, w), d2)
           | (Inr fd, d2) \<Rightarrow>
               (let w1 = w\<lparr>wt_fd := fd\<rparr>
                in case bufio_Flush (wt_buf w1) (dk_fs d2) of
                     ((Some e, b), fs3) \<Rightarrow> ((Inl e, w1\<lparr>wt_buf := b\<rparr>), d2\<lparr>dk_fs := fs3\<rparr>)
                   | ((None, b), fs3) \<Rightarrow>
                       (case file_Close fd fs3 of
                          ((fd', Some e), fs4) \<Rightarrow> ((Inl e, w1\<lparr>wt_buf := b, wt_fd := fd'\<rparr>), d2\<lparr>dk_fs := fs4\<rparr>)
                        | ((fd', None), fs4) \<Rightarrow>
                            ((Inr 0, w1\<lparr>wt_buf := bufio_NewWriter fd', wt_fd := fd', wt_size := 0\<rparr>), d2\<lparr>dk_fs := fs4\<rparr>)))))"

definition writer_write :: "string \<Rightarrow> line \<Rightarrow> writer \<Rightarrow> disk \<Rightarrow> ((io_error + u64) \<times> writer) \<times> disk" where
  "writer_write stamp content w d =
     (let mid = latestID w (ln_topic content);
          data = msg_line content mid
      in case bufio_Write data (wt_buf w) (dk_fs d) of
           ((Some e, b), fs1) \<Rightarrow> ((Inl e, w\<lparr>wt_buf := b\<rparr>), d\<lparr>dk_fs := fs1\<rparr>)
         | ((None, b), fs1) \<Rightarrow>
             (let w1 = w\<lparr>wt_buf := b, wt_latestIDs := AList.update (ln_topic content) (mid + 1) (wt_latestIDs w),
                         wt_size := wt_size w + length data\<rparr>;
                  d1 = d\<lparr>dk_fs := fs1\<rparr>
              in if wt_size w1 > MaxLogFileSize then rotate stamp w1 d1
                 else if wt_flushWhenWrite w1 then
                   (case bufio_Flush (wt_buf w1) fs1 of
                      ((Some e, b2), fs2) \<Rightarrow> ((Inl e, w1\<lparr>wt_buf := b2\<rparr>), d1\<lparr>dk_fs := fs2\<rparr>)
                    | ((None, b2), fs2) \<Rightarrow> ((Inr mid, w1\<lparr>wt_buf := b2\<rparr>), d1\<lparr>dk_fs := fs2\<rparr>))
                 else ((Inr mid, w1), d1)))"

section \<open>Channels\<close>

text \<open>
  A channel: its buffer, its capacity and the values of the goroutines that wait to send, in the order in which they
  came. A receive takes the oldest value and lets the first waiting sender go on.
\<close>

record 'a channel =
  ch_cap :: nat
  ch_buf :: "'a list"
  ch_senders :: "'a list"

definition make_chan :: "nat \<Rightarrow> 'a channel" where
  "make_chan n = \<lparr>ch_cap = n, ch_buf = [], ch_senders = []\<rparr>"

definition chan_send :: "'a \<Rightarrow> 'a channel \<Rightarrow> 'a channel" where
  "chan_send x c =
     (if length (ch_buf c) < ch_cap c then c\<lparr>ch_buf := ch_buf c @ [x]\<rparr> else c\<lparr>ch_senders := ch_senders c @ [x]\<rparr>)"

definition chan_recv :: "'a channel \<Rightarrow> ('a \<times> 'a channel) option" where
  "chan_recv c =
     (case ch_buf c of
        x # xs \<Rightarrow>
          (case ch_senders c of
             [] \<Rightarrow> Some (x, c\<lparr>ch_buf := xs\<rparr>)
           | y # ys \<Rightarrow> Some (x, c\<lparr>ch_buf := xs @ [y], ch_senders := ys\<rparr>))
      | [] \<Rightarrow>
          (case ch_senders c of [] \<Rightarrow> None | y # ys \<Rightarrow> Some (y, c\<lparr>ch_senders := ys\<rparr>)))"

section \<open>The core\<close>

text \<open>What the untyped map \<^verbatim>\<open>consumed\<close> holds: \<^verbatim>\<open>RegisterTopic\<close> stores an \<^verbatim>\<open>int\<close>, \<^verbatim>\<open>UpdateConsumed\<close> a \<^verbatim>\<open>uint64\<close>.\<close>

datatype consumed_val = VInt int | VUint64 u64

record box =
  bx_id :: u64
  bx_data :: bytes

record core =
  co_bufferSize :: int
  co_topic2ch :: "string \<rightharpoonup> box channel"
  co_consumed :: "(string \<times> consumed_val) list"
  co_wt :: writer

definition ConsumedFilePath :: string where
  "ConsumedFilePath = ''log/consumed.cor''"

definition TempConsumedFilePath :: string where
  "TempConsumedFilePath = ''log/consumedTemp.cor''"

text \<open>The first core of a process: the writer is made once.\<close>

definition NewCore :: "string \<Rightarrow> int \<Rightarrow> disk \<Rightarrow> (core \<times> disk) call" where
  "NewCore stamp bufferSize d =
     (case newWriter stamp False d of
        (Inl e, d1) \<Rightarrow> Panics
      | (Inr wt, d1) \<Rightarrow>
          (case disk_MkdirAll (filepath_Dir ConsumedFilePath) d1 of
             (Some e, d2) \<Rightarrow> Panics
           | (None, d2) \<Rightarrow>
               Returns (\<lparr>co_bufferSize = bufferSize, co_topic2ch = Map.empty, co_consumed = [], co_wt = wt\<rparr>, d2)))"

definition consumed_line :: "string \<Rightarrow> u64 \<Rightarrow> bytes list" where
  "consumed_line k v = [str_bytes k, [], str_bytes (itoa (unat v)), str_bytes [CHR 0x0A]]"

fun write_all :: "bytes list \<Rightarrow> bufio \<Rightarrow> fsys \<Rightarrow> bufio \<times> fsys" where
  "write_all [] b fs = (b, fs)"
| "write_all (p # ps) b fs = (case bufio_Write p b fs of ((_, b1), fs1) \<Rightarrow> write_all ps b1 fs1)"

fun write_consumed :: "(string \<times> consumed_val) list \<Rightarrow> bufio \<Rightarrow> fsys \<Rightarrow> (bufio \<times> fsys) call" where
  "write_consumed [] b fs = Returns (b, fs)"
| "write_consumed ((k, v) # kvs) b fs =
     (case v of
        VInt _ \<Rightarrow> Panics
      | VUint64 n \<Rightarrow> (case write_all (consumed_line k n) b fs of (b1, fs1) \<Rightarrow> write_consumed kvs b1 fs1))"

text \<open>
  One tick of \<^verbatim>\<open>flush\<close>; \<open>order\<close> is the order in which the map is read. The buffer is not flushed, and the file is
  closed after it was renamed.
\<close>

definition flush_tick :: "((string \<times> consumed_val) list \<Rightarrow> (string \<times> consumed_val) list) \<Rightarrow> core \<Rightarrow> disk \<Rightarrow> disk call" where
  "flush_tick order c d =
     (case disk_Create TempConsumedFilePath d of
        (Inl e, d1) \<Rightarrow> Panics
      | (Inr tempFile, d1) \<Rightarrow>
          bind_call (write_consumed (order (co_consumed c)) (bufio_NewWriter tempFile) (dk_fs d1))
            (\<lambda>(b, fs2). case os_Rename TempConsumedFilePath ConsumedFilePath fs2 of
                          (_, fs3) \<Rightarrow> Returns (d1\<lparr>dk_fs := snd (file_Close (bw_file b) fs3)\<rparr>)))"

definition RegisterTopic :: "string \<Rightarrow> core \<Rightarrow> core call" where
  "RegisterTopic topic c =
     (if co_topic2ch c topic \<noteq> None then Returns c
      else if co_bufferSize c < 0 then Panics
      else Returns (c\<lparr>co_topic2ch := (co_topic2ch c)(topic \<mapsto> make_chan (nat (co_bufferSize c))),
                      co_consumed := AList.update topic (VInt 0) (co_consumed c)\<rparr>))"

definition IsTopicExist :: "string \<Rightarrow> core \<Rightarrow> bool" where
  "IsTopicExist topic c \<longleftrightarrow> co_topic2ch c topic \<noteq> None"

text \<open>
  The identity of a message that could not be logged is 0. The send to the channel of an unknown topic, which is
  nil, waits for ever and changes nothing; a send to a full channel waits among its senders.
\<close>

definition Push :: "string \<Rightarrow> string \<Rightarrow> bytes \<Rightarrow> core \<Rightarrow> disk \<Rightarrow> core \<times> disk" where
  "Push stamp topic msg c d =
     (case writer_write stamp \<lparr>ln_topic = topic, ln_data = msg\<rparr> (co_wt c) d of
        ((r, wt), d1) \<Rightarrow>
          (let bx = \<lparr>bx_id = (case r of Inl _ \<Rightarrow> 0 | Inr mid \<Rightarrow> mid), bx_data = msg\<rparr>;
               c1 = c\<lparr>co_wt := wt\<rparr>
           in case co_topic2ch c1 topic of
                None \<Rightarrow> (c1, d1)
              | Some ch \<Rightarrow> (c1\<lparr>co_topic2ch := (co_topic2ch c1)(topic \<mapsto> chan_send bx ch)\<rparr>, d1)))"

text \<open>\<open>Blocks\<close> is a receive that has to wait.\<close>

definition Pull :: "string \<Rightarrow> core \<Rightarrow> (bytes \<times> core) call" where
  "Pull topic c =
     (case co_topic2ch c topic of
        None \<Rightarrow> Blocks
      | Some ch \<Rightarrow>
          (case chan_recv ch of
             None \<Rightarrow> Blocks
           | Some (bx, ch1) \<Rightarrow> Returns (bx_data bx, c\<lparr>co_topic2ch := (co_topic2ch c)(topic \<mapsto> ch1)\<rparr>)))"

definition UpdateConsumed :: "string \<Rightarrow> u64 \<Rightarrow> core \<Rightarrow> core" where
  "UpdateConsumed topic consumed c = c\<lparr>co_consumed := AList.update topic (VUint64 consumed) (co_consumed c)\<rparr>"

section \<open>The token bucket\<close>

text \<open>
  One tick. When several cases of the \<^verbatim>\<open>select\<close> are ready, any of them is taken; the default only when
  none is. The stream of a ticker with an interval that is not positive does not exist: \<^verbatim>\<open>Reset\<close> panics.
\<close>

record token_bucket =
  tb_done :: bool
  tb_tokens :: nat
  tb_cap :: nat
  tb_updates :: "int list"
  tb_interval :: int
  tb_running :: bool

inductive token_tick :: "token_bucket \<Rightarrow> token_bucket call \<Rightarrow> bool" where
  done_: "tb_running b \<Longrightarrow> tb_done b \<Longrightarrow> token_tick b (Returns (b\<lparr>tb_running := False\<rparr>))"
| update: "tb_running b \<Longrightarrow> tb_updates b = i # is \<Longrightarrow>
    token_tick b (if 0 < i then Returns (b\<lparr>tb_updates := is, tb_interval := i\<rparr>) else Panics)"
| token: "tb_running b \<Longrightarrow> tb_tokens b < tb_cap b \<Longrightarrow> token_tick b (Returns (b\<lparr>tb_tokens := Suc (tb_tokens b)\<rparr>))"
| default: "tb_running b \<Longrightarrow> \<not> tb_done b \<Longrightarrow> tb_updates b = [] \<Longrightarrow> tb_tokens b = tb_cap b \<Longrightarrow> token_tick b (Returns b)"

section \<open>Channels are queues\<close>

text \<open>The interface of a queue, and what every sequence of operations on one gives.\<close>

datatype 'a queue_op = Enq 'a | Deq

locale fifo =
  fixes enq :: "'a \<Rightarrow> 'q \<Rightarrow> 'q" and deq :: "'q \<Rightarrow> ('a \<times> 'q) option" and items :: "'q \<Rightarrow> 'a list" and ok :: "'q \<Rightarrow> bool"
  assumes enq_items: "ok q \<Longrightarrow> items (enq x q) = items q @ [x]"
    and enq_ok: "ok q \<Longrightarrow> ok (enq x q)"
    and deq_items: "ok q \<Longrightarrow> deq q = Some (x, q') \<Longrightarrow> items q = x # items q'"
    and deq_ok: "ok q \<Longrightarrow> deq q = Some (x, q') \<Longrightarrow> ok q'"
    and deq_none: "ok q \<Longrightarrow> deq q = None \<longleftrightarrow> items q = []"
begin

lemma deq_nonempty: "ok q \<Longrightarrow> items q = x # xs \<Longrightarrow> \<exists>q'. deq q = Some (x, q') \<and> items q' = xs \<and> ok q'"
  using deq_none [of q] deq_items [of q] deq_ok [of q] by (cases "deq q") fastforce+

end

definition chan_items :: "'a channel \<Rightarrow> 'a list" where
  "chan_items c = ch_buf c @ ch_senders c"

text \<open>The buffer keeps to the capacity, and nobody waits to send while there is room.\<close>

definition chan_ok :: "'a channel \<Rightarrow> bool" where
  "chan_ok c \<longleftrightarrow> length (ch_buf c) \<le> ch_cap c \<and> (ch_senders c \<noteq> [] \<longrightarrow> length (ch_buf c) = ch_cap c)"

interpretation chan: fifo chan_send chan_recv chan_items chan_ok
  by unfold_locales
    (auto simp: chan_send_def chan_recv_def chan_items_def chan_ok_def split: list.splits)

lemma make_chan_ok: "chan_ok (make_chan n)" "chan_items (make_chan n) = []"
  by (simp_all add: chan_ok_def make_chan_def chan_items_def)

section \<open>Runs of the core\<close>

datatype core_event = CoreRegister string | CorePush string string bytes | CorePull string | CoreAck string u64

text \<open>The pulls of a run with what they returned are kept; one that has to wait leaves the core as it is.\<close>

type_synonym core_state = "core \<times> disk \<times> (string \<times> bytes) list"

fun core_exec :: "core_event \<Rightarrow> core_state \<Rightarrow> core_state call" where
  "core_exec (CoreRegister topic) (c, d, out) = bind_call (RegisterTopic topic c) (\<lambda>c1. Returns (c1, d, out))"
| "core_exec (CorePush stamp topic msg) (c, d, out) = (case Push stamp topic msg c d of (c1, d1) \<Rightarrow> Returns (c1, d1, out))"
| "core_exec (CorePull topic) (c, d, out) =
     (case Pull topic c of
        Returns (msg, c1) \<Rightarrow> Returns (c1, d, out @ [(topic, msg)])
      | Blocks \<Rightarrow> Returns (c, d, out)
      | Panics \<Rightarrow> Panics)"
| "core_exec (CoreAck topic n) (c, d, out) = Returns (UpdateConsumed topic n c, d, out)"

fun core_run :: "core_event list \<Rightarrow> core_state \<Rightarrow> core_state call" where
  "core_run [] s = Returns s"
| "core_run (ev # evs) s = bind_call (core_exec ev s) (core_run evs)"

definition core_ok :: "core \<Rightarrow> bool" where
  "core_ok c \<longleftrightarrow> (\<forall>t ch. co_topic2ch c t = Some ch \<longrightarrow> chan_ok ch \<and> int (ch_cap ch) = co_bufferSize c)"

text \<open>What waits in the core for the consumers of a topic, and what the events of a run push to it.\<close>

definition queued :: "string \<Rightarrow> core \<Rightarrow> bytes list" where
  "queued t c = (case co_topic2ch c t of None \<Rightarrow> [] | Some ch \<Rightarrow> map bx_data (chan_items ch))"

definition pushed :: "string \<Rightarrow> core_event list \<Rightarrow> bytes list" where
  "pushed t evs = concat (map (\<lambda>ev. case ev of CorePush stamp topic msg \<Rightarrow> if topic = t then [msg] else [] | _ \<Rightarrow> []) evs)"

definition pulled :: "string \<Rightarrow> (string \<times> bytes) list \<Rightarrow> bytes list" where
  "pulled t out = map snd (filter (\<lambda>x. fst x = t) out)"

lemma pushed_Cons: "pushed t (ev # evs) = pushed t [ev] @ pushed t evs"
  by (simp add: pushed_def)

lemma pulled_append [simp]: "pulled t (xs @ ys) = pulled t xs @ pulled t ys"
  by (simp add: pulled_def)

lemma chan_cap_kept [simp]: "ch_cap (chan_send x c) = ch_cap c" "chan_recv c = Some (x, c') \<Longrightarrow> ch_cap c' = ch_cap c"
  by (auto simp: chan_send_def chan_recv_def split: list.splits)

definition step_ok :: "string \<Rightarrow> core_state \<Rightarrow> bytes list \<Rightarrow> core_state \<Rightarrow> bool" where
  "step_ok t s new s' = (case (s, s') of ((c, d, out), (c', d', out')) \<Rightarrow>
     core_ok c' \<and> IsTopicExist t c' \<and> pulled t out @ queued t c @ new = pulled t out' @ queued t c')"

lemma Push_ok:
  assumes "core_ok c" and "IsTopicExist t c" and "Push stamp topic msg c d = (c', d')"
  shows "core_ok c' \<and> IsTopicExist t c' \<and> queued t c' = queued t c @ (if topic = t then [msg] else [])"
  using assms
  by (auto simp: chan.enq_items chan.enq_ok Push_def core_ok_def queued_def IsTopicExist_def Let_def split: prod.splits option.splits if_splits)

lemma Pull_ok:
  assumes "core_ok c" and "IsTopicExist t c" and "Pull topic c = Returns (msg, c')"
  shows "core_ok c' \<and> IsTopicExist t c' \<and> queued t c = (if topic = t then [msg] else []) @ queued t c'"
  using assms chan.deq_items chan.deq_ok
  by (fastforce simp: Pull_def core_ok_def queued_def IsTopicExist_def split: option.splits if_splits)

lemma RegisterTopic_ok:
  assumes "core_ok c" and "IsTopicExist t c" and "RegisterTopic topic c = Returns c'"
  shows "core_ok c' \<and> IsTopicExist t c' \<and> queued t c' = queued t c"
  using assms by (auto simp: RegisterTopic_def core_ok_def queued_def IsTopicExist_def make_chan_ok make_chan_def chan_ok_def split: if_splits)

lemma core_exec_ok:
  assumes "core_ok c" and "IsTopicExist t c" and "core_exec ev (c, d, out) = Returns s'"
  shows "step_ok t (c, d, out) (pushed t [ev]) s'"
proof (cases ev)
  case (CoreRegister topic)
  with assms RegisterTopic_ok [OF assms(1,2)] show ?thesis by (auto simp: step_ok_def bind_call_Returns pushed_def)
next
  case (CorePush stamp topic msg)
  obtain c1 d1 where "Push stamp topic msg c d = (c1, d1)" by (metis prod.exhaust)
  with CorePush assms(3) Push_ok [OF assms(1,2) this] show ?thesis by (auto simp: step_ok_def pushed_def)
next
  case (CorePull topic)
  show ?thesis
  proof (cases "Pull topic c")
    case (Returns x)
    obtain msg c1 where x: "x = (msg, c1)" by (cases x)
    with CorePull Returns assms(3) Pull_ok [OF assms(1,2), of topic msg c1] show ?thesis
      by (auto simp: step_ok_def pushed_def) (auto simp: pulled_def)
  qed (use CorePull assms in \<open>auto simp: step_ok_def pushed_def\<close>)
next
  case (CoreAck topic n)
  with assms show ?thesis
    by (auto simp: step_ok_def pushed_def UpdateConsumed_def core_ok_def IsTopicExist_def queued_def)
qed

lemma core_run_ok:
  "core_ok c \<Longrightarrow> IsTopicExist t c \<Longrightarrow> core_run evs (c, d, out) = Returns s' \<Longrightarrow> step_ok t (c, d, out) (pushed t evs) s'"
proof (induction evs arbitrary: c d out)
  case Nil
  then show ?case by (auto simp: step_ok_def pushed_def)
next
  case (Cons ev evs)
  then obtain c1 d1 out1 where e: "core_exec ev (c, d, out) = Returns (c1, d1, out1)"
    and r: "core_run evs (c1, d1, out1) = Returns s'" by (auto simp: bind_call_Returns)
  have one: "step_ok t (c, d, out) (pushed t [ev]) (c1, d1, out1)" by (rule core_exec_ok [OF Cons.prems(1,2) e])
  then have "step_ok t (c1, d1, out1) (pushed t evs) s'" using Cons.IH [OF _ _ r] by (simp add: step_ok_def)
  with one show ?case by (cases s') (simp add: step_ok_def pushed_Cons [of t ev evs], metis append.assoc)
qed

lemma core_exec_size: "core_exec ev (c, d, out) = Returns (c', d', out') \<Longrightarrow> co_bufferSize c' = co_bufferSize c"
  by (cases ev) (auto simp: bind_call_Returns RegisterTopic_def Push_def Pull_def UpdateConsumed_def Let_def
      split: if_splits prod.splits option.splits call.splits)

lemma core_run_size: "core_run evs (c, d, out) = Returns (c', d', out') \<Longrightarrow> co_bufferSize c' = co_bufferSize c"
proof (induction evs arbitrary: c d out)
  case (Cons ev evs)
  then obtain c1 d1 out1 where e: "core_exec ev (c, d, out) = Returns (c1, d1, out1)"
    and r: "core_run evs (c1, d1, out1) = Returns (c', d', out')" by (auto simp: bind_call_Returns)
  from Cons.IH [OF r] core_exec_size [OF e] show ?case by simp
qed simp

section \<open>The log without faults\<close>

text \<open>A buffered writer at the end of its file, and everything written through it.\<close>

definition bufio_ok :: "bufio \<Rightarrow> fsys \<Rightarrow> bool" where
  "bufio_ok b fs \<longleftrightarrow> bw_err b = None \<and> f_open (bw_file b) \<and> f_off (bw_file b) = length (inodes fs (f_ino (bw_file b))) \<and>
     length (bw_buf b) \<le> bufio_size \<and> healthy fs"

definition stored :: "bufio \<Rightarrow> fsys \<Rightarrow> bytes" where
  "stored b fs = inodes fs (f_ino (bw_file b)) @ bw_buf b"

definition same_file :: "bufio \<Rightarrow> fsys \<Rightarrow> bufio \<Rightarrow> fsys \<Rightarrow> bool" where
  "same_file b fs b' fs' \<longleftrightarrow> f_ino (bw_file b') = f_ino (bw_file b) \<and> lookup_ino fs' = lookup_ino fs"

lemma bufio_direct_ok:
  assumes "bufio_ok b fs" and "bw_buf b = []"
  shows "\<exists>b' fs'. bufio_direct p b fs = (b', fs') \<and> bufio_ok b' fs' \<and> bw_buf b' = [] \<and> stored b' fs' = stored b fs @ p \<and>
    same_file b fs b' fs'"
  using assms by (simp add: bufio_direct_def bufio_ok_def file_Write_healthy stored_def same_file_def)

lemma bufio_Flush_ok:
  assumes "bufio_ok b fs"
  shows "\<exists>b' fs'. bufio_Flush b fs = ((None, b'), fs') \<and> bufio_ok b' fs' \<and> bw_buf b' = [] \<and> stored b' fs' = stored b fs \<and>
    same_file b fs b' fs'"
  using assms by (auto simp: bufio_Flush_def bufio_direct_def bufio_ok_def file_Write_healthy stored_def same_file_def)

lemma bufio_ok_append: "bufio_ok b fs \<Longrightarrow> length (bw_buf b @ p) \<le> bufio_size \<Longrightarrow> bufio_ok (b\<lparr>bw_buf := bw_buf b @ p\<rparr>) fs"
  by (simp add: bufio_ok_def)

lemma stored_append [simp]: "stored (b\<lparr>bw_buf := bw_buf b @ p\<rparr>) fs = stored b fs @ p"
  by (simp add: stored_def)

lemma bufio_Write_empty:
  assumes "bufio_ok b fs" and "bw_buf b = []"
  shows "\<exists>b' fs'. bufio_Write p b fs = ((None, b'), fs') \<and> bufio_ok b' fs' \<and> stored b' fs' = stored b fs @ p \<and> same_file b fs b' fs'"
proof (cases "length p \<le> bufio_size")
  case True
  with assms show ?thesis
    by (auto simp: bufio_Write_def bufio_ok_def stored_def same_file_def)
next
  case False
  obtain b1 fs1 where "bufio_direct p b fs = (b1, fs1)" "bufio_ok b1 fs1" "bw_buf b1 = []" "stored b1 fs1 = stored b fs @ p"
    "same_file b fs b1 fs1" using bufio_direct_ok [OF assms, of p] by blast
  with False assms show ?thesis by (auto simp: bufio_Write_def bufio_ok_def stored_def same_file_def)
qed

lemma bufio_Write_spill:
  assumes "bw_err b = None" and "bw_buf b \<noteq> []" and "\<not> length p \<le> bufio_size - length (bw_buf b)"
    and "bufio_Flush (b\<lparr>bw_buf := bw_buf b @ take (bufio_size - length (bw_buf b)) p\<rparr>) fs = ((None, b1), fs1)" and "bw_buf b1 = []"
  shows "bufio_Write p b fs = bufio_Write (drop (bufio_size - length (bw_buf b)) p) b1 fs1"
  using assms by (simp add: bufio_Write_def)

lemma bufio_Write_ok:
  assumes "bufio_ok b fs"
  shows "\<exists>b' fs'. bufio_Write p b fs = ((None, b'), fs') \<and> bufio_ok b' fs' \<and> stored b' fs' = stored b fs @ p \<and> same_file b fs b' fs'"
proof (cases "length p \<le> bufio_size - length (bw_buf b)")
  case True
  with assms show ?thesis by (auto simp: bufio_Write_def bufio_ok_def stored_def same_file_def)
next
  case False
  show ?thesis
  proof (cases "bw_buf b = []")
    case True
    then show ?thesis by (rule bufio_Write_empty [OF assms])
  next
    case nonempty: False
    let ?free = "bufio_size - length (bw_buf b)"
    let ?b0 = "b\<lparr>bw_buf := bw_buf b @ take ?free p\<rparr>"
    have "bufio_ok ?b0 fs" using assms by (intro bufio_ok_append) (auto simp: bufio_ok_def)
    from bufio_Flush_ok [OF this] obtain b1 fs1 where f: "bufio_Flush ?b0 fs = ((None, b1), fs1)" "bufio_ok b1 fs1" "bw_buf b1 = []"
      "stored b1 fs1 = stored b fs @ take ?free p" "same_file b fs b1 fs1" by (auto simp: same_file_def)
    have err: "bw_err b = None" using assms by (simp add: bufio_ok_def)
    have "bufio_Write p b fs = bufio_Write (drop ?free p) b1 fs1" by (rule bufio_Write_spill [OF err nonempty False f(1,3)])
    with bufio_Write_empty [OF f(2,3), of "drop ?free p"] f(4,5) show ?thesis
      by (auto simp: same_file_def simp flip: append_assoc) (simp add: append.assoc)
  qed
qed

text \<open>Several writes one after the other, each with the time it takes a new file name from.\<close>

fun writes :: "(string \<times> line) list \<Rightarrow> writer \<Rightarrow> disk \<Rightarrow> ((io_error + u64) list \<times> writer) \<times> disk" where
  "writes [] w d = (([], w), d)"
| "writes ((stamp, l) # ls) w d =
     (case writer_write stamp l w d of ((r, w1), d1) \<Rightarrow> (case writes ls w1 d1 of ((rs, w2), d2) \<Rightarrow> ((r # rs, w2), d2)))"

text \<open>The identity of a line is the number of lines of its topic before it; \<open>n\<close> counts those of earlier writes.\<close>

fun line_ids :: "(string \<Rightarrow> u64) \<Rightarrow> line list \<Rightarrow> u64 list" where
  "line_ids n [] = []"
| "line_ids n (l # ls) = n (ln_topic l) # line_ids (n(ln_topic l := n (ln_topic l) + 1)) ls"

definition log_text :: "(string \<Rightarrow> u64) \<Rightarrow> line list \<Rightarrow> bytes" where
  "log_text n ls = concat (map (\<lambda>(l, mid). msg_line l mid) (zip ls (line_ids n ls)))"

lemma log_text_Cons:
  "log_text n (l # ls) = msg_line l (n (ln_topic l)) @ log_text (n(ln_topic l := n (ln_topic l) + 1)) ls"
  by (simp add: log_text_def)

lemma latestID_update: "latestID (w\<lparr>wt_latestIDs := AList.update t v (wt_latestIDs w)\<rparr>) = (latestID w)(t := v)"
  by (auto simp: latestID_def update_conv' fun_eq_iff)

lemma write_ok:
  assumes "bufio_ok (wt_buf w) (dk_fs d)" and "\<not> wt_flushWhenWrite w"
    and "wt_size w + length (msg_line l (latestID w (ln_topic l))) \<le> MaxLogFileSize"
  shows "\<exists>w' d'. writer_write stamp l w d = ((Inr (latestID w (ln_topic l)), w'), d') \<and> bufio_ok (wt_buf w') (dk_fs d') \<and>
    \<not> wt_flushWhenWrite w' \<and> wt_size w' = wt_size w + length (msg_line l (latestID w (ln_topic l))) \<and>
    latestID w' = (latestID w)(ln_topic l := latestID w (ln_topic l) + 1) \<and>
    stored (wt_buf w') (dk_fs d') = stored (wt_buf w) (dk_fs d) @ msg_line l (latestID w (ln_topic l)) \<and>
    same_file (wt_buf w) (dk_fs d) (wt_buf w') (dk_fs d')"
proof -
  let ?data = "msg_line l (latestID w (ln_topic l))"
  obtain b fs1 where b: "bufio_Write ?data (wt_buf w) (dk_fs d) = ((None, b), fs1)" "bufio_ok b fs1"
    "stored b fs1 = stored (wt_buf w) (dk_fs d) @ ?data" "same_file (wt_buf w) (dk_fs d) b fs1"
    using bufio_Write_ok [OF assms(1), of ?data] by blast
  have ids: "latestID (w\<lparr>wt_buf := b', wt_latestIDs := AList.update (ln_topic l) v (wt_latestIDs w), wt_size := s\<rparr>) =
      (latestID w)(ln_topic l := v)" for b' v s
    by (auto simp: latestID_def update_conv' fun_eq_iff)
  show ?thesis using assms(2,3) b by (simp add: writer_write_def Let_def ids)
qed

lemma writes_ok:
  assumes "bufio_ok (wt_buf w) (dk_fs d)" and "\<not> wt_flushWhenWrite w"
    and "wt_size w + length (log_text (latestID w) (map snd ls)) \<le> MaxLogFileSize"
  shows "\<exists>w' d'. writes ls w d = ((map Inr (line_ids (latestID w) (map snd ls)), w'), d') \<and> bufio_ok (wt_buf w') (dk_fs d') \<and>
    stored (wt_buf w') (dk_fs d') = stored (wt_buf w) (dk_fs d) @ log_text (latestID w) (map snd ls) \<and>
    same_file (wt_buf w) (dk_fs d) (wt_buf w') (dk_fs d')"
  using assms
proof (induction ls arbitrary: w d)
  case Nil
  then show ?case by (simp add: log_text_def same_file_def)
next
  case (Cons x ls)
  obtain stamp l where x: "x = (stamp, l)" by (cases x)
  let ?data = "msg_line l (latestID w (ln_topic l))"
  have fits: "wt_size w + length ?data \<le> MaxLogFileSize" using Cons.prems(3) x by (simp add: log_text_Cons)
  obtain w1 d1 where w1: "writer_write stamp l w d = ((Inr (latestID w (ln_topic l)), w1), d1)" "bufio_ok (wt_buf w1) (dk_fs d1)"
    "\<not> wt_flushWhenWrite w1" "wt_size w1 = wt_size w + length ?data"
    "latestID w1 = (latestID w)(ln_topic l := latestID w (ln_topic l) + 1)"
    "stored (wt_buf w1) (dk_fs d1) = stored (wt_buf w) (dk_fs d) @ ?data" "same_file (wt_buf w) (dk_fs d) (wt_buf w1) (dk_fs d1)"
    using write_ok [OF Cons.prems(1,2) fits, of stamp] by blast
  have "wt_size w1 + length (log_text (latestID w1) (map snd ls)) \<le> MaxLogFileSize"
    using Cons.prems(3) w1(4) unfolding x w1(5) by (simp add: log_text_Cons del: fun_upd_apply)
  from Cons.IH [OF w1(2,3) this] obtain w2 d2 where "writes ls w1 d1 = ((map Inr (line_ids (latestID w1) (map snd ls)), w2), d2)" "bufio_ok (wt_buf w2) (dk_fs d2)"
    "stored (wt_buf w2) (dk_fs d2) = stored (wt_buf w1) (dk_fs d1) @ log_text (latestID w1) (map snd ls)"
    "same_file (wt_buf w1) (dk_fs d1) (wt_buf w2) (dk_fs d2)" by blast
  with w1 x show ?case by (simp add: log_text_Cons same_file_def)
qed

lemma log_dirs:
  assumes "CHR ''/'' \<notin> set stamp"
  shows "filepath_Dir (LogPath @ ''/'' @ stamp @ ''.msg'') = ''log''"
    and "filepath_Dir (LogPath @ ''/'' @ (LogPath @ ''/'' @ stamp @ ''.msg'') @ ''.idx'') = ''log/log''"
    and "filepath_Dir ConsumedFilePath = ''log''" and "filepath_Dir TempConsumedFilePath = ''log''"
proof -
  have "filepath_Clean ''log/'' = ''log''" "filepath_Clean ''log/log/'' = ''log/log''" by code_simp+
  then show "filepath_Dir (LogPath @ ''/'' @ stamp @ ''.msg'') = ''log''"
    and "filepath_Dir (LogPath @ ''/'' @ (LogPath @ ''/'' @ stamp @ ''.msg'') @ ''.idx'') = ''log/log''"
    using Dir_last [of "stamp @ ''.msg''" "''log''"] Dir_last [of "stamp @ ''.msg.idx''" "''log/log''"] assms
    by (simp_all add: LogPath_def)
  show "filepath_Dir ConsumedFilePath = ''log''" and "filepath_Dir TempConsumedFilePath = ''log''" by code_simp+
qed

lemma disk_Create_ok:
  assumes "healthy (dk_fs d)" and "fs_wf (dk_fs d)" and "filepath_Dir p \<in> set (dk_dirs d)"
  shows "\<exists>f d'. disk_Create p d = (Inr f, d') \<and> bufio_ok (bufio_NewWriter f) (dk_fs d') \<and> stored (bufio_NewWriter f) (dk_fs d') = [] \<and>
    f_name f = p \<and> lookup_ino (dk_fs d') p = Some (f_ino f) \<and> fs_wf (dk_fs d') \<and> dk_dirs d' = dk_dirs d"
  using os_Create_healthy [OF assms(1,2), of p] assms(3)
  by (auto simp: disk_Create_def bufio_ok_def bufio_NewWriter_def stored_def)

lemma newWriter_ok:
  assumes "healthy (dk_fs d)" and "fs_wf (dk_fs d)" and "CHR ''/'' \<notin> set stamp"
  shows "\<exists>w d'. newWriter stamp flushWhenWrite d = (Inr w, d') \<and> bufio_ok (wt_buf w) (dk_fs d') \<and>
    wt_flushWhenWrite w = flushWhenWrite \<and> wt_size w = 0 \<and> latestID w = (\<lambda>_. 0) \<and> stored (wt_buf w) (dk_fs d') = [] \<and>
    lookup_ino (dk_fs d') (LogPath @ ''/'' @ stamp @ ''.msg'') = Some (f_ino (bw_file (wt_buf w))) \<and>
    f_name (wt_fd w) = LogPath @ ''/'' @ stamp @ ''.msg'' \<and> dk_dirs d' = List.insert LogPath (dk_dirs d)"
proof -
  let ?d = "d\<lparr>dk_dirs := List.insert LogPath (dk_dirs d), dk_fs := tick (dk_fs d)\<rparr>"
  have m: "disk_MkdirAll LogPath d = (None, ?d)"
    using assms(1) by (simp add: disk_MkdirAll_def os_MkdirAll_def)
  have "filepath_Dir (LogPath @ ''/'' @ stamp @ ''.msg'') \<in> set (dk_dirs ?d)"
    unfolding log_dirs(1) [OF assms(3)] by (simp add: LogPath_def)
  from disk_Create_ok [OF _ _ this] assms(1,2) obtain f d' where
    "disk_Create (LogPath @ ''/'' @ stamp @ ''.msg'') ?d = (Inr f, d')" "bufio_ok (bufio_NewWriter f) (dk_fs d')"
    "stored (bufio_NewWriter f) (dk_fs d') = []" "f_name f = LogPath @ ''/'' @ stamp @ ''.msg''"
    "lookup_ino (dk_fs d') (LogPath @ ''/'' @ stamp @ ''.msg'') = Some (f_ino f)" "dk_dirs d' = dk_dirs ?d" by auto
  then show ?thesis
    by (simp add: newWriter_def m newMsgFile_def latestID_def fun_eq_iff) (simp add: bufio_NewWriter_def)
qed

section \<open>The limit of the log\<close>

text \<open>Only the directory of the index file matters: without it a full writer fails, whatever else happens.\<close>

lemma newIndexFile_no_dir:
  assumes "filepath_Dir (LogPath @ ''/'' @ f_name (wt_fd w) @ ''.idx'') \<notin> set (dk_dirs d)"
  shows "newIndexFile w d = (Some ENOENT, d\<lparr>dk_fs := tick (dk_fs d)\<rparr>)"
  using assms by (simp add: newIndexFile_def disk_Create_def)

lemma write_no_dir:
  assumes "filepath_Dir (LogPath @ ''/'' @ f_name (wt_fd w) @ ''.idx'') \<notin> set (dk_dirs d)"
    and "writer_write stamp l w d = ((r, w'), d')"
  shows "wt_fd w' = wt_fd w \<and> dk_dirs d' = dk_dirs d \<and> wt_size w \<le> wt_size w' \<and> (MaxLogFileSize \<le> wt_size w \<longrightarrow> isl r)"
proof -
  obtain e b fs1 where b: "bufio_Write (msg_line l (latestID w (ln_topic l))) (wt_buf w) (dk_fs d) = ((e, b), fs1)"
    by (metis prod.exhaust)
  obtain k where pos: "length (msg_line l (latestID w (ln_topic l))) = Suc k" by (simp add: msg_line_def str_bytes_def)
  show ?thesis
  proof (cases e)
    case None
    show ?thesis
      using assms b pos newIndexFile_no_dir
      by (auto simp: None writer_write_def rotate_def Let_def split: if_splits prod.splits option.splits)
  qed (use assms b in \<open>auto simp: writer_write_def Let_def\<close>)
qed

lemma writes_no_dir:
  "filepath_Dir (LogPath @ ''/'' @ f_name (wt_fd w) @ ''.idx'') \<notin> set (dk_dirs d) \<Longrightarrow> writes ls w d = ((rs, w'), d') \<Longrightarrow>
   wt_fd w' = wt_fd w \<and> dk_dirs d' = dk_dirs d \<and> length rs = length ls \<and> (MaxLogFileSize \<le> wt_size w \<longrightarrow> list_all isl rs)"
proof (induction ls arbitrary: w d rs)
  case (Cons x ls)
  obtain stamp l where x: "x = (stamp, l)" by (cases x)
  obtain r w1 d1 where w1: "writer_write stamp l w d = ((r, w1), d1)" by (metis prod.exhaust)
  obtain rs1 w2 d2 where w2: "writes ls w1 d1 = ((rs1, w2), d2)" by (metis prod.exhaust)
  note step = write_no_dir [OF Cons.prems(1) w1]
  have "wt_fd w2 = wt_fd w1 \<and> dk_dirs d2 = dk_dirs d1 \<and> length rs1 = length ls \<and> (MaxLogFileSize \<le> wt_size w1 \<longrightarrow> list_all isl rs1)"
    using Cons.IH [of w1 d1 rs1] step Cons.prems w1 w2 x by simp
  with step Cons.prems(2) w1 w2 x show ?case by auto
qed simp

section \<open>The positions of the consumers\<close>

lemma bufio_Write_fits:
  assumes "bw_err b = None" and "length (bw_buf b) + length p \<le> bufio_size"
  shows "bufio_Write p b fs = ((None, b\<lparr>bw_buf := bw_buf b @ p\<rparr>), fs)"
proof -
  have "length p \<le> bufio_size - length (bw_buf b)" using assms(2) by simp
  with assms(1) show ?thesis by (simp add: bufio_Write_def Let_def)
qed

lemma write_all_fits:
  "bw_err b = None \<Longrightarrow> length (bw_buf b) + length (concat ps) \<le> bufio_size \<Longrightarrow>
   write_all ps b fs = (b\<lparr>bw_buf := bw_buf b @ concat ps\<rparr>, fs)"
  by (induction ps arbitrary: b) (simp_all add: bufio_Write_fits)

definition consumed_size :: "(string \<times> consumed_val) list \<Rightarrow> nat" where
  "consumed_size kvs = sum_list (map (\<lambda>(k, v). case v of VInt _ \<Rightarrow> 0 | VUint64 n \<Rightarrow> length (concat (consumed_line k n))) kvs)"

lemma write_consumed_panics: "write_consumed kvs b fs = Panics \<longleftrightarrow> (\<exists>k n. (k, VInt n) \<in> set kvs)"
  by (induction kvs b fs rule: write_consumed.induct) (auto split: consumed_val.splits prod.splits)

lemma write_consumed_fits:
  "bw_err b = None \<Longrightarrow> length (bw_buf b) + consumed_size kvs \<le> bufio_size \<Longrightarrow> (\<forall>k n. (k, VInt n) \<notin> set kvs) \<Longrightarrow>
   \<exists>buf. write_consumed kvs b fs = Returns (b\<lparr>bw_buf := buf\<rparr>, fs)"
proof (induction kvs b fs rule: write_consumed.induct)
  case (1 b fs)
  then show ?case by (intro exI [of _ "bw_buf b"]) simp
next
  case (2 k v kvs b fs)
  then obtain n where v: "v = VUint64 n" by (cases v) auto
  let ?b = "b\<lparr>bw_buf := bw_buf b @ concat (consumed_line k n)\<rparr>"
  have w: "write_all (consumed_line k n) b fs = (?b, fs)"
    using 2(2,3) v by (intro write_all_fits) (simp_all add: consumed_size_def)
  have "\<exists>buf. write_consumed kvs ?b fs = Returns (?b\<lparr>bw_buf := buf\<rparr>, fs)"
    by (rule "2.IH" [OF v w [symmetric]]) (use 2(2-4) v in \<open>auto simp: consumed_size_def\<close>)
  with w v show ?case by auto
qed

lemma consumed_size_mset: "mset xs = mset ys \<Longrightarrow> consumed_size xs = consumed_size ys"
  by (simp add: consumed_size_def flip: sum_mset_sum_list)

lemma flush_tick_empty:
  assumes "healthy (dk_fs d)" and "fs_wf (dk_fs d)" and "''log'' \<in> set (dk_dirs d)"
    and "consumed_size (order (co_consumed c)) \<le> bufio_size" and "\<forall>k n. (k, VInt n) \<notin> set (order (co_consumed c))"
  shows "\<exists>d'. flush_tick order c d = Returns d' \<and> fs_content (dk_fs d') ConsumedFilePath = Some []"
proof -
  have "filepath_Dir TempConsumedFilePath \<in> set (dk_dirs d)" using assms(3) log_dirs(4) [of "[]"] by simp
  from disk_Create_ok [OF assms(1,2) this] obtain f d1 where f: "disk_Create TempConsumedFilePath d = (Inr f, d1)"
    "bufio_ok (bufio_NewWriter f) (dk_fs d1)" "stored (bufio_NewWriter f) (dk_fs d1) = []"
    "lookup_ino (dk_fs d1) TempConsumedFilePath = Some (f_ino f)" by blast
  have "bw_err (bufio_NewWriter f) = None" "length (bw_buf (bufio_NewWriter f)) + consumed_size (order (co_consumed c)) \<le> bufio_size"
    using assms(4) by (simp_all add: bufio_NewWriter_def)
  from write_consumed_fits [OF this assms(5)] obtain buf where
    w: "write_consumed (order (co_consumed c)) (bufio_NewWriter f) (dk_fs d1) = Returns ((bufio_NewWriter f)\<lparr>bw_buf := buf\<rparr>, dk_fs d1)"
    by blast
  have "healthy (dk_fs d1)" "inodes (dk_fs d1) (f_ino f) = []"
    using f(2,3) by (simp_all add: bufio_ok_def stored_def bufio_NewWriter_def)
  then show ?thesis
    using f(1,4) w
    by (simp add: flush_tick_def os_Rename_def file_Close_def) (simp add: fs_content_def lookup_ino_def)
qed

lemma flush_tick_panics:
  assumes "(k, VInt n) \<in> set (order (co_consumed c))"
  shows "flush_tick order c d = Panics"
proof -
  have "write_consumed (order (co_consumed c)) b fs = Panics" for b fs using assms write_consumed_panics by blast
  then show ?thesis by (simp add: flush_tick_def split: prod.splits sum.splits)
qed

section \<open>The token bucket is bounded\<close>

lemma token_tick_bounded:
  assumes "token_tick b (Returns b')" and "tb_tokens b \<le> tb_cap b" and "0 < tb_interval b"
  shows "tb_tokens b' \<le> tb_cap b' \<and> tb_cap b' = tb_cap b \<and> 0 < tb_interval b'"
  using assms by (auto elim!: token_tick.cases split: if_splits)

text \<open>
  The bucket does not return before its context is done: a caller that runs it in its own goroutine with a context
  that nobody else has, as \<^verbatim>\<open>newProduceHandler\<close> of \<^verbatim>\<open>broker/handler.go\<close> does, never goes on.
\<close>

theorem TokenBucket_never_returns:
  assumes "(\<lambda>b b'. token_tick b (Returns b'))\<^sup>*\<^sup>* b b'" and "tb_running b" and "\<not> tb_done b"
  shows "tb_running b' \<and> \<not> tb_done b'"
  using assms(1)
proof (induction rule: rtranclp_induct)
  case (step b1 b2)
  then show ?case by (auto elim!: token_tick.cases split: if_splits)
qed (use assms in simp)

section \<open>Properties\<close>

text \<open>
  C11: A topic is a queue. From the registration of a topic on, whatever is pushed to it and to other topics, pulled and
  acknowledged, in any order and with any faults of the disk: the messages pulled from the topic and then those that
  still wait in it, senders that wait at the full channel included, are the messages pushed to it, in their order; none is
  lost and none comes twice. The channel never holds more messages than its capacity.
\<close>

theorem core_fifo:
  assumes "NewCore stamp n d = Returns (c, d1)"
    and "core_run (CoreRegister t # evs) (c, d1, []) = Returns (c', d', out)"
  shows "pushed t evs = pulled t out @ queued t c' \<and>
    (\<exists>ch. co_topic2ch c' t = Some ch \<and> int (length (ch_buf ch)) \<le> n)"
proof -
  from assms(1) have c: "co_topic2ch c = Map.empty" "co_bufferSize c = n"
    by (auto simp: NewCore_def split: prod.splits sum.splits option.splits)
  with assms(2) have reg: "RegisterTopic t c = Returns (c\<lparr>co_topic2ch := [t \<mapsto> make_chan (nat n)],
      co_consumed := AList.update t (VInt 0) (co_consumed c)\<rparr>)" (is "_ = Returns ?c") and n: "0 \<le> n"
    by (auto simp: RegisterTopic_def bind_call_Returns split: if_splits)
  have ok: "core_ok ?c" "IsTopicExist t ?c" "queued t ?c = []"
    using c(2) n by (auto simp: core_ok_def IsTopicExist_def queued_def make_chan_ok make_chan_def chan_ok_def chan_items_def)
  have run: "core_run evs (?c, d1, []) = Returns (c', d', out)" using assms(2) reg by simp
  then have "step_ok t (?c, d1, []) (pushed t evs) (c', d', out)" by (rule core_run_ok [OF ok(1,2)])
  moreover have "co_bufferSize c' = n" using core_run_size [OF run] c(2) by simp
  moreover have "core_ok c'" "IsTopicExist t c'" using calculation(1) by (simp_all add: step_ok_def)
  then obtain ch where "co_topic2ch c' t = Some ch" "chan_ok ch" "int (ch_cap ch) = co_bufferSize c'"
    by (auto simp: core_ok_def IsTopicExist_def)
  ultimately show ?thesis
    using ok(3) by (auto simp: step_ok_def pulled_def chan_ok_def)
qed

definition empty_disk :: disk where
  "empty_disk = \<lparr>dk_dirs = [], dk_fs = empty_fs\<rparr>"

lemma NewCore_empty_disk: "\<exists>c d. NewCore ''1a'' n empty_disk = Returns (c, d) \<and> co_bufferSize c = n \<and> co_topic2ch c = Map.empty"
proof -
  obtain w d' where w: "newWriter ''1a'' False empty_disk = (Inr w, d')" "healthy (dk_fs d')"
    using newWriter_ok [of empty_disk "''1a''" False] by (auto simp: empty_disk_def bufio_ok_def)
  then show ?thesis by (simp add: NewCore_def disk_MkdirAll_def os_MkdirAll_def)
qed

theorem core_fifo_witness:
  "\<exists>c d c' d' out. NewCore ''1a'' 1 empty_disk = Returns (c, d) \<and>
     core_run (CoreRegister ''t'' # [CorePush ''1b'' ''t'' [1], CorePush ''1c'' ''t'' [2], CorePull ''t'']) (c, d, []) = Returns (c', d', out) \<and>
     [[1], [2]] = pulled ''t'' out @ queued ''t'' c'"
proof -
  obtain c d where c: "NewCore ''1a'' 1 empty_disk = Returns (c, d)" "co_bufferSize c = 1" "co_topic2ch c = Map.empty"
    using NewCore_empty_disk [of 1] by blast
  let ?evs = "[CorePush ''1b'' ''t'' [1], CorePush ''1c'' ''t'' [2], CorePull ''t'']"
  have "\<exists>c' d' out. core_run (CoreRegister ''t'' # ?evs) (c, d, []) = Returns (c', d', out)"
    using c(2,3) by (simp add: RegisterTopic_def Push_def Pull_def Let_def chan_send_def chan_recv_def make_chan_def split: prod.splits)
  then obtain c' d' out where r: "core_run (CoreRegister ''t'' # ?evs) (c, d, []) = Returns (c', d', out)" by blast
  from core_fifo [OF c(1) r] c(1) r show ?thesis by (auto simp: pushed_def)
qed

text \<open>
  C14: What the log holds. On a disk without faults, the lines written to a new log get the identities 0, 1, 2, ... of
  their topics, and as long as they fit the limit of a file, the message file followed by the buffer of the writer is
  exactly the text of the lines in their order: a crash loses at most the last 4096 bytes, although every write
  has returned.
\<close>

theorem core_log:
  assumes "healthy (dk_fs d)" and "fs_wf (dk_fs d)" and "CHR ''/'' \<notin> set stamp"
    and "length (log_text (\<lambda>_. 0) (map snd ls)) \<le> MaxLogFileSize"
  shows "\<exists>w\<^sub>0 d\<^sub>0 w' d' content. newWriter stamp False d = (Inr w\<^sub>0, d\<^sub>0) \<and>
    writes ls w\<^sub>0 d\<^sub>0 = ((map Inr (line_ids (\<lambda>_. 0) (map snd ls)), w'), d') \<and>
    fs_content (dk_fs d') (LogPath @ ''/'' @ stamp @ ''.msg'') = Some content \<and>
    content @ bw_buf (wt_buf w') = log_text (\<lambda>_. 0) (map snd ls) \<and> length (bw_buf (wt_buf w')) \<le> 4096"
proof -
  obtain w\<^sub>0 d\<^sub>0 where w: "newWriter stamp False d = (Inr w\<^sub>0, d\<^sub>0)" "bufio_ok (wt_buf w\<^sub>0) (dk_fs d\<^sub>0)" "\<not> wt_flushWhenWrite w\<^sub>0"
    "wt_size w\<^sub>0 = 0" "latestID w\<^sub>0 = (\<lambda>_. 0)" "stored (wt_buf w\<^sub>0) (dk_fs d\<^sub>0) = []"
    "lookup_ino (dk_fs d\<^sub>0) (LogPath @ ''/'' @ stamp @ ''.msg'') = Some (f_ino (bw_file (wt_buf w\<^sub>0)))"
    using newWriter_ok [OF assms(1-3), of False] by blast
  have "wt_size w\<^sub>0 + length (log_text (latestID w\<^sub>0) (map snd ls)) \<le> MaxLogFileSize" using assms(4) w(4,5) by simp
  from writes_ok [OF w(2,3) this] w(5,6) obtain w' d' where "writes ls w\<^sub>0 d\<^sub>0 = ((map Inr (line_ids (\<lambda>_. 0) (map snd ls)), w'), d')"
    "bufio_ok (wt_buf w') (dk_fs d')" "stored (wt_buf w') (dk_fs d') = log_text (\<lambda>_. 0) (map snd ls)"
    "same_file (wt_buf w\<^sub>0) (dk_fs d\<^sub>0) (wt_buf w') (dk_fs d')" by auto
  with w(1,7) show ?thesis
    by (intro exI [of _ w\<^sub>0] exI [of _ d\<^sub>0] exI [of _ w'] exI [of _ d'])
      (simp add: fs_content_def same_file_def stored_def bufio_ok_def bufio_size_def)
qed

theorem core_log_witness:
  "\<exists>w\<^sub>0 d\<^sub>0 w' d' content. newWriter ''1a'' False empty_disk = (Inr w\<^sub>0, d\<^sub>0) \<and>
    writes [(''1b'', \<lparr>ln_topic = ''a'', ln_data = [7]\<rparr>), (''1c'', \<lparr>ln_topic = ''b'', ln_data = []\<rparr>), (''1d'', \<lparr>ln_topic = ''a'', ln_data = [8]\<rparr>)]
      w\<^sub>0 d\<^sub>0 = (([Inr 0, Inr 0, Inr 1], w'), d') \<and>
    fs_content (dk_fs d') ''log/1a.msg'' = Some content \<and>
    content @ bw_buf (wt_buf w') = str_bytes ''a 0 '' @ [7] @ str_bytes [CHR 0x0A] @ str_bytes ''b 0 '' @ str_bytes [CHR 0x0A] @
      str_bytes ''a 1 '' @ [8] @ str_bytes [CHR 0x0A]"
proof -
  let ?ls = "[(''1b'', \<lparr>ln_topic = ''a'', ln_data = [7]\<rparr>), (''1c'', \<lparr>ln_topic = ''b'', ln_data = []\<rparr>), (''1d'', \<lparr>ln_topic = ''a'', ln_data = [8]\<rparr>)]"
  have digits: "itoa 0 = ''0''" "itoa 1 = ''1''" by code_simp+
  have logged: "log_text (\<lambda>_. 0) (map snd ?ls) = str_bytes ''a 0 '' @ [7] @ str_bytes [CHR 0x0A] @ str_bytes ''b 0 '' @ str_bytes [CHR 0x0A] @
      str_bytes ''a 1 '' @ [8] @ str_bytes [CHR 0x0A]"
    using digits by (simp add: log_text_def msg_line_def str_bytes_def)
  have "length (log_text (\<lambda>_. 0) (map snd ?ls)) \<le> MaxLogFileSize" unfolding logged by (simp add: str_bytes_def MaxLogFileSize_def)
  from core_log [OF _ _ _ this, of empty_disk "''1a''"] logged show ?thesis by (simp add: empty_disk_def LogPath_def) blast
qed

text \<open>
  The log never gets a second file. The index file is created in a directory that nobody makes; once the size of the
  log has reached the limit, every later write returns an error, with any faults and any lines.
\<close>

theorem log_limit_is_final:
  assumes "CHR ''/'' \<notin> set stamp" and "''log/log'' \<notin> set (dk_dirs d)"
    and "newWriter stamp flushWhenWrite d = (Inr w\<^sub>0, d\<^sub>0)" and "writes ls w\<^sub>0 d\<^sub>0 = ((rs, w), d\<^sub>1)" and "MaxLogFileSize \<le> wt_size w"
  shows "list_all isl (fst (fst (writes ls' w d\<^sub>1)))"
proof -
  have name: "f_name (wt_fd w\<^sub>0) = LogPath @ ''/'' @ stamp @ ''.msg''" and dirs: "dk_dirs d\<^sub>0 = List.insert LogPath (dk_dirs d)"
    using assms(3)
    by (auto simp: newWriter_def newMsgFile_def disk_Create_def disk_MkdirAll_def os_Create_def
        split: prod.splits sum.splits option.splits if_splits)
  have none: "filepath_Dir (LogPath @ ''/'' @ f_name (wt_fd w\<^sub>0) @ ''.idx'') \<notin> set (dk_dirs d\<^sub>0)"
    unfolding name log_dirs(2) [OF assms(1)] using assms(2) dirs by (simp add: LogPath_def)
  note step = writes_no_dir [OF this assms(4)]
  obtain rs' w' d' where "writes ls' w d\<^sub>1 = ((rs', w'), d')" by (metis prod.exhaust)
  with writes_no_dir [of w d\<^sub>1 ls' rs' w' d'] step none assms(5) show ?thesis by simp
qed

theorem log_limit_is_final_witness:
  "\<exists>w d\<^sub>1. MaxLogFileSize \<le> wt_size w \<and> list_all isl (fst (fst (writes [(''1b'', \<lparr>ln_topic = ''t'', ln_data = [1]\<rparr>)] w d\<^sub>1)))"
proof -
  let ?l = "\<lparr>ln_topic = ''t'', ln_data = replicate (MaxLogFileSize - 5) 0\<rparr>"
  obtain w\<^sub>0 d\<^sub>0 where w: "newWriter ''1a'' False empty_disk = (Inr w\<^sub>0, d\<^sub>0)" "bufio_ok (wt_buf w\<^sub>0) (dk_fs d\<^sub>0)" "\<not> wt_flushWhenWrite w\<^sub>0"
    "wt_size w\<^sub>0 = 0" "latestID w\<^sub>0 = (\<lambda>_. 0)"
    using newWriter_ok [of empty_disk "''1a''" False] by (auto simp: empty_disk_def)
  have "itoa 0 = ''0''" by code_simp
  then have len: "length (msg_line ?l 0) = MaxLogFileSize" by (simp add: msg_line_def str_bytes_def MaxLogFileSize_def)
  obtain w1 d1 where w1: "writer_write ''1a'' ?l w\<^sub>0 d\<^sub>0 = ((Inr 0, w1), d1)" "wt_size w1 = MaxLogFileSize"
    using write_ok [OF w(2,3), of ?l "''1a''"] w(4,5) len by auto
  then have "writes [(''1a'', ?l)] w\<^sub>0 d\<^sub>0 = (([Inr 0], w1), d1)" by simp
  from log_limit_is_final [OF _ _ w(1) this, of "[(''1b'', \<lparr>ln_topic = ''t'', ln_data = [1]\<rparr>)]"] w1(2) show ?thesis
    by (intro exI [of _ w1] exI [of _ d1]) (simp add: empty_disk_def)
qed

text \<open>
  The positions of the consumers are not stored. A tick of the flusher panics while a registered topic has no
  acknowledgement, because the number that the registration stored is of another type; when every topic has one and the lines
  fit the buffer of the writer, the tick succeeds and leaves an empty file, because the buffer is not flushed.
\<close>

theorem flush_stores_nothing:
  assumes "healthy (dk_fs d)" and "fs_wf (dk_fs d)" and "''log'' \<in> set (dk_dirs d)"
    and "mset (order (co_consumed c)) = mset (co_consumed c)" and "consumed_size (co_consumed c) \<le> 4096"
  shows "if \<exists>k n. (k, VInt n) \<in> set (co_consumed c) then flush_tick order c d = Panics
    else \<exists>d'. flush_tick order c d = Returns d' \<and> fs_content (dk_fs d') ConsumedFilePath = Some []"
proof -
  have same: "set (order (co_consumed c)) = set (co_consumed c)" using assms(4) by (rule mset_eq_setD)
  have "consumed_size (order (co_consumed c)) \<le> bufio_size"
    using consumed_size_mset [OF assms(4)] assms(5) by (simp add: bufio_size_def)
  then show ?thesis
    using flush_tick_empty [OF assms(1-3), of order c] flush_tick_panics [of _ _ order c d] same by auto
qed

theorem flush_stores_nothing_witness:
  "\<exists>c c'. (\<exists>d. NewCore ''1a'' 1 empty_disk = Returns (c, d)) \<and> RegisterTopic ''t'' c = Returns c' \<and>
    flush_tick (\<lambda>kvs. kvs) c' \<lparr>dk_dirs = [''log''], dk_fs = empty_fs\<rparr> = Panics \<and>
    (\<exists>d'. flush_tick (\<lambda>kvs. kvs) (UpdateConsumed ''t'' 7 c') \<lparr>dk_dirs = [''log''], dk_fs = empty_fs\<rparr> = Returns d' \<and>
       fs_content (dk_fs d') ConsumedFilePath = Some [])"
proof -
  obtain c d where c: "NewCore ''1a'' 1 empty_disk = Returns (c, d)" "co_bufferSize c = 1" "co_topic2ch c = Map.empty"
    using NewCore_empty_disk [of 1] by blast
  then have none: "co_consumed c = []" by (auto simp: NewCore_def split: prod.splits sum.splits option.splits)
  let ?d = "\<lparr>dk_dirs = [''log''], dk_fs = empty_fs\<rparr>"
  let ?c = "c\<lparr>co_topic2ch := [''t'' \<mapsto> make_chan 1], co_consumed := [(''t'', VInt 0)]\<rparr>"
  have reg: "RegisterTopic ''t'' c = Returns ?c" using c(2,3) none by (simp add: RegisterTopic_def)
  have "itoa 7 = ''7''" by code_simp
  then have ack: "co_consumed (UpdateConsumed ''t'' 7 ?c) = [(''t'', VUint64 7)]" "consumed_size [(''t'', VUint64 7)] \<le> 4096"
    by (simp_all add: UpdateConsumed_def consumed_size_def consumed_line_def str_bytes_def)
  have "flush_tick (\<lambda>kvs. kvs) ?c ?d = Panics"
    using flush_stores_nothing [of ?d "\<lambda>kvs. kvs" ?c] by (auto simp: consumed_size_def split: if_splits)
  moreover have "\<exists>d'. flush_tick (\<lambda>kvs. kvs) (UpdateConsumed ''t'' 7 ?c) ?d = Returns d' \<and> fs_content (dk_fs d') ConsumedFilePath = Some []"
    using flush_stores_nothing [of ?d "\<lambda>kvs. kvs" "UpdateConsumed ''t'' 7 ?c"] ack by simp
  ultimately show ?thesis using c(1) reg by blast
qed

end
