(* ===== verification/Handlers.thy ===== *)
theory Handlers
  imports BrokerCore
begin

text \<open>
  The stream handlers of \<^verbatim>\<open>broker/handler.go\<close> over the core. Each handler runs two goroutines on one stream; a step of a
  goroutine goes to the next point where it may wait: the stream, a channel or the head of its loop. What the peer sends
  and whether a send succeeds are inputs of the steps, and the state keeps what went over the stream. The code
  compares and fills the field \<^verbatim>\<open>AckID\<close>, a \<^verbatim>\<open>uint64\<close> of the generated types, with the constant \<open>-1\<close>, which the compiler
  rejects; the model reads it as the 64-bit word \<open>-1\<close>, the largest value of the field.
\<close>

section \<open>State\<close>

record produce_request =
  pq_InitTopic :: string
  pq_MID :: u64
  pq_Msg :: bytes

record produce_response =
  pp_MID :: u64
  pp_AckID :: u64
  pp_ErrorCode :: int

record consume_request =
  cq_InitTopic :: string
  cq_MID :: u64
  cq_AckID :: u64

record consume_response =
  cp_MID :: u64
  cp_Msg :: bytes
  cp_ErrorCode :: int

definition no_ack :: u64 where
  "no_ack = -1"

definition BucketSize :: nat where
  "BucketSize = 1024"

text \<open>In nanoseconds.\<close>

definition TokenGenerateInterval :: int where
  "TokenGenerateInterval = 20 * 1000"

definition MaxWaiting :: nat where
  "MaxWaiting = 100"

text \<open>
  Where the goroutine \<^verbatim>\<open>receive\<close> of a producer stands: at the head of its loop, in \<^verbatim>\<open>Recv\<close>, or with a message that it hands to
  the core while so many others wait at the channel before it, its own included; \<open>0\<close> when it is through.
\<close>

datatype produce_pc = PLoop | PRecv | PPush u64 nat | PEnd

record produce_handler =
  ph_done :: bool
  ph_topic :: string
  ph_tokens :: nat
  ph_closed :: bool
  ph_latestMID :: u64
  ph_received :: "produce_request list"
  ph_sent :: "produce_response list"
  ph_sending :: bool
  ph_receiving :: produce_pc

text \<open>The goroutines of a consumer. While a value waits to be put into the channel \<^verbatim>\<open>waiting\<close>, its sender is \<^verbatim>\<open>receive\<close>.\<close>

datatype consume_pc = CLoop | CRecv | CEnd

datatype answer_pc = AWait | APull u64 | AEnd

record consumer_handler =
  hc_done :: bool
  hc_topic :: string
  hc_waiting :: "u64 channel"
  hc_closed :: bool
  hc_latestAcked :: u64
  hc_received :: "consume_request list"
  hc_sent :: "consume_response list"
  hc_receiving :: consume_pc
  hc_sending :: answer_pc

section \<open>The producer side\<close>

text \<open>The bucket as \<^verbatim>\<open>newProduceHandler\<close> makes it, and the handler it would return.\<close>

definition new_bucket :: token_bucket where
  "new_bucket = \<lparr>tb_done = False, tb_tokens = 0, tb_cap = BucketSize, tb_updates = [], tb_interval = TokenGenerateInterval, tb_running = True\<rparr>"

definition fresh_produce :: "string \<Rightarrow> nat \<Rightarrow> produce_handler" where
  "fresh_produce topic tokens =
     \<lparr>ph_done = False, ph_topic = topic, ph_tokens = tokens, ph_closed = False, ph_latestMID = 0, ph_received = [], ph_sent = [],
      ph_sending = False, ph_receiving = PEnd\<rparr>"

text \<open>The constructor runs the bucket itself and goes on when it has returned.\<close>

inductive newProduceHandler :: "string \<Rightarrow> produce_handler \<Rightarrow> bool" where
  "(\<lambda>b b'. token_tick b (Returns b'))\<^sup>*\<^sup>* new_bucket b \<Longrightarrow> \<not> tb_running b \<Longrightarrow> newProduceHandler topic (fresh_produce topic (tb_tokens b))"

text \<open>\<^verbatim>\<open>start\<close> lets the two goroutines run.\<close>

definition produce_start :: "produce_handler \<Rightarrow> produce_handler" where
  "produce_start h = h\<lparr>ph_sending := True, ph_receiving := PLoop\<rparr>"

text \<open>One turn of \<^verbatim>\<open>send\<close>: a closed channel still hands out its tokens.\<close>

definition produce_send :: "bool \<Rightarrow> produce_handler \<Rightarrow> produce_handler" where
  "produce_send ok h =
     (if \<not> ph_sending h then h
      else if ph_tokens h = 0 then (if ph_closed h then h\<lparr>ph_sending := False\<rparr> else h)
      else let h1 = h\<lparr>ph_tokens := ph_tokens h - 1\<rparr>
           in if ph_done h1 then h1\<lparr>ph_sending := False\<rparr>
              else h1\<lparr>ph_sent := ph_sent h1 @ [\<lparr>pp_MID = ph_latestMID h1, pp_AckID = no_ack, pp_ErrorCode = -1\<rparr>],
                      ph_latestMID := ph_latestMID h1 + 1, ph_sending := ok\<rparr>)"

text \<open>How many receives a value just sent to the channel of a topic needs before its sender goes on.\<close>

definition behind :: "string \<Rightarrow> core \<Rightarrow> nat" where
  "behind topic c = (case co_topic2ch c topic of None \<Rightarrow> 1 | Some ch \<Rightarrow> length (ch_senders ch))"

definition produce_receive ::
  "produce_request option \<Rightarrow> bool \<Rightarrow> string \<Rightarrow> produce_handler \<Rightarrow> core \<Rightarrow> disk \<Rightarrow> produce_handler \<times> core \<times> disk" where
  "produce_receive req ok stamp h c d =
     (case ph_receiving h of
        PLoop \<Rightarrow> (h\<lparr>ph_receiving := if ph_done h then PEnd else PRecv\<rparr>, c, d)
      | PRecv \<Rightarrow>
          (case req of
             None \<Rightarrow> (h\<lparr>ph_receiving := PEnd\<rparr>, c, d)
           | Some resp \<Rightarrow>
               (case Push stamp (ph_topic h) (pq_Msg resp) c d of
                  (c1, d1) \<Rightarrow>
                    (h\<lparr>ph_received := ph_received h @ [resp], ph_receiving := PPush (pq_MID resp) (behind (ph_topic h) c1)\<rparr>, c1, d1)))
      | PPush mid n \<Rightarrow>
          (if n = 0
           then (h\<lparr>ph_sent := ph_sent h @ [\<lparr>pp_MID = 0, pp_AckID = mid, pp_ErrorCode = -1\<rparr>],
                   ph_receiving := if ok then PLoop else PEnd\<rparr>, c, d)
           else (h, c, d))
      | PEnd \<Rightarrow> (h, c, d))"

text \<open>Closing a channel twice panics. The update channel is closed with it.\<close>

definition produce_close :: "produce_handler \<Rightarrow> produce_handler call" where
  "produce_close h = (if ph_closed h then Panics else Returns (h\<lparr>ph_done := True, ph_closed := True\<rparr>))"

text \<open>A receive from the channel of a topic lets the senders that wait there move up.\<close>

definition move_up :: "string \<Rightarrow> produce_handler \<Rightarrow> produce_handler" where
  "move_up topic h =
     (case ph_receiving h of
        PPush mid (Suc n) \<Rightarrow> (if ph_topic h = topic then h\<lparr>ph_receiving := PPush mid n\<rparr> else h)
      | _ \<Rightarrow> h)"

section \<open>The consumer side\<close>

definition newConsumerHandler :: "string \<Rightarrow> consumer_handler" where
  "newConsumerHandler topic =
     \<lparr>hc_done = False, hc_topic = topic, hc_waiting = make_chan MaxWaiting, hc_closed = False, hc_latestAcked = 0,
      hc_received = [], hc_sent = [], hc_receiving = CEnd, hc_sending = AEnd\<rparr>"

definition consume_start :: "consumer_handler \<Rightarrow> consumer_handler" where
  "consume_start h = h\<lparr>hc_receiving := CLoop, hc_sending := AWait\<rparr>"

definition consume_receive :: "consume_request option \<Rightarrow> consumer_handler \<Rightarrow> core \<Rightarrow> (consumer_handler \<times> core) call" where
  "consume_receive req h c =
     (if ch_senders (hc_waiting h) \<noteq> [] then Returns (h, c)
      else case hc_receiving h of
        CLoop \<Rightarrow> Returns (h\<lparr>hc_receiving := if hc_done h then CEnd else CRecv\<rparr>, c)
      | CRecv \<Rightarrow>
          (case req of
             None \<Rightarrow> Returns (h\<lparr>hc_receiving := CEnd\<rparr>, c)
           | Some resp \<Rightarrow>
               (let h1 = h\<lparr>hc_received := hc_received h @ [resp], hc_receiving := CLoop\<rparr>
                in if cq_AckID resp \<noteq> no_ack
                   then Returns (h1\<lparr>hc_latestAcked := cq_AckID resp\<rparr>, UpdateConsumed (hc_topic h1) (cq_AckID resp) c)
                   else if hc_closed h1 then Panics
                   else Returns (h1\<lparr>hc_waiting := chan_send (cq_MID resp) (hc_waiting h1)\<rparr>, c)))
      | CEnd \<Rightarrow> Returns (h, c))"

text \<open>
  \<^verbatim>\<open>send\<close>: it takes an identity, and with the next step the message for it. The first part of the result says whether it took
  a message from the core.
\<close>

definition consume_send :: "bool \<Rightarrow> consumer_handler \<Rightarrow> core \<Rightarrow> (bool \<times> consumer_handler \<times> core) call" where
  "consume_send ok h c =
     (case hc_sending h of
        AWait \<Rightarrow>
          (case chan_recv (hc_waiting h) of
             None \<Rightarrow> Returns (False, h\<lparr>hc_sending := if hc_closed h then AEnd else AWait\<rparr>, c)
           | Some (mid, ch) \<Rightarrow> Returns (False, h\<lparr>hc_waiting := ch, hc_sending := if hc_done h then AEnd else APull mid\<rparr>, c))
      | APull mid \<Rightarrow>
          (case Pull (hc_topic h) c of
             Returns (msg, c1) \<Rightarrow>
               Returns (True, h\<lparr>hc_sent := hc_sent h @ [\<lparr>cp_MID = mid, cp_Msg = msg, cp_ErrorCode = -1\<rparr>],
                                hc_sending := if ok then AWait else AEnd\<rparr>, c1)
           | Blocks \<Rightarrow> Returns (False, h, c)
           | Panics \<Rightarrow> Panics)
      | AEnd \<Rightarrow> Returns (False, h, c))"

text \<open>A goroutine that waits to send to a channel panics when it is closed.\<close>

definition consume_close :: "consumer_handler \<Rightarrow> consumer_handler call" where
  "consume_close h =
     (if hc_closed h \<or> ch_senders (hc_waiting h) \<noteq> [] then Panics else Returns (h\<lparr>hc_done := True, hc_closed := True\<rparr>))"

section \<open>A producer, a consumer and the core\<close>

record handlers =
  hs_core :: core
  hs_disk :: disk
  hs_out :: "(string \<times> bytes) list"
  hs_prod :: produce_handler
  hs_cons :: consumer_handler

datatype handler_event =
  HToken
| HProduceSend bool
| HProduceReceive "produce_request option" bool string
| HProduceClose
| HConsumeReceive "consume_request option"
| HConsumeSend bool
| HConsumeClose
| HCore core_event

text \<open>Which topic an event of the core took a message from.\<close>

definition took :: "core_event \<Rightarrow> core \<Rightarrow> string option" where
  "took ev c = (case ev of CorePull topic \<Rightarrow> (case Pull topic c of Returns _ \<Rightarrow> Some topic | _ \<Rightarrow> None) | _ \<Rightarrow> None)"

text \<open>
  The tokens come as if the bucket ran beside the handler, while its channel is open and has room.
\<close>

fun handler_exec :: "handler_event \<Rightarrow> handlers \<Rightarrow> handlers call" where
  "handler_exec HToken s =
     Returns (if ph_closed (hs_prod s) \<or> BucketSize \<le> ph_tokens (hs_prod s) then s
              else s\<lparr>hs_prod := (hs_prod s)\<lparr>ph_tokens := Suc (ph_tokens (hs_prod s))\<rparr>\<rparr>)"
| "handler_exec (HProduceSend ok) s = Returns (s\<lparr>hs_prod := produce_send ok (hs_prod s)\<rparr>)"
| "handler_exec (HProduceReceive req ok stamp) s =
     (case produce_receive req ok stamp (hs_prod s) (hs_core s) (hs_disk s) of
        (h, c, d) \<Rightarrow> Returns (s\<lparr>hs_prod := h, hs_core := c, hs_disk := d\<rparr>))"
| "handler_exec HProduceClose s = bind_call (produce_close (hs_prod s)) (\<lambda>h. Returns (s\<lparr>hs_prod := h\<rparr>))"
| "handler_exec (HConsumeReceive req) s =
     bind_call (consume_receive req (hs_cons s) (hs_core s)) (\<lambda>(h, c). Returns (s\<lparr>hs_cons := h, hs_core := c\<rparr>))"
| "handler_exec (HConsumeSend ok) s =
     bind_call (consume_send ok (hs_cons s) (hs_core s))
       (\<lambda>(got, h, c). Returns (s\<lparr>hs_cons := h, hs_core := c,
          hs_prod := if got then move_up (hc_topic h) (hs_prod s) else hs_prod s\<rparr>))"
| "handler_exec HConsumeClose s = bind_call (consume_close (hs_cons s)) (\<lambda>h. Returns (s\<lparr>hs_cons := h\<rparr>))"
| "handler_exec (HCore ev) s =
     bind_call (core_exec ev (hs_core s, hs_disk s, hs_out s))
       (\<lambda>(c, d, out). Returns (s\<lparr>hs_core := c, hs_disk := d, hs_out := out,
          hs_prod := (case took ev (hs_core s) of Some topic \<Rightarrow> move_up topic (hs_prod s) | None \<Rightarrow> hs_prod s)\<rparr>))"

fun handler_run :: "handler_event list \<Rightarrow> handlers \<Rightarrow> handlers call" where
  "handler_run [] s = Returns s"
| "handler_run (ev # evs) s = bind_call (handler_exec ev s) (handler_run evs)"

section \<open>Invariants\<close>

text \<open>What the peer of a stream has asked for, and the values that are still inside the handler.\<close>

definition asked :: "consumer_handler \<Rightarrow> u64 list" where
  "asked h = map cq_MID (filter (\<lambda>q. cq_AckID q = no_ack) (hc_received h))"

definition acks :: "consumer_handler \<Rightarrow> u64 list" where
  "acks h = filter (\<lambda>a. a \<noteq> no_ack) (map cq_AckID (hc_received h))"

definition open_requests :: "consumer_handler \<Rightarrow> u64 list" where
  "open_requests h = (case hc_sending h of APull mid \<Rightarrow> [mid] | _ \<Rightarrow> []) @ chan_items (hc_waiting h)"

definition open_message :: "produce_handler \<Rightarrow> u64 list" where
  "open_message h = (case ph_receiving h of PPush mid n \<Rightarrow> [mid] | _ \<Rightarrow> [])"

definition acknowledged :: "produce_handler \<Rightarrow> u64 list" where
  "acknowledged h = filter (\<lambda>a. a \<noteq> no_ack) (map pp_AckID (ph_sent h))"

definition consumer_inv :: "consumer_handler \<Rightarrow> bool" where
  "consumer_inv h \<longleftrightarrow> chan_ok (hc_waiting h) \<and> hc_latestAcked h = last (0 # acks h) \<and> (hc_closed h \<longrightarrow> hc_done h) \<and>
     (\<not> hc_done h \<longrightarrow> asked h = map cp_MID (hc_sent h) @ open_requests h)"

definition producer_inv :: "produce_handler \<Rightarrow> bool" where
  "producer_inv h \<longleftrightarrow>
     acknowledged h @ filter (\<lambda>a. a \<noteq> no_ack) (open_message h) = filter (\<lambda>a. a \<noteq> no_ack) (map pq_MID (ph_received h))"

definition still_waiting :: "produce_handler \<Rightarrow> nat" where
  "still_waiting h = (case ph_receiving h of PPush mid n \<Rightarrow> n | _ \<Rightarrow> 0)"

definition handlers_inv :: "string \<Rightarrow> nat \<Rightarrow> handlers \<Rightarrow> bool" where
  "handlers_inv t k s \<longleftrightarrow> ph_topic (hs_prod s) = t \<and> hc_topic (hs_cons s) = t \<and> producer_inv (hs_prod s) \<and> consumer_inv (hs_cons s) \<and>
     (\<exists>ch. co_topic2ch (hs_core s) t = Some ch \<and> chan_ok ch \<and> ch_cap ch = k \<and> length (ch_senders ch) = still_waiting (hs_prod s) \<and>
        map pq_Msg (ph_received (hs_prod s)) = map cp_Msg (hc_sent (hs_cons s)) @ map bx_data (chan_items ch))"

text \<open>The handlers are the only ones that use the topic.\<close>

fun elsewhere :: "string \<Rightarrow> handler_event \<Rightarrow> bool" where
  "elsewhere t (HCore (CorePush stamp topic msg)) \<longleftrightarrow> topic \<noteq> t"
| "elsewhere t (HCore (CorePull topic)) \<longleftrightarrow> topic \<noteq> t"
| "elsewhere t ev \<longleftrightarrow> True"

lemma chan_recv_senders: "chan_recv c = Some (x, c') \<Longrightarrow> ch_senders c' = tl (ch_senders c)"
  by (cases "ch_buf c"; cases "ch_senders c") (auto simp: chan_recv_def)

lemma chan_recv_none: "chan_ok c \<Longrightarrow> chan_recv c = None \<Longrightarrow> chan_items c = []"
  using chan.deq_none by blast

lemma produce_send_inv:
  "producer_inv h \<Longrightarrow> producer_inv (produce_send ok h)" "ph_topic (produce_send ok h) = ph_topic h"
  "ph_received (produce_send ok h) = ph_received h" "still_waiting (produce_send ok h) = still_waiting h"
  by (auto simp: produce_send_def producer_inv_def acknowledged_def open_message_def still_waiting_def Let_def)

lemma produce_receive_quiet:
  assumes "producer_inv h" and "ph_receiving h \<noteq> PRecv \<or> req = None" and "produce_receive req ok stamp h c d = (h', c', d')"
  shows "c' = c \<and> d' = d \<and> producer_inv h' \<and> ph_topic h' = ph_topic h \<and> ph_received h' = ph_received h \<and>
    still_waiting h' = still_waiting h"
proof (cases "ph_receiving h")
  case (PPush mid n)
  with assms(1,3) show ?thesis
    by (cases "n = 0") (auto simp: produce_receive_def producer_inv_def acknowledged_def open_message_def still_waiting_def)
qed (use assms in \<open>auto simp: produce_receive_def producer_inv_def acknowledged_def open_message_def still_waiting_def\<close>)

lemma move_up_inv:
  "producer_inv h \<Longrightarrow> producer_inv (move_up t h)" "ph_topic (move_up t h) = ph_topic h" "ph_received (move_up t h) = ph_received h"
  "still_waiting (move_up t h) = (if ph_topic h = t then still_waiting h - 1 else still_waiting h)"
  by (auto simp: move_up_def producer_inv_def acknowledged_def open_message_def still_waiting_def split: produce_pc.splits nat.splits)

lemma consume_receive_inv:
  assumes "consumer_inv h" and "consume_receive req h c = Returns (h', c')"
  shows "consumer_inv h' \<and> hc_topic h' = hc_topic h \<and> hc_sent h' = hc_sent h \<and> co_topic2ch c' = co_topic2ch c"
proof (cases "ch_senders (hc_waiting h) = [] \<and> hc_receiving h = CRecv \<and> req \<noteq> None")
  case True
  then obtain resp where r: "req = Some resp" "ch_senders (hc_waiting h) = []" "hc_receiving h = CRecv" by auto
  show ?thesis
  proof (cases "cq_AckID resp = no_ack")
    case True
    with r assms show ?thesis
      by (simp add: consume_receive_def consumer_inv_def asked_def acks_def open_requests_def Let_def
          split: if_splits) (auto simp: chan.enq_items chan.enq_ok)
  next
    case False
    with r assms show ?thesis
      by (simp add: consume_receive_def consumer_inv_def asked_def acks_def open_requests_def UpdateConsumed_def Let_def) auto
  qed
next
  case False
  then have "c' = c \<and> (h' = h \<or> (\<exists>pc. h' = h\<lparr>hc_receiving := pc\<rparr>))"
    using assms(2) by (auto simp: consume_receive_def split: if_splits consume_pc.splits)
  then show ?thesis using assms(1) by (auto simp: consumer_inv_def asked_def acks_def open_requests_def)
qed

lemma consume_send_inv:
  assumes "consumer_inv h" and "consume_send ok h c = Returns (got, h', c')"
  shows "consumer_inv h' \<and> hc_topic h' = hc_topic h \<and>
    (if got then \<exists>msg. Pull (hc_topic h) c = Returns (msg, c') \<and> map cp_Msg (hc_sent h') = map cp_Msg (hc_sent h) @ [msg]
     else c' = c \<and> hc_sent h' = hc_sent h)"
proof (cases "hc_sending h")
  case AWait
  show ?thesis
  proof (cases "chan_recv (hc_waiting h)")
    case None
    with AWait assms show ?thesis
      by (auto simp: consume_send_def consumer_inv_def asked_def acks_def open_requests_def dest: chan_recv_none)
  next
    case (Some x)
    obtain mid ch where x: "x = (mid, ch)" by (cases x)
    have ok: "chan_ok (hc_waiting h)" using assms(1) by (simp add: consumer_inv_def)
    have recv: "chan_recv (hc_waiting h) = Some (mid, ch)" using Some x by simp
    note chan.deq_items [OF ok recv] chan.deq_ok [OF ok recv]
    with AWait Some x assms show ?thesis
      by (auto simp: consume_send_def consumer_inv_def asked_def acks_def open_requests_def)
  qed
next
  case (APull mid)
  show ?thesis
  proof (cases "Pull (hc_topic h) c")
    case (Returns x)
    obtain msg c1 where x: "x = (msg, c1)" by (cases x)
    with APull Returns assms(2) have "got" "c1 = c'"
      "h' = h\<lparr>hc_sent := hc_sent h @ [\<lparr>cp_MID = mid, cp_Msg = msg, cp_ErrorCode = -1\<rparr>], hc_sending := if ok then AWait else AEnd\<rparr>"
      by (simp_all add: consume_send_def)
    with APull Returns x assms(1) show ?thesis
      by (simp add: consumer_inv_def asked_def acks_def open_requests_def)
  qed (use APull assms in \<open>auto simp: consume_send_def\<close>)
next
  case AEnd
  with assms show ?thesis by (auto simp: consume_send_def)
qed

text \<open>The handlers keep the invariant.\<close>

lemma handlers_inv_core:
  assumes inv: "handlers_inv t k s" and ev: "elsewhere t (HCore ev)" and run: "handler_exec (HCore ev) s = Returns s'"
  shows "handlers_inv t k s'"
proof -
  obtain c d out where e: "core_exec ev (hs_core s, hs_disk s, hs_out s) = Returns (c, d, out)"
    and s': "s' = s\<lparr>hs_core := c, hs_disk := d, hs_out := out,
      hs_prod := (case took ev (hs_core s) of Some topic \<Rightarrow> move_up topic (hs_prod s) | None \<Rightarrow> hs_prod s)\<rparr>"
    using run by (auto simp: bind_call_Returns)
  obtain ch where ch: "co_topic2ch (hs_core s) t = Some ch" using inv by (auto simp: handlers_inv_def)
  have "co_topic2ch c t = Some ch"
    using e ev ch
    by (cases ev) (auto simp: bind_call_Returns RegisterTopic_def Push_def Pull_def UpdateConsumed_def Let_def
        split: if_splits prod.splits option.splits call.splits)
  moreover have "took ev (hs_core s) \<noteq> Some t"
    using ev by (cases ev) (auto simp: took_def split: call.splits)
  ultimately show ?thesis
    using inv ch by (auto simp: handlers_inv_def s' move_up_inv split: option.splits)
qed

lemma handlers_inv_produce:
  assumes inv: "handlers_inv t k s" and run: "handler_exec (HProduceReceive req ok stamp) s = Returns s'"
  shows "handlers_inv t k s'"
proof -
  let ?h = "hs_prod s"
  obtain ch where ch: "co_topic2ch (hs_core s) t = Some ch" "chan_ok ch \<and> ch_cap ch = k" "length (ch_senders ch) = still_waiting ?h"
    "map pq_Msg (ph_received ?h) = map cp_Msg (hc_sent (hs_cons s)) @ map bx_data (chan_items ch)" and t: "ph_topic ?h = t"
    using inv by (auto simp: handlers_inv_def)
  show ?thesis
  proof (cases "ph_receiving ?h = PRecv \<and> req \<noteq> None")
    case True
    then obtain resp where r: "ph_receiving ?h = PRecv" "req = Some resp" by auto
    obtain c d where p: "Push stamp t (pq_Msg resp) (hs_core s) (hs_disk s) = (c, d)" by (metis prod.exhaust)
    then obtain bx where bx: "co_topic2ch c t = Some (chan_send bx ch)" "bx_data bx = pq_Msg resp"
      using ch(1) by (auto simp: Push_def Let_def split: prod.splits)
    have s': "s' = s\<lparr>hs_prod := ?h\<lparr>ph_received := ph_received ?h @ [resp], ph_receiving := PPush (pq_MID resp) (behind t c)\<rparr>,
        hs_core := c, hs_disk := d\<rparr>"
      using run r t p by (simp add: produce_receive_def)
    have "producer_inv (hs_prod s')"
      using inv r by (simp add: handlers_inv_def s' producer_inv_def acknowledged_def open_message_def)
    then show ?thesis
      using inv ch bx t by (auto simp: handlers_inv_def s' behind_def still_waiting_def chan.enq_items chan.enq_ok)
  next
    case False
    obtain h c d where e: "produce_receive req ok stamp ?h (hs_core s) (hs_disk s) = (h, c, d)" by (metis prod.exhaust)
    have "producer_inv ?h" using inv by (simp add: handlers_inv_def)
    note produce_receive_quiet [OF this _ e]
    then show ?thesis using inv run e False by (auto simp: handlers_inv_def)
  qed
qed

lemma handlers_inv_consume:
  assumes inv: "handlers_inv t k s" and run: "handler_exec (HConsumeSend ok) s = Returns s'"
  shows "handlers_inv t k s'"
proof -
  let ?h = "hs_cons s"
  obtain got h c where e: "consume_send ok ?h (hs_core s) = Returns (got, h, c)"
    and s': "s' = s\<lparr>hs_cons := h, hs_core := c, hs_prod := if got then move_up (hc_topic h) (hs_prod s) else hs_prod s\<rparr>"
    using run by (auto simp: bind_call_Returns)
  have ci: "consumer_inv ?h" and t: "hc_topic ?h = t" using inv by (simp_all add: handlers_inv_def)
  note step = consume_send_inv [OF ci e]
  show ?thesis
  proof (cases got)
    case True
    then obtain msg where m: "Pull t (hs_core s) = Returns (msg, c)" "map cp_Msg (hc_sent h) = map cp_Msg (hc_sent ?h) @ [msg]"
      using step t by auto
    obtain ch where ch: "co_topic2ch (hs_core s) t = Some ch" "chan_ok ch \<and> ch_cap ch = k" "length (ch_senders ch) = still_waiting (hs_prod s)"
      "map pq_Msg (ph_received (hs_prod s)) = map cp_Msg (hc_sent ?h) @ map bx_data (chan_items ch)"
      using inv by (auto simp: handlers_inv_def)
    obtain bx ch1 where r: "chan_recv ch = Some (bx, ch1)" "co_topic2ch c t = Some ch1" "bx_data bx = msg"
      using m(1) ch(1) by (auto simp: Pull_def split: option.splits)
    then show ?thesis
      using inv ch step t m(2) True chan.deq_items [OF conjunct1 [OF ch(2)] r(1)] chan.deq_ok [OF conjunct1 [OF ch(2)] r(1)] chan_recv_senders [OF r(1)]
      by (simp add: handlers_inv_def s' move_up_inv)
  next
    case False
    then show ?thesis using inv step by (simp add: handlers_inv_def s')
  qed
qed

lemma handlers_inv_exec:
  assumes inv: "handlers_inv t k s" and ev: "elsewhere t ev" and run: "handler_exec ev s = Returns s'"
  shows "handlers_inv t k s'"
proof (cases ev)
  case HToken
  with inv run show ?thesis
    by (auto simp: handlers_inv_def producer_inv_def acknowledged_def open_message_def still_waiting_def split: if_splits)
next
  case (HProduceSend ok)
  with inv run show ?thesis by (auto simp: handlers_inv_def produce_send_inv)
next
  case HProduceClose
  with inv run show ?thesis
    by (auto simp: handlers_inv_def producer_inv_def acknowledged_def open_message_def still_waiting_def bind_call_Returns produce_close_def
        split: if_splits)
next
  case (HConsumeReceive req)
  then obtain h c where "consume_receive req (hs_cons s) (hs_core s) = Returns (h, c)" "s' = s\<lparr>hs_cons := h, hs_core := c\<rparr>"
    using run by (auto simp: bind_call_Returns)
  with inv consume_receive_inv [of "hs_cons s" req "hs_core s" h c] show ?thesis by (auto simp: handlers_inv_def)
next
  case HConsumeClose
  with inv run show ?thesis
    by (auto simp: handlers_inv_def consumer_inv_def asked_def acks_def open_requests_def bind_call_Returns consume_close_def split: if_splits)
qed (use handlers_inv_core handlers_inv_produce handlers_inv_consume inv ev run in \<open>metis\<close>)+

lemma handlers_inv_run:
  "handlers_inv t k s \<Longrightarrow> list_all (elsewhere t) evs \<Longrightarrow> handler_run evs s = Returns s' \<Longrightarrow> handlers_inv t k s'"
  by (induction evs arbitrary: s) (auto simp: bind_call_Returns intro: handlers_inv_exec)

section \<open>Properties\<close>


text \<open>One message of a producer and two requests of a consumer, of which the second one still waits.\<close>

definition one_message :: "handler_event list" where
  "one_message = [HProduceReceive None True ''1b'',
     HProduceReceive (Some \<lparr>pq_InitTopic = [], pq_MID = 7, pq_Msg = [1]\<rparr>) True ''1b'', HProduceReceive None True ''1b'',
     HConsumeReceive None, HConsumeReceive (Some \<lparr>cq_InitTopic = [], cq_MID = 5, cq_AckID = no_ack\<rparr>),
     HConsumeReceive None, HConsumeReceive (Some \<lparr>cq_InitTopic = [], cq_MID = 6, cq_AckID = no_ack\<rparr>),
     HConsumeSend True, HConsumeSend True]"


text \<open>
  A produce handler is never made: the constructor waits for the token bucket, which ends only with a context that
  nobody else has.
\<close>

theorem newProduceHandler_never_returns: "\<not> newProduceHandler topic h"
proof
  assume "newProduceHandler topic h"
  then show False
  proof cases
    case (1 b)
    with TokenBucket_never_returns [OF 1(2)] show False by (simp add: new_bucket_def)
  qed
qed

text \<open>
  Closing a consumer handler whose \<^verbatim>\<open>receive\<close> waits for the stream ends the process with the next request: it is sent to a
  closed channel.
\<close>

theorem closed_consumer_panics:
  assumes "hc_receiving h = CRecv" and "consume_close h = Returns h'" and "cq_AckID resp = no_ack"
  shows "consume_receive (Some resp) h' c = Panics"
  using assms by (auto simp: consume_close_def consume_receive_def Let_def split: if_splits)

end
