(* ===== verification/BrokerConfig.thy ===== *)
theory BrokerConfig
  imports Handlers
begin

text \<open>
  The configuration (\<^verbatim>\<open>broker/common/config/config.go\<close>) and the logger (\<^verbatim>\<open>broker/common/logger/logger.go\<close>) of the stream broker, and
  the core that \<^verbatim>\<open>NewService\<close> of \<^verbatim>\<open>broker/service.go\<close> makes from the configuration. The parser of YAML and the loggers of zap are
  parameters.
\<close>

section \<open>The configuration\<close>

record app_config =
  ap_Port :: string
  ap_LogPath :: string
  ap_BufferSize :: int
  ap_SendBucketSizePerStream :: int
  ap_RecvBucketSizePerStream :: int
  ap_MaxReceivePerCycle :: int
  ap_TimerUpdateInterval :: int
  ap_MessageExpireTime :: int
  ap_MessageSendRetryTimes :: int

record config =
  cf_APP :: app_config

datatype config_error = ConfRead io_error | ConfYaml

text \<open>The zero value of the struct.\<close>

definition empty_config :: config where
  "empty_config = \<lparr>cf_APP = \<lparr>ap_Port = [], ap_LogPath = [], ap_BufferSize = 0, ap_SendBucketSizePerStream = 0,
     ap_RecvBucketSizePerStream = 0, ap_MaxReceivePerCycle = 0, ap_TimerUpdateInterval = 0, ap_MessageExpireTime = 0,
     ap_MessageSendRetryTimes = 0\<rparr>\<rparr>"

text \<open>\<open>unmarshal\<close> fills a configuration from a file; it may have filled a part of it when it fails.\<close>

definition getConf ::
  "(bytes \<Rightarrow> config \<Rightarrow> bool \<times> config) \<Rightarrow> string \<Rightarrow> config \<Rightarrow> fsys \<Rightarrow> (config_error option \<times> config) \<times> fsys" where
  "getConf unmarshal yamlFilePath confModel fs =
     (case os_Open yamlFilePath fs of
        (Inl err, fs1) \<Rightarrow> ((Some (ConfRead err), confModel), fs1)
      | (Inr file, fs1) \<Rightarrow>
          (case unmarshal file confModel of
             (False, conf) \<Rightarrow> ((Some ConfYaml, conf), fs1)
           | (True, conf) \<Rightarrow> ((None, conf), fs1)))"

text \<open>The global variable \<^verbatim>\<open>Conf\<close> is the second part of the result, also after an error.\<close>

definition InitConf :: "(bytes \<Rightarrow> config \<Rightarrow> bool \<times> config) \<Rightarrow> fsys \<Rightarrow> (config_error option \<times> config) \<times> fsys" where
  "InitConf unmarshal fs = getConf unmarshal ''config.yaml'' empty_config fs"

definition NewService :: "string \<Rightarrow> config option \<Rightarrow> disk \<Rightarrow> (core \<times> disk) call" where
  "NewService stamp conf d =
     (case conf of None \<Rightarrow> Panics | Some cf \<Rightarrow> NewCore stamp (ap_BufferSize (cf_APP cf)) d)"

section \<open>The logger\<close>

datatype zap_level = ZInfo | ZWarn | ZError | ZPanic | ZDPanic

text \<open>A sugared logger of zap takes a level, a template if there is one, and the arguments.\<close>

type_synonym 'z sugar = "zap_level \<Rightarrow> string option \<Rightarrow> string list \<Rightarrow> 'z \<Rightarrow> 'z call"

record lumberjack =
  lj_Filename :: string
  lj_MaxSize :: int
  lj_MaxAge :: int
  lj_LocalTime :: bool

record 'z zap_logger =
  zl_Log :: "'z sugar option"

definition os_Stat :: "string \<Rightarrow> fsys \<Rightarrow> io_error option \<times> fsys" where
  "os_Stat p fs =
     (case fault fs of
        Some _ \<Rightarrow> (Some EIO, tick fs)
      | None \<Rightarrow> (if lookup_ino fs p = None then Some ENOENT else None, tick fs))"

text \<open>The error of \<^verbatim>\<open>os.Create\<close> is dropped, and the file is not closed. \<open>new\<close> builds a logger of zap.\<close>

definition zap_Init :: "(lumberjack \<Rightarrow> 'z sugar) \<Rightarrow> string \<Rightarrow> 'z zap_logger \<Rightarrow> disk \<Rightarrow> 'z zap_logger \<times> disk" where
  "zap_Init new logPath l d =
     (case os_Stat logPath (dk_fs d) of
        (err, fs1) \<Rightarrow>
          (l\<lparr>zl_Log := Some (new \<lparr>lj_Filename = logPath, lj_MaxSize = 1024, lj_MaxAge = 30, lj_LocalTime = True\<rparr>)\<rparr>,
           if err = Some ENOENT then snd (disk_Create logPath (d\<lparr>dk_fs := fs1\<rparr>)) else d\<lparr>dk_fs := fs1\<rparr>))"

text \<open>It sets the global variable \<^verbatim>\<open>Log\<close>, which is nil before.\<close>

definition zap_InitLogger :: "(lumberjack \<Rightarrow> 'z sugar) \<Rightarrow> string \<Rightarrow> disk \<Rightarrow> 'z zap_logger option \<times> disk" where
  "zap_InitLogger new logpath d = (case zap_Init new logpath \<lparr>zl_Log = None\<rparr> d of (l, d1) \<Rightarrow> (Some l, d1))"

text \<open>A method of the global logger; a nil logger panics.\<close>

definition zap_call :: "zap_level \<Rightarrow> string option \<Rightarrow> string list \<Rightarrow> 'z zap_logger option \<Rightarrow> 'z \<Rightarrow> 'z call" where
  "zap_call level template args l z =
     (case l of
        None \<Rightarrow> Panics
      | Some lg \<Rightarrow> (case zl_Log lg of None \<Rightarrow> Panics | Some log \<Rightarrow> log level template args z))"

definition zap_Info :: "string list \<Rightarrow> 'z zap_logger option \<Rightarrow> 'z \<Rightarrow> 'z call" where
  "zap_Info args = zap_call ZInfo None args"

definition zap_Infof :: "string \<Rightarrow> string list \<Rightarrow> 'z zap_logger option \<Rightarrow> 'z \<Rightarrow> 'z call" where
  "zap_Infof template args = zap_call ZInfo (Some template) args"

definition zap_Warn :: "string list \<Rightarrow> 'z zap_logger option \<Rightarrow> 'z \<Rightarrow> 'z call" where
  "zap_Warn args = zap_call ZWarn None args"

definition zap_Warnf :: "string \<Rightarrow> string list \<Rightarrow> 'z zap_logger option \<Rightarrow> 'z \<Rightarrow> 'z call" where
  "zap_Warnf template args = zap_call ZWarn (Some template) args"

definition zap_Error :: "string list \<Rightarrow> 'z zap_logger option \<Rightarrow> 'z \<Rightarrow> 'z call" where
  "zap_Error args = zap_call ZError None args"

definition zap_Errorf :: "string \<Rightarrow> string list \<Rightarrow> 'z zap_logger option \<Rightarrow> 'z \<Rightarrow> 'z call" where
  "zap_Errorf template args = zap_call ZError (Some template) args"

definition zap_Panic :: "string list \<Rightarrow> 'z zap_logger option \<Rightarrow> 'z \<Rightarrow> 'z call" where
  "zap_Panic args = zap_call ZPanic None args"

definition zap_Panicf :: "string \<Rightarrow> string list \<Rightarrow> 'z zap_logger option \<Rightarrow> 'z \<Rightarrow> 'z call" where
  "zap_Panicf template args = zap_call ZPanic (Some template) args"

definition zap_DPanic :: "string list \<Rightarrow> 'z zap_logger option \<Rightarrow> 'z \<Rightarrow> 'z call" where
  "zap_DPanic args = zap_call ZDPanic None args"

definition zap_DPanicf :: "string \<Rightarrow> string list \<Rightarrow> 'z zap_logger option \<Rightarrow> 'z \<Rightarrow> 'z call" where
  "zap_DPanicf template args = zap_call ZDPanic (Some template) args"

section \<open>Properties\<close>

text \<open>
  Opening the log never loses an old one, with any faults: when the file exists, no file changes. When it is missing,
  its directory exists and nothing fails, it is there and empty afterwards.
\<close>

theorem zap_Init_keeps_log:
  assumes "zap_Init new p l d = (l', d')"
  shows "if lookup_ino (dk_fs d) p \<noteq> None then fs_content (dk_fs d') = fs_content (dk_fs d)
    else healthy (dk_fs d) \<and> fs_wf (dk_fs d) \<and> filepath_Dir p \<in> set (dk_dirs d) \<longrightarrow> fs_content (dk_fs d') p = Some []"
proof (cases "lookup_ino (dk_fs d) p")
  case (Some i)
  then show ?thesis
    using assms by (auto simp: zap_Init_def os_Stat_def fs_content_def lookup_ino_def tick_def split: option.splits)
next
  case None
  have "fs_content (dk_fs d') p = Some []"
    if h: "healthy (dk_fs d)" "fs_wf (dk_fs d)" "filepath_Dir p \<in> set (dk_dirs d)"
  proof -
    obtain f d1 where f: "disk_Create p (d\<lparr>dk_fs := tick (dk_fs d)\<rparr>) = (Inr f, d1)"
      "stored (bufio_NewWriter f) (dk_fs d1) = []" "lookup_ino (dk_fs d1) p = Some (f_ino f)"
      using disk_Create_ok [of "d\<lparr>dk_fs := tick (dk_fs d)\<rparr>" p] h by auto
    then have "d' = d1"
      using assms None h(1) by (auto simp: zap_Init_def os_Stat_def fault_def healthy_def)
    with f(2,3) show ?thesis by (simp add: fs_content_def stored_def bufio_NewWriter_def)
  qed
  with None show ?thesis by simp
qed

text \<open>
  Without its configuration file the broker still starts: the error of \<^verbatim>\<open>InitConf\<close> is not looked at, and the configuration
  left behind makes a core whose channels have no buffer, so that every message that is pushed to a topic makes its
  sender wait for a consumer.
\<close>

theorem missing_config_makes_senders_wait:
  assumes "lookup_ino fs ''config.yaml'' = None" and "InitConf unmarshal fs = ((err, conf), fs1)"
    and "NewService stamp (Some conf) d = Returns (c, d1)" and "RegisterTopic t c = Returns c1"
    and "Push stamp' t msg c1 d1 = (c2, d2)"
  shows "err \<noteq> None \<and> behind t c2 = 1"
proof -
  have conf: "err \<noteq> None" "conf = empty_config"
    using assms(1,2) by (auto simp: InitConf_def getConf_def os_Open_def fs_content_def split: option.splits)
  then have "NewCore stamp 0 d = Returns (c, d1)" using assms(3) by (simp add: NewService_def empty_config_def)
  then have "co_topic2ch c = Map.empty" "co_bufferSize c = 0"
    by (auto simp: NewCore_def split: prod.splits sum.splits option.splits)
  then have "co_topic2ch c1 t = Some (make_chan 0)" using assms(4) by (auto simp: RegisterTopic_def)
  then show ?thesis
    using assms(5) conf(1) by (auto simp: Push_def behind_def make_chan_def chan_send_def Let_def split: prod.splits)
qed

end
