(* ===== verification/Logger.thy ===== *)
theory Logger
  imports FileSys
begin

text \<open>
  The process logger of \<^verbatim>\<open>internal/utils/logger.go\<close>, and the use the programs under \<^verbatim>\<open>cmd\<close> make of it when they start. The
  package's variables, the standard output and the files are one state. A message is given as the text
  that its format and arguments give.
\<close>

section \<open>Levels\<close>

datatype LogLevel = DEBUG | INFO | WARN | ERROR | FATAL

fun level_number :: "LogLevel \<Rightarrow> nat" where
  "level_number DEBUG = 0"
| "level_number INFO = 1"
| "level_number WARN = 2"
| "level_number ERROR = 3"
| "level_number FATAL = 4"

lemma level_number_eq [simp]: "level_number a = level_number b \<longleftrightarrow> a = b"
  by (cases a; cases b) simp_all

instantiation LogLevel :: linorder
begin

definition less_eq_LogLevel :: "LogLevel \<Rightarrow> LogLevel \<Rightarrow> bool" where
  "less_eq_LogLevel a b \<longleftrightarrow> level_number a \<le> level_number b"

definition less_LogLevel :: "LogLevel \<Rightarrow> LogLevel \<Rightarrow> bool" where
  "less_LogLevel a b \<longleftrightarrow> level_number a < level_number b"

instance
  by standard (auto simp: less_eq_LogLevel_def less_LogLevel_def)

end

fun levelNames :: "LogLevel \<Rightarrow> string" where
  "levelNames DEBUG = ''DEBUG''"
| "levelNames INFO = ''INFO''"
| "levelNames WARN = ''WARN''"
| "levelNames ERROR = ''ERROR''"
| "levelNames FATAL = ''FATAL''"

definition level_of :: "string \<Rightarrow> LogLevel option" where
  "level_of level =
     (if level = ''debug'' then Some DEBUG
      else if level = ''info'' then Some INFO
      else if level = ''warn'' then Some WARN
      else if level = ''error'' then Some ERROR
      else if level = ''fatal'' then Some FATAL
      else None)"

section \<open>The state\<close>

text \<open>
  Where the logger writes: the standard output, or it and then a file. The file is the object that \<^verbatim>\<open>logFile\<close> points
  to, so closing the one closes the other. The standard output takes every line; the \<open>k\<close>-th line printed by the
  process has the date and the position in the source \<open>fst (lg_when s k)\<close> and the time stamp \<open>snd (lg_when s k)\<close>.
\<close>

datatype log_target = ToStdout | ToBoth os_file

record log_state =
  lg_logger :: "log_target option"
  lg_logFile :: "os_file option"
  lg_logLevel :: LogLevel
  lg_initialized :: bool
  lg_stdout :: bytes
  lg_fs :: fsys
  lg_when :: "nat \<Rightarrow> string \<times> string"
  lg_lines :: nat

definition new_process :: "(nat \<Rightarrow> string \<times> string) \<Rightarrow> fsys \<Rightarrow> log_state" where
  "new_process when fs =
     \<lparr>lg_logger = None, lg_logFile = None, lg_logLevel = INFO, lg_initialized = False, lg_stdout = [], lg_fs = fs,
      lg_when = when, lg_lines = 0\<rparr>"

text \<open>A call returns, panics (a nil logger is dereferenced), or ends the process.\<close>

datatype 'a log_result = LogReturns 'a log_state | LogPanics log_state | LogExits log_state

fun bind_log :: "'a log_result \<Rightarrow> ('a \<Rightarrow> log_state \<Rightarrow> 'b log_result) \<Rightarrow> 'b log_result" where
  "bind_log (LogReturns x s) f = f x s"
| "bind_log (LogPanics s) f = LogPanics s"
| "bind_log (LogExits s) f = LogExits s"

section \<open>Printing\<close>

definition shouldLog :: "LogLevel \<Rightarrow> log_state \<Rightarrow> bool" where
  "shouldLog level s \<longleftrightarrow> lg_logLevel s \<le> level"

definition formatMessage :: "LogLevel \<Rightarrow> string \<Rightarrow> string \<Rightarrow> string" where
  "formatMessage level timestamp msg = ''['' @ timestamp @ ''] ['' @ levelNames level @ ''] '' @ msg"

text \<open>A line ends with a newline, which is added when the text has none.\<close>

definition log_line :: "string \<Rightarrow> string \<Rightarrow> bytes" where
  "log_line pre txt = str_bytes (pre @ txt @ (if txt \<noteq> [] \<and> last txt = CHR 0x0A then [] else [CHR 0x0A]))"

text \<open>A file opened for appending is written at its end; an error of the write is not reported.\<close>

definition append_Write :: "os_file \<Rightarrow> bytes \<Rightarrow> fsys \<Rightarrow> fsys" where
  "append_Write f d fs = snd (file_Write (f\<lparr>f_off := length (inodes fs (f_ino f))\<rparr>) d fs)"

definition logger_Print :: "(string \<Rightarrow> string) \<Rightarrow> log_state \<Rightarrow> unit log_result" where
  "logger_Print txt s =
     (case lg_logger s of
        None \<Rightarrow> LogPanics s
      | Some target \<Rightarrow>
          (let when = lg_when s (lg_lines s);
               line = log_line (fst when) (txt (snd when));
               s1 = s\<lparr>lg_lines := Suc (lg_lines s), lg_stdout := lg_stdout s @ line\<rparr>
           in case target of
                ToStdout \<Rightarrow> LogReturns () s1
              | ToBoth f \<Rightarrow> LogReturns () (s1\<lparr>lg_fs := append_Write f line (lg_fs s)\<rparr>)))"

definition log_at :: "LogLevel \<Rightarrow> string \<Rightarrow> log_state \<Rightarrow> unit log_result" where
  "log_at level msg s =
     (if shouldLog level s then logger_Print (\<lambda>timestamp. formatMessage level timestamp msg) s else LogReturns () s)"

definition Debugf :: "string \<Rightarrow> log_state \<Rightarrow> unit log_result" where
  "Debugf msg s = log_at DEBUG msg s"

definition Infof :: "string \<Rightarrow> log_state \<Rightarrow> unit log_result" where
  "Infof msg s = log_at INFO msg s"

definition Warnf :: "string \<Rightarrow> log_state \<Rightarrow> unit log_result" where
  "Warnf msg s = log_at WARN msg s"

definition Errorf :: "string \<Rightarrow> log_state \<Rightarrow> unit log_result" where
  "Errorf msg s = log_at ERROR msg s"

definition Fatalf :: "string \<Rightarrow> log_state \<Rightarrow> unit log_result" where
  "Fatalf msg s =
     (if shouldLog FATAL s then
        bind_log (logger_Print (\<lambda>timestamp. formatMessage FATAL timestamp msg) s) (\<lambda>_ s1. LogExits s1)
      else LogReturns () s)"

text \<open>\<^verbatim>\<open>Debug\<close> also prints to the standard error, which is not part of the state.\<close>

definition Debug :: "string \<Rightarrow> log_state \<Rightarrow> unit log_result" where
  "Debug msg s = log_at DEBUG msg s"

definition Info :: "string \<Rightarrow> log_state \<Rightarrow> unit log_result" where
  "Info msg s = log_at INFO msg s"

definition Warn :: "string \<Rightarrow> log_state \<Rightarrow> unit log_result" where
  "Warn msg s = log_at WARN msg s"

definition Error :: "string \<Rightarrow> log_state \<Rightarrow> unit log_result" where
  "Error msg s = log_at ERROR msg s"

definition Fatal :: "string \<Rightarrow> log_state \<Rightarrow> unit log_result" where
  "Fatal msg s = Fatalf msg s"

text \<open>The text before the error is the source's, in UTF-8.\<close>

definition error_text :: string where
  "error_text = '' - '' @ [CHR 0xE9, CHR 0x94, CHR 0x99, CHR 0xE8, CHR 0xAF, CHR 0xAF] @ '': ''"

definition ErrorWithErr :: "string option \<Rightarrow> string \<Rightarrow> log_state \<Rightarrow> unit log_result" where
  "ErrorWithErr err msg s =
     (if shouldLog ERROR s then
        logger_Print (\<lambda>timestamp. formatMessage ERROR timestamp msg @
          (case err of None \<Rightarrow> [] | Some e \<Rightarrow> error_text @ e)) s
      else LogReturns () s)"

section \<open>Opening and closing\<close>

definition os_OpenAppend :: "string \<Rightarrow> fsys \<Rightarrow> (io_error + os_file) \<times> fsys" where
  "os_OpenAppend p fs =
     (case fault fs of
        Some _ \<Rightarrow> (Inl EIO, tick fs)
      | None \<Rightarrow>
          (case lookup_ino fs p of
             Some i \<Rightarrow> (Inr \<lparr>f_name = p, f_ino = i, f_off = 0, f_open = True\<rparr>, tick fs)
           | None \<Rightarrow> (Inr \<lparr>f_name = p, f_ino = next_ino fs, f_off = 0, f_open = True\<rparr>,
                      (tick fs)\<lparr>dirents := (p, next_ino fs) # dirents fs, inodes := (inodes fs)(next_ino fs := []),
                                next_ino := Suc (next_ino fs)\<rparr>)))"

text \<open>The first line of a log, in the source's text in UTF-8.\<close>

definition init_text :: string where
  "init_text = [
     CHR 0xE6, CHR 0x97, CHR 0xA5, CHR 0xE5, CHR 0xBF, CHR 0x97, CHR 0xE7, CHR 0xB3, CHR 0xBB, CHR 0xE7, CHR 0xBB, CHR 0x9F,
     CHR 0xE5, CHR 0x88, CHR 0x9D, CHR 0xE5, CHR 0xA7, CHR 0x8B, CHR 0xE5, CHR 0x8C, CHR 0x96, CHR 0xE5, CHR 0xAE, CHR 0x8C,
     CHR 0xE6, CHR 0x88, CHR 0x90, CHR 0xEF, CHR 0xBC, CHR 0x8C, CHR 0xE7, CHR 0xBA, CHR 0xA7, CHR 0xE5, CHR 0x88, CHR 0xAB,
     CHR 0x3A, CHR 0x20]"

text \<open>The closure \<^verbatim>\<open>initFunc\<close>: whether it succeeded, and the state. The level is set before anything can fail.\<close>

definition initFunc :: "string \<Rightarrow> string \<Rightarrow> log_state \<Rightarrow> bool \<times> log_state" where
  "initFunc level logPath s =
     (if lg_initialized s then (True, s)
      else
        let s1 = s\<lparr>lg_logLevel := (case level_of level of None \<Rightarrow> INFO | Some l \<Rightarrow> l)\<rparr>
        in if logPath \<noteq> [] then
             (case os_MkdirAll (filepath_Dir logPath) (lg_fs s1) of
                (Some e, fs1) \<Rightarrow> (False, s1\<lparr>lg_fs := fs1\<rparr>)
              | (None, fs1) \<Rightarrow>
                  (case os_OpenAppend logPath fs1 of
                     (Inl e, fs2) \<Rightarrow> (False, s1\<lparr>lg_fs := fs2\<rparr>)
                   | (Inr f, fs2) \<Rightarrow>
                       (True, s1\<lparr>lg_fs := fs2, lg_logFile := Some f, lg_logger := Some (ToBoth f), lg_initialized := True\<rparr>)))
           else (True, s1\<lparr>lg_logger := Some ToStdout, lg_initialized := True\<rparr>))"

definition InitLogger :: "string \<Rightarrow> string \<Rightarrow> log_state \<Rightarrow> bool log_result" where
  "InitLogger level logPath s =
     (case initFunc level logPath s of
        (False, s1) \<Rightarrow> LogReturns False s1
      | (True, s1) \<Rightarrow> bind_log (Infof (init_text @ levelNames (lg_logLevel s1)) s1) (\<lambda>_ s2. LogReturns True s2))"

definition SetLogLevel :: "string \<Rightarrow> log_state \<Rightarrow> log_state" where
  "SetLogLevel level s = (case level_of level of None \<Rightarrow> s | Some l \<Rightarrow> s\<lparr>lg_logLevel := l\<rparr>)"

definition Close :: "log_state \<Rightarrow> log_state" where
  "Close s =
     (case lg_logFile s of
        None \<Rightarrow> s\<lparr>lg_initialized := False\<rparr>
      | Some f \<Rightarrow>
          (case file_Close f (lg_fs s) of
             ((f1, _), fs1) \<Rightarrow>
               s\<lparr>lg_fs := fs1, lg_logFile := None, lg_initialized := False,
                 lg_logger := (if lg_logger s = Some (ToBoth f) then Some (ToBoth f1) else lg_logger s)\<rparr>))"

definition GetLogFilePath :: "log_state \<Rightarrow> string" where
  "GetLogFilePath s = (case lg_logFile s of Some f \<Rightarrow> f_name f | None \<Rightarrow> [])"

definition IsInitialized :: "log_state \<Rightarrow> bool" where
  "IsInitialized s = lg_initialized s"

section \<open>The programs\<close>

text \<open>
  How the constructors of the servers and clients open the log: only when it is not open, at level \<^verbatim>\<open>info\<close>, on the console
  if the file cannot be opened.
\<close>

definition open_log :: "string \<Rightarrow> log_state \<Rightarrow> unit log_result" where
  "open_log logPath s =
     (if IsInitialized s then LogReturns () s
      else bind_log (InitLogger ''info'' logPath s)
             (\<lambda>ok s1. if ok then LogReturns () s1 else bind_log (InitLogger ''info'' [] s1) (\<lambda>_ s2. LogReturns () s2)))"

text \<open>\<^verbatim>\<open>cmd/broker\<close> up to the constructor of the server.\<close>

definition broker_main_log :: "string \<Rightarrow> string \<Rightarrow> log_state \<Rightarrow> unit log_result" where
  "broker_main_log logLevel brokerID s = open_log (''logs/broker_'' @ brokerID @ ''.log'') (SetLogLevel logLevel s)"

text \<open>
  \<^verbatim>\<open>cmd/sentinel\<close>: the endpoints, the embedded etcd and then the constructor of the server. \<open>etcd\<close> says what the start of
  the embedded server does.
\<close>

datatype etcd_start = EtcdFails | EtcdReady | EtcdTimeout

fun split_on :: "char \<Rightarrow> string \<Rightarrow> string list" where
  "split_on c [] = [[]]"
| "split_on c (x # xs) =
     (if x = c then [] # split_on c xs else (case split_on c xs of [] \<Rightarrow> [[x]] | p # ps \<Rightarrow> (x # p) # ps))"

definition is_space :: "char \<Rightarrow> bool" where
  "is_space c \<longleftrightarrow> c \<in> {CHR 0x09, CHR 0x0A, CHR 0x0B, CHR 0x0C, CHR 0x0D, CHR '' ''}"

definition TrimSpace :: "string \<Rightarrow> string" where
  "TrimSpace s = rev (dropWhile is_space (rev (dropWhile is_space s)))"

definition main_endpoints :: "bool \<Rightarrow> nat \<Rightarrow> string \<Rightarrow> string list" where
  "main_endpoints enableEmbedded etcdPort etcdEndpoints =
     (if enableEmbedded then [''localhost:'' @ itoa etcdPort]
      else if etcdEndpoints \<noteq> [] then map TrimSpace (split_on CHR '','' etcdEndpoints)
      else [])"

text \<open>The texts of the messages are parameters: \<open>msg 0\<close> announces the start, \<open>msg 1\<close> a failure, and so on.\<close>

definition startEmbeddedEtcd :: "(nat \<Rightarrow> string) \<Rightarrow> etcd_start \<Rightarrow> log_state \<Rightarrow> unit log_result" where
  "startEmbeddedEtcd msg etcd s =
     bind_log (Infof (msg 0) s)
       (\<lambda>_ s1. case etcd of
          EtcdFails \<Rightarrow> Fatalf (msg 1) s1
        | EtcdReady \<Rightarrow> Info (msg 2) s1
        | EtcdTimeout \<Rightarrow> Fatal (msg 3) s1)"

definition sentinel_main ::
  "(nat \<Rightarrow> string) \<Rightarrow> string \<Rightarrow> string \<Rightarrow> bool \<Rightarrow> nat \<Rightarrow> string \<Rightarrow> etcd_start \<Rightarrow> log_state \<Rightarrow> string list log_result" where
  "sentinel_main msg sentinelID logLevel enableEmbedded etcdPort etcdEndpoints etcd s =
     (let s1 = SetLogLevel logLevel s;
          endpoints = main_endpoints enableEmbedded etcdPort etcdEndpoints
      in bind_log (if enableEmbedded then startEmbeddedEtcd msg etcd s1 else LogReturns () s1)
           (\<lambda>_ s2. bind_log (open_log (''logs/sentinel_'' @ sentinelID @ ''.log'') s2) (\<lambda>_ s3. LogReturns endpoints s3)))"

section \<open>What is printed\<close>

fun log_all :: "(LogLevel \<times> string) list \<Rightarrow> log_state \<Rightarrow> unit log_result" where
  "log_all [] s = LogReturns () s"
| "log_all ((level, msg) # ms) s = bind_log (log_at level msg s) (\<lambda>_. log_all ms)"

text \<open>The lines of a sequence of messages at a level, the first of them being line \<open>k\<close> of the process.\<close>

fun lines_at :: "LogLevel \<Rightarrow> (nat \<Rightarrow> string \<times> string) \<Rightarrow> nat \<Rightarrow> (LogLevel \<times> string) list \<Rightarrow> bytes" where
  "lines_at lv when k [] = []"
| "lines_at lv when k ((level, msg) # ms) =
     (if lv \<le> level then log_line (fst (when k)) (formatMessage level (snd (when k)) msg) @ lines_at lv when (Suc k) ms
      else lines_at lv when k ms)"

text \<open>A logger that writes to a file through an open descriptor.\<close>

definition file_log :: "string \<Rightarrow> log_state \<Rightarrow> bool" where
  "file_log path s \<longleftrightarrow> healthy (lg_fs s) \<and>
     (\<exists>f. lg_logger s = Some (ToBoth f) \<and> f_open f \<and> lookup_ino (lg_fs s) path = Some (f_ino f))"

lemma append_Write_ok:
  assumes "healthy fs" and "f_open f" and "lookup_ino fs path = Some (f_ino f)"
  shows "healthy (append_Write f d fs) \<and> lookup_ino (append_Write f d fs) = lookup_ino fs \<and>
    fs_content (append_Write f d fs) path = Some (inodes fs (f_ino f) @ d)"
  using assms by (simp add: append_Write_def file_Write_healthy fs_content_def)

lemma log_at_file:
  assumes "file_log path s" and "fs_content (lg_fs s) path = Some content"
  shows "\<exists>s'. log_at level msg s = LogReturns () s' \<and> file_log path s' \<and> lg_when s' = lg_when s \<and> lg_logLevel s' = lg_logLevel s \<and>
    (let d = lines_at (lg_logLevel s) (lg_when s) (lg_lines s) [(level, msg)]
     in lg_stdout s' = lg_stdout s @ d \<and> fs_content (lg_fs s') path = Some (content @ d) \<and>
        lg_lines s' = (if lg_logLevel s \<le> level then Suc (lg_lines s) else lg_lines s))"
proof -
  from assms(1) obtain f where f: "lg_logger s = Some (ToBoth f)" "f_open f" "lookup_ino (lg_fs s) path = Some (f_ino f)"
    "healthy (lg_fs s)" by (auto simp: file_log_def)
  have c: "content = inodes (lg_fs s) (f_ino f)" using assms(2) f(3) by (simp add: fs_content_def)
  show ?thesis
    using f append_Write_ok [OF f(4,2,3)] c assms(1,2)
    by (auto simp: log_at_def shouldLog_def logger_Print_def Let_def file_log_def)
qed

lemma log_all_file:
  "file_log path s \<Longrightarrow> fs_content (lg_fs s) path = Some content \<Longrightarrow>
   \<exists>s'. log_all ms s = LogReturns () s' \<and> lg_stdout s' = lg_stdout s @ lines_at (lg_logLevel s) (lg_when s) (lg_lines s) ms \<and>
     fs_content (lg_fs s') path = Some (content @ lines_at (lg_logLevel s) (lg_when s) (lg_lines s) ms)"
proof (induction ms arbitrary: s content)
  case (Cons m ms)
  obtain level msg where m: "m = (level, msg)" by (cases m)
  obtain s1 where s1: "log_at level msg s = LogReturns () s1" "file_log path s1" "lg_when s1 = lg_when s" "lg_logLevel s1 = lg_logLevel s"
    "lg_stdout s1 = lg_stdout s @ lines_at (lg_logLevel s) (lg_when s) (lg_lines s) [(level, msg)]"
    "fs_content (lg_fs s1) path = Some (content @ lines_at (lg_logLevel s) (lg_when s) (lg_lines s) [(level, msg)])"
    "lg_lines s1 = (if lg_logLevel s \<le> level then Suc (lg_lines s) else lg_lines s)"
    using log_at_file [OF Cons.prems, of level msg] by (auto simp: Let_def)
  from Cons.IH [OF s1(2,6)] s1 m show ?case by (auto split: if_splits)
qed simp

lemma os_OpenAppend_ok:
  assumes "healthy fs" and "fs_wf fs"
  shows "\<exists>f fs'. os_OpenAppend p fs = (Inr f, fs') \<and> healthy fs' \<and> f_open f \<and> lookup_ino fs' p = Some (f_ino f) \<and>
    fs_content fs' p = Some (case fs_content fs p of None \<Rightarrow> [] | Some c \<Rightarrow> c)"
proof (cases "lookup_ino fs p")
  case None
  with assms show ?thesis by (simp add: os_OpenAppend_def fs_content_def) (simp add: lookup_ino_def)
next
  case (Some i)
  with assms show ?thesis by (simp add: os_OpenAppend_def fs_content_def)
qed

section \<open>Starting\<close>

text \<open>\<^verbatim>\<open>Fatal\<close> is the highest level: no setting keeps a fatal message from ending the process.\<close>

lemma Fatalf_ends: "Fatalf msg s \<noteq> LogReturns x s'"
  by (cases "lg_logLevel s")
    (auto simp: Fatalf_def shouldLog_def less_eq_LogLevel_def logger_Print_def Let_def split: option.splits log_target.splits)

lemma InitLogger_console:
  "\<not> lg_initialized s \<Longrightarrow> \<exists>s'. InitLogger ''info'' [] s = LogReturns True s' \<and> lg_logLevel s' = INFO \<and> lg_initialized s'"
  by (simp add: InitLogger_def initFunc_def Infof_def log_at_def logger_Print_def Let_def level_of_def)

lemma InitLogger_info:
  assumes "\<not> lg_initialized s"
  shows "\<exists>ok s'. InitLogger ''info'' path s = LogReturns ok s' \<and> lg_logLevel s' = INFO \<and> lg_initialized s' = ok"
  using assms
  by (auto simp: InitLogger_def initFunc_def Infof_def log_at_def logger_Print_def Let_def level_of_def shouldLog_def
      split: option.splits prod.splits sum.splits)

lemma open_log_info:
  assumes "\<not> lg_initialized s"
  shows "\<exists>s'. open_log path s = LogReturns () s' \<and> lg_logLevel s' = INFO \<and> lg_initialized s'"
proof -
  obtain ok s1 where i: "InitLogger ''info'' path s = LogReturns ok s1" "lg_logLevel s1 = INFO" "lg_initialized s1 = ok"
    using InitLogger_info [OF assms, of path] by blast
  show ?thesis
    using i assms InitLogger_console [of s1] by (cases ok) (auto simp: open_log_def IsInitialized_def)
qed

lemma SetLogLevel_sel [simp]:
  "lg_initialized (SetLogLevel level s) = lg_initialized s" "lg_logger (SetLogLevel level s) = lg_logger s"
  by (simp_all add: SetLogLevel_def split: option.splits)

section \<open>Properties\<close>



text \<open>The level of the command line is lost, whatever the files do: opening the log sets it to \<^verbatim>\<open>info\<close>.\<close>

theorem flag_level_is_lost:
  "\<exists>s'. broker_main_log logLevel brokerID (new_process when fs) = LogReturns () s' \<and> lg_logLevel s' = INFO"
  using open_log_info [of "SetLogLevel logLevel (new_process when fs)"]
  by (force simp: broker_main_log_def new_process_def)

text \<open>
  How the sentinel starts. With the embedded etcd, which is the default, the program announces its start before the
  log is open: it panics at the levels \<^verbatim>\<open>debug\<close> and \<^verbatim>\<open>info\<close>, the default, and for a level that is not known, and it
  starts only if the level hides the announcement and etcd becomes ready; without it it always gets its
  endpoints. In each case in which it starts, the level is \<^verbatim>\<open>info\<close> again.
\<close>

theorem sentinel_start:
  "case sentinel_main msg sentinelID logLevel embedded port endpoints etcd (new_process when fs) of
     LogReturns eps s' \<Rightarrow> eps = main_endpoints embedded port endpoints \<and> lg_logLevel s' = INFO \<and>
       (embedded \<longrightarrow> etcd = EtcdReady \<and> level_of logLevel \<in> {Some WARN, Some ERROR, Some FATAL})
   | LogPanics _ \<Rightarrow> embedded \<and> (level_of logLevel \<in> {None, Some DEBUG, Some INFO} \<or> etcd \<noteq> EtcdReady)
   | LogExits _ \<Rightarrow> False"
proof -
  let ?s = "SetLogLevel logLevel (new_process when fs)"
  obtain s' where open_: "open_log (''logs/sentinel_'' @ sentinelID @ ''.log'') ?s = LogReturns () s'" "lg_logLevel s' = INFO"
    using open_log_info [of ?s "''logs/sentinel_'' @ sentinelID @ ''.log''"] by (auto simp: new_process_def)
  have lv: "lg_logLevel ?s = (case level_of logLevel of None \<Rightarrow> INFO | Some l \<Rightarrow> l)" "lg_logger ?s = None"
    by (simp_all add: SetLogLevel_def new_process_def split: option.splits)
  show ?thesis
  proof (cases "embedded \<and> \<not> (lg_logLevel ?s > INFO \<and> etcd = EtcdReady)")
    case True
    then show ?thesis
      using lv
      by (cases "level_of logLevel"; cases etcd; cases "lg_logLevel ?s")
        (auto simp: sentinel_main_def startEmbeddedEtcd_def Infof_def Info_def Fatalf_def Fatal_def log_at_def shouldLog_def
          logger_Print_def less_eq_LogLevel_def less_LogLevel_def Let_def)
  next
    case False
    then have "sentinel_main msg sentinelID logLevel embedded port endpoints etcd (new_process when fs) =
        LogReturns (main_endpoints embedded port endpoints) s'"
      using open_ by (auto simp: sentinel_main_def startEmbeddedEtcd_def Infof_def Info_def log_at_def shouldLog_def Let_def)
    moreover have "embedded \<longrightarrow> level_of logLevel \<in> {Some WARN, Some ERROR, Some FATAL}"
      using False lv by (cases "lg_logLevel ?s") (auto simp: less_LogLevel_def split: option.splits)
    ultimately show ?thesis using False open_ by auto
  qed
qed

theorem sentinel_start_witness:
  "\<exists>s'. sentinel_main (\<lambda>_. ''m'') ''sentinel-1'' ''info'' True 2379 [] EtcdReady (new_process (\<lambda>_. (''p '', ''t'')) empty_fs) = LogPanics s'"
proof -
  have "level_of ''info'' = Some INFO" by (simp add: level_of_def)
  with sentinel_start [where msg = "\<lambda>_. ''m''" and sentinelID = "''sentinel-1''" and logLevel = "''info''" and embedded = True
      and port = 2379 and endpoints = "[]" and etcd = EtcdReady and ?when = "\<lambda>_. (''p '', ''t'')" and fs = empty_fs]
  show ?thesis by (auto split: log_result.splits)
qed

end
