(* ===== verification/Lifecycle.thy ===== *)
theory Lifecycle
  imports Sentinel BrokerServer
begin

text \<open>
  The background goroutines of the program and how the servers stop. The health checker of the sentinel, the election
  loop of the etcd manager, the clean-up of the fragments and the flush of the log have one form: a loop over a
  \<^verbatim>\<open>select\<close> on a ticker and a stop channel. They are instances of one interface, and the theorems on stopping come from it.
\<close>

section \<open>Goroutines with a ticker\<close>

text \<open>
  The goroutines that run, each with whether a tick waits in its ticker's channel, which has room for one; the stop channel;
  and what the goroutines work on.
\<close>

record 's ticking =
  tk_closed :: bool
  tk_routines :: "bool list"
  tk_state :: 's

text \<open>A tick of the ticker of goroutine \<open>i\<close>, or a pass of that goroutine through its \<^verbatim>\<open>select\<close>: with both cases ready, \<open>c\<close> chooses.\<close>

datatype 'i tick_event = Tick nat | Pass nat bool 'i

text \<open>\<open>body\<close> is the work of a tick, \<open>exit\<close> what the goroutine still does when it ends.\<close>

fun tick_step ::
  "('i \<Rightarrow> 's \<Rightarrow> 's call) \<Rightarrow> ('s \<Rightarrow> 's call) \<Rightarrow> 'i tick_event \<Rightarrow> 's ticking \<Rightarrow> 's ticking call" where
  "tick_step body exit (Tick i) t = Returns (t\<lparr>tk_routines := (tk_routines t)[i := True]\<rparr>)"
| "tick_step body exit (Pass i c inp) t =
     (if length (tk_routines t) \<le> i then Returns t
      else if tk_routines t ! i \<and> (\<not> tk_closed t \<or> c) then
        bind_call (body inp (tk_state t))
          (\<lambda>s. Returns (t\<lparr>tk_routines := (tk_routines t)[i := False], tk_state := s\<rparr>))
      else if tk_closed t then
        bind_call (exit (tk_state t))
          (\<lambda>s. Returns (t\<lparr>tk_routines := take i (tk_routines t) @ drop (Suc i) (tk_routines t), tk_state := s\<rparr>))
      else Returns t)"

fun tick_run ::
  "('i \<Rightarrow> 's \<Rightarrow> 's call) \<Rightarrow> ('s \<Rightarrow> 's call) \<Rightarrow> 'i tick_event list \<Rightarrow> 's ticking \<Rightarrow> 's ticking call" where
  "tick_run body exit [] t = Returns t"
| "tick_run body exit (ev # evs) t = bind_call (tick_step body exit ev t) (tick_run body exit evs)"

definition new_ticking :: "'s \<Rightarrow> 's ticking" where
  "new_ticking s = \<lparr>tk_closed = False, tk_routines = [], tk_state = s\<rparr>"

definition spawn :: "'s ticking \<Rightarrow> 's ticking" where
  "spawn t = t\<lparr>tk_routines := tk_routines t @ [False]\<rparr>"

definition close_stop :: "'s ticking \<Rightarrow> 's ticking call" where
  "close_stop t = (if tk_closed t then Panics else Returns (t\<lparr>tk_closed := True\<rparr>))"

text \<open>
  Closing the channel and waiting for the goroutines, which go on as the schedule says. A schedule at whose
  end one still runs is one for which the wait is not over.
\<close>

definition stop_and_wait ::
  "('i \<Rightarrow> 's \<Rightarrow> 's call) \<Rightarrow> ('s \<Rightarrow> 's call) \<Rightarrow> 'i tick_event list \<Rightarrow> 's ticking \<Rightarrow> 's ticking call" where
  "stop_and_wait body exit sched t =
     bind_call (close_stop t) (\<lambda>t1. bind_call (tick_run body exit sched t1)
       (\<lambda>t2. if tk_routines t2 = [] then Returns t2 else Blocks))"

text \<open>The passes that a goroutine needs at most before it ends.\<close>

definition passes_left :: "'s ticking \<Rightarrow> nat" where
  "passes_left t = sum_list (map (\<lambda>b. if b then 2 else 1) (tk_routines t))"

lemma passes_left_none: "passes_left t = 0 \<longleftrightarrow> tk_routines t = []"
  by (cases "tk_routines t") (auto simp: passes_left_def)

lemma tick_run_quiet: "tk_routines t = [] \<Longrightarrow> tick_run body exit evs t = Returns t"
proof (induction evs)
  case (Cons ev evs)
  then have "tick_step body exit ev t = Returns t" by (cases ev) simp_all
  with Cons show ?case by simp
qed simp

locale ticker_loop =
  fixes body :: "'i \<Rightarrow> 's \<Rightarrow> 's call" and exit :: "'s \<Rightarrow> 's call" and I :: "'s \<Rightarrow> bool"
  assumes body_ok: "I s \<Longrightarrow> \<exists>s'. body i s = Returns s' \<and> I s'"
    and exit_ok: "I s \<Longrightarrow> \<exists>s'. exit s = Returns s' \<and> I s'"
begin

lemma step_ok:
  assumes "I (tk_state t)"
  shows "\<exists>t'. tick_step body exit ev t = Returns t' \<and> I (tk_state t') \<and> tk_closed t' = tk_closed t"
proof (cases ev)
  case (Pass i c x)
  obtain s1 s2 where "body x (tk_state t) = Returns s1" "I s1" "exit (tk_state t) = Returns s2" "I s2"
    using body_ok [OF assms] exit_ok [OF assms] by blast
  with Pass assms show ?thesis by simp
qed (use assms in simp)

lemma run_ok:
  "I (tk_state t) \<Longrightarrow> \<exists>t'. tick_run body exit evs t = Returns t' \<and> I (tk_state t') \<and> tk_closed t' = tk_closed t"
proof (induction evs arbitrary: t)
  case (Cons ev evs)
  with step_ok [of t ev] show ?case by fastforce
qed simp

lemma pass_progress:
  assumes "I (tk_state t)" and "tk_closed t" and "tk_routines t \<noteq> []"
  shows "\<exists>t'. tick_step body exit (Pass 0 c x) t = Returns t' \<and> I (tk_state t') \<and> tk_closed t' \<and> passes_left t' < passes_left t"
proof -
  obtain r rs where rs: "tk_routines t = r # rs" using assms(3) by (cases "tk_routines t") auto
  obtain s1 s2 where "body x (tk_state t) = Returns s1" "I s1" "exit (tk_state t) = Returns s2" "I s2"
    using body_ok [OF assms(1)] exit_ok [OF assms(1)] by blast
  with assms rs show ?thesis by (auto simp: passes_left_def)
qed

text \<open>A goroutine ends within two passes of the close, unless the ticker ticks again in between.\<close>

lemma passes_end:
  "I (tk_state t) \<Longrightarrow> tk_closed t \<Longrightarrow> passes_left t \<le> length cxs \<Longrightarrow>
   \<exists>t'. tick_run body exit (map (\<lambda>(c, x). Pass 0 c x) cxs) t = Returns t' \<and> I (tk_state t') \<and> tk_closed t' \<and> tk_routines t' = []"
proof (induction cxs arbitrary: t)
  case Nil
  then show ?case by (simp add: passes_left_none)
next
  case (Cons cx cxs)
  obtain c x where cx: "cx = (c, x)" by (cases cx)
  show ?case
  proof (cases "tk_routines t = []")
    case True
    with Cons.prems tick_run_quiet [OF True] show ?thesis by blast
  next
    case False
    from pass_progress [OF Cons.prems(1,2) False, of c x] obtain t1 where
      "tick_step body exit (Pass 0 c x) t = Returns t1" "I (tk_state t1)" "tk_closed t1" "passes_left t1 < passes_left t" by blast
    with Cons.IH [of t1] Cons.prems(3) cx show ?thesis by simp
  qed
qed

lemma stop_ends:
  assumes "I (tk_state t)" and "\<not> tk_closed t" and "passes_left t \<le> length cxs"
  shows "\<exists>t'. stop_and_wait body exit (map (\<lambda>(c, x). Pass 0 c x) cxs) t = Returns t' \<and> I (tk_state t') \<and>
    tk_closed t' \<and> tk_routines t' = []"
  using passes_end [of "t\<lparr>tk_closed := True\<rparr>" cxs] assms
  by (auto simp: stop_and_wait_def close_stop_def passes_left_def)

lemma stop_keeps:
  assumes "I (tk_state t)" and "stop_and_wait body exit sched t = Returns t'"
  shows "I (tk_state t') \<and> tk_closed t' \<and> tk_routines t' = []"
proof -
  have "\<not> tk_closed t" using assms(2) by (auto simp: stop_and_wait_def close_stop_def)
  with run_ok [of "t\<lparr>tk_closed := True\<rparr>" sched] assms show ?thesis
    by (auto simp: stop_and_wait_def close_stop_def split: if_splits)
qed

end

lemma stop_twice: "tk_closed t \<Longrightarrow> stop_and_wait body exit sched t = Panics"
  by (simp add: stop_and_wait_def close_stop_def)

section \<open>The four loops\<close>

text \<open>The health checker: what it works on is the registry of its sentinel.\<close>

type_synonym health_checker = "sentinel_server ticking"

definition NewHealthChecker :: "sentinel_server \<Rightarrow> health_checker" where
  "NewHealthChecker s = new_ticking s"

definition check_body :: "time \<times> string list \<Rightarrow> sentinel_server \<Rightarrow> sentinel_server call" where
  "check_body x s = Returns (checkBrokers (fst x) (snd x) s)"

definition checkRoutine :: "(time \<times> string list) tick_event \<Rightarrow> health_checker \<Rightarrow> health_checker call" where
  "checkRoutine = tick_step check_body Returns"

definition HealthChecker_Start :: "health_checker \<Rightarrow> health_checker" where
  "HealthChecker_Start hc = spawn hc"

definition HealthChecker_Stop :: "(time \<times> string list) tick_event list \<Rightarrow> health_checker \<Rightarrow> health_checker call" where
  "HealthChecker_Stop sched hc = stop_and_wait check_body Returns sched hc"

interpretation checker: ticker_loop check_body Returns registry_ok
  by unfold_locales (simp_all add: check_body_def registry_ok_checkBrokers)

text \<open>The election loop, whose stop channel is the context of the manager; it changes neither leases nor the mutex.\<close>

definition elect_body :: "'e etcd_client \<Rightarrow> unit \<Rightarrow> etcd_manager \<times> 'e \<Rightarrow> (etcd_manager \<times> 'e) call" where
  "elect_body cl x s = Returns (checkLeader cl (fst s) (snd s))"

definition electLeader :: "'e etcd_client \<Rightarrow> unit tick_event \<Rightarrow> (etcd_manager \<times> 'e) ticking \<Rightarrow> (etcd_manager \<times> 'e) ticking call" where
  "electLeader cl = tick_step (elect_body cl) Returns"

lemma checkLeader_leases:
  "em_leases (fst (checkLeader cl em e)) = em_leases em" "em_leaseMu (fst (checkLeader cl em e)) = em_leaseMu em"
  by (auto simp: checkLeader_def Let_def split: prod.splits option.splits)

interpretation elector: ticker_loop "elect_body cl" Returns "\<lambda>s. em_leases (fst s) = L \<and> em_leaseMu (fst s) = m"
  for cl L m
  by unfold_locales (simp_all add: elect_body_def checkLeader_leases)

text \<open>The clean-up task, which a manager without a TTL does not start; it never adds a fragment.\<close>

definition cleanup_body :: "time \<times> string list \<Rightarrow> fragment_manager \<times> fsys \<Rightarrow> (fragment_manager \<times> fsys) call" where
  "cleanup_body x s = Returns (cleanupExpiredFragments (fst x) (snd x) (fst s) (snd s))"

definition startCleanupTask :: "(fragment_manager \<times> fsys) ticking \<Rightarrow> (fragment_manager \<times> fsys) ticking" where
  "startCleanupTask t = spawn t"

definition CleanupExpiredFragments :: "time \<Rightarrow> string list \<Rightarrow> fragment_manager \<Rightarrow> fsys \<Rightarrow> fragment_manager \<times> fsys" where
  "CleanupExpiredFragments now order fm fs = cleanupExpiredFragments now order fm fs"

definition cleanup_routine ::
  "(time \<times> string list) tick_event \<Rightarrow> (fragment_manager \<times> fsys) ticking \<Rightarrow> (fragment_manager \<times> fsys) ticking call" where
  "cleanup_routine = tick_step cleanup_body Returns"

lemma cleanup_fragments_subset: "set (fst (cleanup_fragments now ttl frs fs)) \<subseteq> set frs"
  by (induction frs arbitrary: fs) (auto split: prod.splits, (metis fst_conv subsetD)+)

lemma cleanup_topics_subset: "set (frags (fst (cleanup_topics now order fm fs)) t) \<subseteq> set (frags fm t)"
proof (induction now order fm fs rule: cleanup_topics.induct)
  case (2 now topic topics fm fs)
  obtain valid fs' where v: "cleanup_fragments now (fm_ttl fm) (frags fm topic) fs = (valid, fs')" by fastforce
  define fm1 where "fm1 = fm\<lparr>fm_fragments := (fm_fragments fm)(topic := if valid = [] then None else Some valid)\<rparr>"
  have "set (frags fm1 t) \<subseteq> set (frags fm t)"
    using cleanup_fragments_subset [of now "fm_ttl fm" "frags fm topic" fs] v by (auto simp: frags_def fm1_def)
  with 2 v show ?case by (auto simp: fm1_def)
qed simp

interpretation cleaner: ticker_loop cleanup_body Returns "\<lambda>s. \<forall>t. set (frags (fst s) t) \<subseteq> F t"
  for F
  using cleanup_topics_subset
  by unfold_locales (auto simp: cleanup_body_def cleanupExpiredFragments_def, blast)

text \<open>The flush of the log, which flushes once more when it ends; it returns as long as nobody keeps the mutex.\<close>

definition flush_body :: "flush_event \<Rightarrow> wal \<times> fsys \<Rightarrow> (wal \<times> fsys) call" where
  "flush_body ev s = bind_call (flushRoutine_step ev (fst s) (snd s)) (\<lambda>(_, fs'). Returns (fst s, fs'))"

definition flushRoutine :: "unit tick_event \<Rightarrow> (wal \<times> fsys) ticking \<Rightarrow> (wal \<times> fsys) ticking call" where
  "flushRoutine = tick_step (\<lambda>_. flush_body FlushTick) (flush_body FlushStop)"

lemma flush_body_free: "\<not> w_mu (fst s) \<Longrightarrow> \<exists>s'. flush_body ev s = Returns s' \<and> \<not> w_mu (fst s')"
  by (cases s) (auto simp: flush_body_def flushRoutine_step_def Flush_def split: option.splits prod.splits)

interpretation flusher: ticker_loop "\<lambda>_. flush_body FlushTick" "flush_body FlushStop" "\<lambda>s. \<not> w_mu (fst s)"
  by unfold_locales (rule flush_body_free, assumption)+

section \<open>The gRPC server\<close>

text \<open>
  \<^verbatim>\<open>GracefulStop\<close> is a call of gRPC and a parameter. What its documentation says of it is the interface: it returns once
  the handlers that are under way have returned, in whatever order they do, and at once if there is none.
\<close>

fun run_all :: "('e \<Rightarrow> 's \<Rightarrow> 's call) \<Rightarrow> 'e list \<Rightarrow> 's \<Rightarrow> 's call" where
  "run_all exec [] st = Returns st"
| "run_all exec (ev # evs) st = bind_call (exec ev st) (run_all exec evs)"

definition graceful_waits :: "('e \<Rightarrow> 's \<Rightarrow> 's call) \<Rightarrow> ('e list \<Rightarrow> 's \<Rightarrow> 's call) \<Rightarrow> bool" where
  "graceful_waits exec graceful \<longleftrightarrow>
     (\<forall>st. graceful [] st = Returns st) \<and>
     (\<forall>evs st st'. graceful evs st = Returns st' \<longrightarrow> (\<exists>evs'. set evs' = set evs \<and> run_all exec evs' st = Returns st'))"

locale graceful_server =
  fixes exec :: "'e \<Rightarrow> 's \<Rightarrow> 's call" and graceful :: "'e list \<Rightarrow> 's \<Rightarrow> 's call"
  assumes waits: "graceful_waits exec graceful"
begin

lemma idle: "graceful [] st = Returns st"
  using waits by (simp add: graceful_waits_def)

text \<open>A handler that blocks in every state the others can lead to keeps the server from stopping.\<close>

lemma stuck:
  assumes "J st" and "\<And>ev st st'. J st \<Longrightarrow> exec ev st = Returns st' \<Longrightarrow> J st'"
    and "\<And>st. J st \<Longrightarrow> exec h st = Blocks" and "h \<in> set evs"
  shows "graceful evs st \<noteq> Returns st'"
proof
  assume "graceful evs st = Returns st'"
  with waits obtain evs' where e: "set evs' = set evs" "run_all exec evs' st = Returns st'"
    unfolding graceful_waits_def by blast
  have "run_all exec hs st \<noteq> Returns st'" if "J st" "h \<in> set hs" for hs st
    using that
  proof (induction hs arbitrary: st)
    case (Cons ev hs)
    show ?case
    proof (cases "exec ev st")
      case (Returns st1)
      with Cons assms(2) [OF Cons.prems(1) Returns] assms(3) [OF Cons.prems(1)] show ?thesis by auto
    qed simp_all
  qed simp
  with assms(1,4) e show False by simp
qed

end

text \<open>A server that runs its handlers one after the other is one.\<close>

lemma run_all_waits: "graceful_waits exec (run_all exec)"
  by (auto simp: graceful_waits_def)

definition sentinel_handler ::
  "'w etcd_client \<Rightarrow> 'w broker_net \<Rightarrow> sentinel_event \<Rightarrow> sentinel_server \<times> 'w \<Rightarrow> (sentinel_server \<times> 'w) call" where
  "sentinel_handler cl net ev st = sentinel_exec cl net ev (fst st) (snd st)"

definition broker_handler :: "stream_round list \<Rightarrow> broker_server \<times> fsys \<Rightarrow> (broker_server \<times> fsys) call" where
  "broker_handler rs st = bind_call (SendMessage rs (fst st) (snd st)) (\<lambda>((resps, e, bs), fs). Returns (bs, fs))"

interpretation sentinel_grpc: graceful_server "sentinel_handler cl net" "run_all (sentinel_handler cl net)" for cl net
  by unfold_locales (rule run_all_waits)

interpretation broker_grpc: graceful_server broker_handler "run_all broker_handler"
  by unfold_locales (rule run_all_waits)

section \<open>The sentinel as a process\<close>

record 'w sentinel_process =
  sp_stopped :: bool
  sp_grpcServer :: bool
  sp_checker :: health_checker
  sp_world :: 'w

definition new_sentinel :: "string \<Rightarrow> string \<Rightarrow> bool \<Rightarrow> 'w \<Rightarrow> 'w sentinel_process" where
  "new_sentinel sentinelID address etcd w =
     \<lparr>sp_stopped = False, sp_grpcServer = False, sp_checker = NewHealthChecker (NewSentinelServer sentinelID address etcd), sp_world = w\<rparr>"

definition start_sentinel :: "'w etcd_client \<Rightarrow> time \<Rightarrow> bool \<Rightarrow> 'w sentinel_process \<Rightarrow> (bool \<times> 'w sentinel_process) call" where
  "start_sentinel cl now listen p =
     bind_call (Sentinel.Start cl now listen (tk_state (sp_checker p)) (sp_world p)) (\<lambda>(ok, s, w).
       if \<not> ok then Returns (False, p)
       else Returns (True, p\<lparr>sp_grpcServer := True, sp_checker := HealthChecker_Start ((sp_checker p)\<lparr>tk_state := s\<rparr>), sp_world := w\<rparr>))"

text \<open>
  Closing the etcd manager cancels its context, which ends the election loop and the watch, and closes the client; an error
  is only logged. Both calls are the client library's.
\<close>

record 'e etcd_conn =
  ec_cancel :: "'e \<Rightarrow> 'e"
  ec_Close :: "'e \<Rightarrow> bool \<times> 'e"
  ec_Endpoints :: "string list"

definition etcd_Close :: "'e etcd_conn \<Rightarrow> 'e \<Rightarrow> bool \<times> 'e" where
  "etcd_Close conn e = ec_Close conn (ec_cancel conn e)"

definition GetEtcdEndpoints :: "'e etcd_conn \<Rightarrow> string list" where
  "GetEtcdEndpoints conn = ec_Endpoints conn"

text \<open>\<^verbatim>\<open>Stop\<close>: nothing is ever added to the wait group of the server.\<close>

definition stop_sentinel ::
  "'w etcd_conn \<Rightarrow> (sentinel_server \<times> 'w \<Rightarrow> (sentinel_server \<times> 'w) call) \<Rightarrow> (time \<times> string list) tick_event list \<Rightarrow>
   'w sentinel_process \<Rightarrow> 'w sentinel_process call" where
  "stop_sentinel conn graceful sched p =
     (if sp_stopped p then Panics
      else bind_call (HealthChecker_Stop sched (sp_checker p)) (\<lambda>hc.
        let s = tk_state hc;
            w = (if ss_etcdManager s \<noteq> None then snd (etcd_Close conn (sp_world p)) else sp_world p)
        in bind_call (if sp_grpcServer p then graceful (s, w) else Returns (s, w)) (\<lambda>(s1, w1).
             Returns (p\<lparr>sp_stopped := True, sp_checker := hc\<lparr>tk_state := s1\<rparr>, sp_world := w1\<rparr>))))"

text \<open>
  The life of a sentinel from its start to its stop: handlers run on its state and the world, and the health checker goes
  through its loop.
\<close>

inductive sentinel_life :: "'w etcd_client \<Rightarrow> 'w broker_net \<Rightarrow> 'w sentinel_process \<Rightarrow> bool" for cl net where
  start: "start_sentinel cl now listen (new_sentinel i a e w) = Returns (True, p) \<Longrightarrow> sentinel_life cl net p"
| handler: "sentinel_life cl net p \<Longrightarrow>
    sentinel_handler cl net ev (tk_state (sp_checker p), w) = Returns (s', w') \<Longrightarrow>
    sentinel_life cl net (p\<lparr>sp_checker := (sp_checker p)\<lparr>tk_state := s'\<rparr>, sp_world := w'\<rparr>)"
| checker: "sentinel_life cl net p \<Longrightarrow> checkRoutine ev (sp_checker p) = Returns hc \<Longrightarrow> sentinel_life cl net (p\<lparr>sp_checker := hc\<rparr>)"

lemma updateBrokerStatus_etcd: "ss_etcdManager (updateBrokerStatus is st s) = ss_etcdManager s"
proof -
  have "ss_etcdManager (fold (set_status st) is s) = ss_etcdManager s"
    by (induction "is" arbitrary: s) (simp_all add: set_status_def update_broker_def split: option.splits)
  then show ?thesis by (simp add: updateBrokerStatus_def)
qed

lemma replayOperation_etcd:
  "replayOperation cl now op s w = Returns (ok, s', w') \<Longrightarrow> ss_etcdManager s' = ss_etcdManager s"
  by (auto simp: replayOperation_def replayAddBrokerToHashRing_def replayRegisterBroker_def replayUnregisterBroker_def
      replayGenerateTopicReplicas_def replayHandleUnreachableBrokers_def with_params_def bind_call_Returns add_broker_def
      drop_broker_def updateBrokerStatus_etcd case_prod_beta split: if_splits option.splits)

lemma replay_operations_etcd:
  "replay_operations (replayOperation cl now) ops s w = Returns (ok, s', w') \<Longrightarrow> ss_etcdManager s' = ss_etcdManager s"
proof (induction ops arbitrary: s w)
  case (Cons op ops)
  then obtain ok1 s1 w1 where "replayOperation cl now op s w = Returns (ok1, s1, w1)"
    and "(if ok1 then replay_operations (replayOperation cl now) ops s1 w1 else Returns (False, s1, w1)) = Returns (ok, s', w')"
    by (auto simp: bind_call_Returns)
  with Cons.IH [of s1 w1] replayOperation_etcd show ?case by (metis call.inject Pair_inject)
qed simp

lemma recover_fold_etcd: "ss_etcdManager (fold (\<lambda>b. add_broker (f b)) bs s) = ss_etcdManager s"
  by (induction bs arbitrary: s) (simp_all add: add_broker_def)

lemma Start_etcd:
  "Sentinel.Start cl now listen s w = Returns (ok, s', w') \<Longrightarrow> ss_etcdManager s' = ss_etcdManager s"
  by (auto simp: Sentinel.Start_def RecoverFromEtcd_def ReplayOperations_def recoverBrokersFromEtcd_def bind_call_Returns recover_fold_etcd
      split: if_splits prod.splits sum.splits dest!: replay_operations_etcd)

text \<open>What holds in the life of a sentinel: one goroutine of the checker runs, and no broker ever has a lease.\<close>

definition alive :: "'w sentinel_process \<Rightarrow> bool" where
  "alive p \<longleftrightarrow> \<not> sp_stopped p \<and> sp_grpcServer p \<and> \<not> tk_closed (sp_checker p) \<and> length (tk_routines (sp_checker p)) = 1 \<and>
     no_lease (tk_state (sp_checker p))"

lemma checkRoutine_open:
  assumes "checkRoutine ev hc = Returns hc'" and "\<not> tk_closed hc"
  shows "\<not> tk_closed hc' \<and> length (tk_routines hc') = length (tk_routines hc) \<and> ss_etcdManager (tk_state hc') = ss_etcdManager (tk_state hc)"
  using assms by (cases ev) (auto simp: checkRoutine_def check_body_def checkBrokers_etcd split: if_splits)

lemma no_lease_cong: "ss_etcdManager s' = ss_etcdManager s \<Longrightarrow> no_lease s' = no_lease s"
  by (simp add: no_lease_def)

lemma sentinel_life_alive: "sentinel_life cl net p \<Longrightarrow> alive p"
proof (induction rule: sentinel_life.induct)
  case (start now listen i a e w p)
  then obtain s w1 where s: "Sentinel.Start cl now listen (NewSentinelServer i a e) w = Returns (True, s, w1)"
    and p: "p = (new_sentinel i a e w)\<lparr>sp_grpcServer := True,
      sp_checker := HealthChecker_Start ((sp_checker (new_sentinel i a e w))\<lparr>tk_state := s\<rparr>), sp_world := w1\<rparr>"
    by (auto simp: start_sentinel_def new_sentinel_def NewHealthChecker_def new_ticking_def bind_call_Returns split: if_splits)
  from no_lease_cong [OF Start_etcd [OF s]] no_lease_New have "no_lease s" by blast
  with p show ?case by (simp add: alive_def new_sentinel_def HealthChecker_Start_def spawn_def NewHealthChecker_def new_ticking_def)
next
  case (handler p ev w s' w')
  then show ?case using no_lease_exec by (auto simp: alive_def sentinel_handler_def)
next
  case (checker p ev hc)
  then have open_: "\<not> tk_closed (sp_checker p)" by (simp add: alive_def)
  note hc = checkRoutine_open [OF checker.hyps(2) open_]
  with checker.IH no_lease_cong [of "tk_state hc" "tk_state (sp_checker p)"] show ?case by (simp add: alive_def)
qed

text \<open>The checker's body always returns, whatever the state of the registry.\<close>

interpretation any_checker: ticker_loop check_body Returns "\<lambda>s. ss_etcdManager s = m" for m
  by unfold_locales (simp_all add: check_body_def checkBrokers_etcd)

lemma exec_etcd:
  assumes "no_lease s" and "sentinel_exec cl net ev s w = Returns (s', w')" and "ss_etcdManager s \<noteq> None"
  shows "ss_etcdManager s' \<noteq> None"
proof (cases ev)
  case (SKeepAlive now i a)
  with assms show ?thesis by (auto simp: forget_Returns KeepAlive_no_lease)
next
  case (SRegister now i a ts)
  with assms show ?thesis
    by (auto simp: forget_Returns RegisterBroker_def add_broker_def Let_def bind_call_Returns split: if_splits)
next
  case (SUnregister i)
  with assms show ?thesis
    by (auto simp: no_lease_def forget_Returns UnregisterBroker_def UnregisterBrokerHeartbeat_def Let_def
        split: option.splits if_splits prod.splits dest!: unregister_local_etcd)
next
  case (SGetLeader now req)
  with assms show ?thesis by (auto simp: forget_Returns dest: GetTopicLeader_etcd)
next
  case (SCheck now order)
  with assms show ?thesis by (auto simp: checkBrokers_etcd)
next
  case (SWatch now e)
  with assms show ?thesis
    by (auto simp: WatchBrokerHeartbeats_def handleBrokerHeartbeatChange_def drop_broker_def split: prod.splits option.splits if_splits)
qed

section \<open>The broker\<close>

text \<open>The log file has reached its limit and can be read: from now on a write of the log waits for ever.\<close>

definition log_full :: "broker_server \<Rightarrow> fsys \<Rightarrow> bool" where
  "log_full bs fs \<longleftrightarrow> (\<exists>f. w_currentFile (bs_wal bs) = Some f \<and> f_open f \<and> fault fs = None \<and>
     w_maxFileSize (bs_wal bs) \<le> int (length (inodes fs (f_ino f))))"

lemma log_full_Write: "log_full bs fs \<Longrightarrow> WAL.WriteMessage stamp now t i p (bs_wal bs) fs = Blocks"
  by (auto simp: log_full_def WAL.WriteMessage_def Write_def rotate_if_full_def createNewFile_def file_Size_def)

lemma log_full_sel [simp]: "log_full (bs\<lparr>bs_stopped := b\<rparr>) fs = log_full bs fs"
  by (simp add: log_full_def)

lemma processMessage_full:
  assumes "log_full bs fs"
  shows "processMessage stamp now clk q bs fs =
    (if mq_Topic q \<in> set (bs_topics bs) \<and> IsLeader (mq_Topic q) (bs_rm bs) then Blocks else Returns ((Inr (retry q), bs), fs))"
  using log_full_Write [OF assms] by (simp add: processMessage_def Let_def)

lemma SendMessage_full:
  "log_full bs fs \<Longrightarrow> SendMessage rs bs fs = Returns ((resps, e, bs'), fs') \<Longrightarrow> bs' = bs \<and> fs' = fs"
proof (induction rs bs fs arbitrary: resps rule: SendMessage.induct)
  case (6 a rs bs fs)
  then show ?case by (fastforce simp: processMessage_full bind_call_Returns split: if_splits prod.splits)
qed auto

section \<open>Properties\<close>

lemma stop_sentinel_returns:
  assumes "alive p" and "2 \<le> length cxs" and "graceful_waits (sentinel_handler cl net) graceful"
  shows "\<exists>p'. stop_sentinel conn (graceful []) (map (\<lambda>(c, x). Pass 0 c x) cxs) p = Returns p' \<and> sp_stopped p' \<and>
    tk_closed (sp_checker p') \<and> tk_routines (sp_checker p') = []"
proof -
  obtain r where "tk_routines (sp_checker p) = [r]" using assms(1) by (auto simp: alive_def length_Suc_conv)
  then have "passes_left (sp_checker p) \<le> length cxs" using assms(2) by (simp add: passes_left_def)
  with assms(1) obtain hc where "HealthChecker_Stop (map (\<lambda>(c, x). Pass 0 c x) cxs) (sp_checker p) = Returns hc"
    "tk_closed hc" "tk_routines hc = []"
    using any_checker.stop_ends [of "sp_checker p" _ cxs] by (auto simp: alive_def HealthChecker_Stop_def)
  with assms(1) graceful_server.idle [OF graceful_server.intro [OF assms(3)]] show ?thesis
    by (simp add: stop_sentinel_def alive_def Let_def)
qed

text \<open>
  C28: A sentinel with no handler under way stops. In every state of its life, once the goroutine of the health
  checker has passed its \<^verbatim>\<open>select\<close> twice after the close, whichever ready case it took, \<^verbatim>\<open>Stop\<close> returns; no goroutine of the
  checker is left, so that no later tick changes the registry, and a second \<^verbatim>\<open>Stop\<close> panics.
\<close>

theorem sentinel_stops:
  assumes "sentinel_life cl net p" and "2 \<le> length cxs" and "graceful_waits (sentinel_handler cl net) graceful"
  shows "\<exists>p'. stop_sentinel conn (graceful []) (map (\<lambda>(c, x). Pass 0 c x) cxs) p = Returns p' \<and>
    tick_run check_body Returns evs (sp_checker p') = Returns (sp_checker p') \<and>
    stop_sentinel conn (graceful []) sched p' = Panics"
  using stop_sentinel_returns [OF sentinel_life_alive [OF assms(1)] assms(2,3), of conn]
  by (auto simp: tick_run_quiet stop_sentinel_def)

theorem sentinel_stops_witness:
  "\<exists>p p'. start_sentinel mem_client 0 True (new_sentinel ''s'' ''h:9'' False []) = Returns (True, p) \<and>
    stop_sentinel \<lparr>ec_cancel = id, ec_Close = Pair True, ec_Endpoints = []\<rparr> (run_all (sentinel_handler mem_client follower_net) [])
      [Pass 0 True (0, []), Pass 0 True (0, [])] p = Returns p'"
proof -
  obtain p where p: "start_sentinel mem_client 0 True (new_sentinel ''s'' ''h:9'' False []) = Returns (True, p)"
    by (simp add: start_sentinel_def new_sentinel_def Sentinel.Start_def NewHealthChecker_def new_ticking_def NewSentinelServer_def)
  with sentinel_stops [OF sentinel_life.start [OF p, of follower_net] _ run_all_waits, of "[(True, 0, []), (True, 0, [])]"]
  show ?thesis by fastforce
qed

text \<open>
  C35: With etcd, a sentinel that has been asked for a heartbeat never stops. In every state of its life, with the call
  of \<^verbatim>\<open>KeepAlive\<close> of any broker under way and whatever else is, \<^verbatim>\<open>Stop\<close> does not return: the call waits for ever, and
  \<^verbatim>\<open>GracefulStop\<close> waits for it.
\<close>

theorem sentinel_never_stops:
  assumes "sentinel_life cl net p" and "ss_etcdManager (tk_state (sp_checker p)) \<noteq> None"
    and "SKeepAlive now brokerID address \<in> set pending" and "graceful_waits (sentinel_handler cl net) graceful"
  shows "stop_sentinel conn (graceful pending) sched p \<noteq> Returns p'"
proof
  assume stop: "stop_sentinel conn (graceful pending) sched p = Returns p'"
  have p: "alive p" by (rule sentinel_life_alive [OF assms(1)])
  from stop p obtain hc w s1 w1 where hc: "HealthChecker_Stop sched (sp_checker p) = Returns hc"
    and g: "graceful pending (tk_state hc, w) = Returns (s1, w1)"
    by (auto simp: stop_sentinel_def alive_def bind_call_Returns Let_def)
  have same: "ss_etcdManager (tk_state hc) = ss_etcdManager (tk_state (sp_checker p))"
    using any_checker.stop_keeps [OF refl hc [unfolded HealthChecker_Stop_def]] by simp
  let ?J = "\<lambda>st :: sentinel_server \<times> 'a. no_lease (fst st) \<and> ss_etcdManager (fst st) \<noteq> None"
  have "graceful pending (tk_state hc, w) \<noteq> Returns (s1, w1)"
  proof (rule graceful_server.stuck [OF graceful_server.intro [OF assms(4)], where J = ?J])
    show "?J (tk_state hc, w)" using p assms(2) same by (auto simp: alive_def no_lease_def)
  next
    fix ev st st' assume "?J st" and "sentinel_handler cl net ev st = Returns st'"
    then show "?J st'" using no_lease_exec exec_etcd by (cases st') (fastforce simp: sentinel_handler_def)
  next
    fix st assume "?J st"
    then show "sentinel_handler cl net (SKeepAlive now brokerID address) st = Blocks"
      by (simp add: sentinel_handler_def forget_def KeepAlive_no_lease)
  qed (rule assms(3))
  with g show False by simp
qed

theorem sentinel_never_stops_witness:
  "\<exists>p. start_sentinel mem_client 0 True (new_sentinel ''s'' ''h:9'' True []) = Returns (True, p) \<and>
    (\<forall>conn sched p'. stop_sentinel conn (run_all (sentinel_handler mem_client follower_net) [SKeepAlive 0 ''a'' ''h:1'']) sched p \<noteq> Returns p')"
proof -
  obtain p where p: "start_sentinel mem_client 0 True (new_sentinel ''s'' ''h:9'' True []) = Returns (True, p)"
    and em: "ss_etcdManager (tk_state (sp_checker p)) \<noteq> None"
    by (simp add: start_sentinel_def new_sentinel_def Sentinel.Start_def NewHealthChecker_def new_ticking_def NewSentinelServer_def
        HealthChecker_Start_def spawn_def RecoverFromEtcd_def ReplayOperations_def recoverBrokersFromEtcd_def GetAllOperations_def
        GetBrokerHeartbeats_def mem_client_def operations_of_def brokers_of_def map_filter_def)
  have "stop_sentinel conn (run_all (sentinel_handler mem_client follower_net) [SKeepAlive 0 ''a'' ''h:1'']) sched p \<noteq> Returns p'"
    for conn sched p'
    by (rule sentinel_never_stops [OF sentinel_life.start [OF p] em _ run_all_waits]) simp
  with p show ?thesis by blast
qed

text \<open>
  A broker whose log is full never stops. If a stream has brought a message for a topic that the broker leads, whatever
  other streams are open, \<^verbatim>\<open>Stop\<close> does not return: the handler waits for ever in the rotation of the log, and
  \<^verbatim>\<open>GracefulStop\<close> waits for it.
\<close>

theorem broker_never_stops:
  assumes "log_full bs fs" and "bs_grpcServer bs" and "Arrives a # rs \<in> set pending"
    and "mq_Topic (ar_request a) \<in> set (bs_topics bs)" and "IsLeader (mq_Topic (ar_request a)) (bs_rm bs)"
    and "graceful_waits broker_handler graceful"
  shows "BrokerServer.Stop (graceful pending) order order' bs fs \<noteq> Returns st"
proof
  assume "BrokerServer.Stop (graceful pending) order order' bs fs = Returns st"
  then obtain st1 where g: "graceful pending (bs\<lparr>bs_stopped := True\<rparr>, fs) = Returns st1"
    using assms(2) by (auto simp: BrokerServer.Stop_def bind_call_Returns Let_def split: if_splits)
  let ?J = "\<lambda>st. st = (bs\<lparr>bs_stopped := True\<rparr>, fs)"
  have "graceful pending (bs\<lparr>bs_stopped := True\<rparr>, fs) \<noteq> Returns st1"
  proof (rule graceful_server.stuck [OF graceful_server.intro [OF assms(6)], where J = ?J])
    fix ev st st' assume "?J st" and "broker_handler ev st = Returns st'"
    then show "?J st'"
      using SendMessage_full [of "bs\<lparr>bs_stopped := True\<rparr>" fs ev] assms(1) by (auto simp: broker_handler_def bind_call_Returns)
  next
    fix st assume "?J st"
    then show "broker_handler (Arrives a # rs) st = Blocks"
      using processMessage_full [of "bs\<lparr>bs_stopped := True\<rparr>" fs] assms(1,4,5) by (simp add: broker_handler_def)
  qed (use assms(3) in simp_all)
  with g show False by simp
qed

theorem broker_never_stops_witness:
  "\<exists>bs fs. log_full bs fs \<and> (\<forall>order order' st.
     BrokerServer.Stop (run_all broker_handler [[Arrives \<lparr>ar_request = \<lparr>mq_Topic = ''orders'', mq_Payload = [1], mq_MessageId = 5\<rparr>,
       ar_stamp = ''s'', ar_now = 0, ar_clk = (\<lambda>_. 0), ar_sent = True\<rparr>]]) order order' bs fs \<noteq> Returns st)"
proof -
  obtain w fs where w: "wal_has w fs []" "FileSys.healthy fs"
    using createNewFile_has [of empty_fs "wal_in ''data/wal''" "''s''" thesis] by (simp add: wal_in_def)
  obtain rm where rm: "RaftManager.SetTopicRole ''orders'' TOPIC_ROLE_LEADER [''h2''] ''h1'' (NewRaftManager ''b1'' ''h1'') = Returns rm"
    "IsLeader ''orders'' rm"
    by (simp add: RaftManager.SetTopicRole_def NewRaftManager_def IsLeader_def Let_def)
  define bs where "bs = sample_broker\<lparr>bs_wal := w\<lparr>w_maxFileSize := 8\<rparr>, bs_rm := rm, bs_topics := [''orders''], bs_grpcServer := True\<rparr>"
  have full: "log_full bs fs" using w by (auto simp: log_full_def bs_def wal_has_def wal_header_def wal_magic_def)
  have "BrokerServer.Stop (run_all broker_handler [[Arrives \<lparr>ar_request = \<lparr>mq_Topic = ''orders'', mq_Payload = [1], mq_MessageId = 5\<rparr>,
       ar_stamp = ''s'', ar_now = 0, ar_clk = (\<lambda>_. 0), ar_sent = True\<rparr>]]) order order' bs fs \<noteq> Returns st" for order order' st
    by (rule broker_never_stops [OF full _ list.set_intros(1) _ _ run_all_waits]) (simp_all add: bs_def rm(2))
  with full show ?thesis by blast
qed

lemma stop_clusters_Returns:
  "stop_clusters ts rm = Returns () \<longleftrightarrow>
     (\<forall>t \<in> set ts. \<forall>c. rm_clusters rm t = Some c \<longrightarrow> \<not> rn_stopped (tc_raftNode c) \<and> rn_tasks (tc_raftNode c) = [])"
  by (induction ts) (auto simp: stop_locked_def RaftNode.Stop_def bind_call_Returns split: option.splits if_splits)

lemma WAL_Close_Returns: "(\<exists>x. WAL.Close w fs = Returns x) \<longleftrightarrow> \<not> w_stopped w \<and> \<not> w_mu w"
  by (auto simp: WAL.Close_def flushRoutine_step_def Flush_def bind_call_Returns split: option.splits prod.splits)

text \<open>
  When a broker with no open stream stops: exactly if it is not stopped yet, its log and its clean-up are not closed, nobody
  keeps the mutex of the log, and of no topic a Raft node is stopped already or has a goroutine that still waits to send.
\<close>

theorem broker_stop_iff:
  assumes "graceful_waits broker_handler graceful"
  shows "(\<exists>st. BrokerServer.Stop (graceful []) order order' bs fs = Returns st) \<longleftrightarrow>
    \<not> bs_stopped bs \<and> \<not> (fm_ticker (bs_fm bs) \<and> fm_stopped (bs_fm bs)) \<and> \<not> w_stopped (bs_wal bs) \<and> \<not> w_mu (bs_wal bs) \<and>
    (\<forall>t \<in> set order'. \<forall>c. rm_clusters (bs_rm bs) t = Some c \<longrightarrow> \<not> rn_stopped (tc_raftNode c) \<and> rn_tasks (tc_raftNode c) = [])"
proof -
  note idle = graceful_server.idle [OF graceful_server.intro [OF assms]]
  have close: "(\<exists>rm'. RaftManager.Close order' rm = Returns rm') \<longleftrightarrow> stop_clusters order' rm = Returns ()" for rm
    by (simp add: RaftManager.Close_def bind_call_Returns)
  show ?thesis
  proof (cases "bs_stopped bs \<or> fm_ticker (bs_fm bs) \<and> fm_stopped (bs_fm bs)")
    case False
    obtain fm1 fs1 where "Fragment.Close order (bs_fm bs) fs = Returns (fm1, fs1)"
      using False by (cases "close_topics order ((bs_fm bs)\<lparr>fm_stopped := fm_ticker (bs_fm bs)\<rparr>) fs") (auto simp: Fragment.Close_def)
    with False show ?thesis
      using WAL_Close_Returns [of "bs_wal bs" fs1] close [of "bs_rm bs"] stop_clusters_Returns [of order' "bs_rm bs"]
      by (auto simp: BrokerServer.Stop_def idle Let_def bind_call_Returns split: prod.splits if_splits)
  qed (auto simp: BrokerServer.Stop_def idle Let_def Fragment.Close_def)
qed

lemma broker_stop_state:
  "graceful_waits broker_handler graceful \<Longrightarrow> BrokerServer.Stop (graceful []) order order' bs fs = Returns st \<Longrightarrow> bs_stopped (fst st)"
  by (auto simp: BrokerServer.Stop_def bind_call_Returns Let_def graceful_waits_def split: if_splits prod.splits)

end
