(* ===== verification/Programs.thy ===== *)
theory Programs
  imports Lifecycle BrokerReach Client Logger
begin

text \<open>
  The programs under \<^verbatim>\<open>cmd/\<close>: the client, the broker and the sentinel from the command line to their end. The texts of
  the messages are parameters \<open>msg\<close>; the lines that the servers and clients print while they work are not part of the
  output here, because a logger that is open prints without an effect on them. The files of the logger and of the broker are
  the same file system. A fatal message does not return, so what follows one in a program is never reached.
\<close>

section \<open>How a program ends\<close>

datatype 'a program = Ends 'a log_state | Exits log_state | Panicked | Hangs

fun then_log :: "'a log_result \<Rightarrow> ('a \<Rightarrow> log_state \<Rightarrow> 'b program) \<Rightarrow> 'b program" where
  "then_log (LogReturns x s) f = f x s"
| "then_log (LogPanics s) f = Panicked"
| "then_log (LogExits s) f = Exits s"

fun then_call :: "'a call \<Rightarrow> ('a \<Rightarrow> 'b program) \<Rightarrow> 'b program" where
  "then_call (Returns x) f = f x"
| "then_call Blocks f = Hangs"
| "then_call Panics f = Panicked"

fun then_option :: "'a option \<Rightarrow> ('a \<Rightarrow> 'b program) \<Rightarrow> 'b program" where
  "then_option (Some x) f = f x"
| "then_option None f = Hangs"

section \<open>The client\<close>

text \<open>\<^verbatim>\<open>runProducer\<close>; the deferred \<^verbatim>\<open>Close\<close> runs when it returns, but not when a fatal message ends the process.\<close>

definition close_producer :: "(nat \<Rightarrow> string) \<Rightarrow> producer \<Rightarrow> 'w \<Rightarrow> log_state \<Rightarrow> 'w program" where
  "close_producer msg p w s =
     then_call (producer_Close p) (\<lambda>p1. then_log (Info (msg 3) s) (\<lambda>_ s1. Ends w s1))"

definition runProducer ::
  "(nat \<Rightarrow> string) \<Rightarrow> 'w client_net \<Rightarrow> string \<Rightarrow> string \<Rightarrow> bytes \<Rightarrow> int \<Rightarrow> log_state \<Rightarrow> 'w \<Rightarrow> 'w program" where
  "runProducer msg cn sentinelAddress topic message windowSize s w =
     then_log (open_log ''logs/producer.log'' s) (\<lambda>_ s1.
     then_log (Infof (msg 0) s1) (\<lambda>_ s2.
     then_option (Client.SendMessage cn topic message (NewProducer sentinelAddress windowSize) w) (\<lambda>(r, p, w1).
       case r of
         Inl err \<Rightarrow> then_log (Fatalf (msg 1) s2) (\<lambda>_ s3. close_producer msg p w1 s3)
       | Inr messageID \<Rightarrow> then_log (Infof (msg 2) s2) (\<lambda>_ s3. close_producer msg p w1 s3))))"

text \<open>
  \<^verbatim>\<open>runConsumer\<close>: \<open>evs\<close> is what the goroutines do until the signal comes, and \<open>sched\<close> what they do after the deferred
  \<^verbatim>\<open>Close\<close> has closed the stop channel, which waits until none is left.
\<close>

definition close_consumer ::
  "(nat \<Rightarrow> string) \<Rightarrow> 'w client_net \<Rightarrow> 'w pull_net \<Rightarrow> nat list \<Rightarrow> 'w consume_state \<Rightarrow> log_state \<Rightarrow> 'w program" where
  "close_consumer msg cn pn sched st s =
     then_call (consume_run cn pn (CStop # map CPass sched) st) (\<lambda>(lps, c, w).
       if lps \<noteq> [] then Hangs
       else then_log (Info (msg 3) s) (\<lambda>_ s1. then_log (Info (msg 4) s1) (\<lambda>_ s2. Ends w s2)))"

definition runConsumer ::
  "(nat \<Rightarrow> string) \<Rightarrow> 'w client_net \<Rightarrow> 'w pull_net \<Rightarrow> nat list \<Rightarrow> nat list \<Rightarrow> string \<Rightarrow> string \<Rightarrow> int \<Rightarrow> log_state \<Rightarrow> 'w \<Rightarrow>
   'w program" where
  "runConsumer msg cn pn evs sched sentinelAddress topic windowSize s w =
     then_log (open_log ''logs/consumer.log'' s) (\<lambda>_ s1.
       case StartConsuming cn topic 0 (NewConsumer sentinelAddress windowSize) w of
         (Inl err, c, w1) \<Rightarrow> then_log (Fatalf (msg 1) s1) (\<lambda>_ s2. Ends w1 s2)
       | (Inr lp, c, w1) \<Rightarrow>
           then_log (Infof (msg 0) s1) (\<lambda>_ s2.
           then_call (consume_run cn pn (map CPass evs) ([lp], c, w1)) (\<lambda>st.
           then_log (Info (msg 2) s2) (\<lambda>_ s3. close_consumer msg cn pn sched st s3))))"

definition client_main ::
  "(nat \<Rightarrow> string) \<Rightarrow> 'w client_net \<Rightarrow> 'w pull_net \<Rightarrow> nat list \<Rightarrow> nat list \<Rightarrow> string \<Rightarrow> string \<Rightarrow> string \<Rightarrow> bytes \<Rightarrow> int \<Rightarrow> string \<Rightarrow>
   log_state \<Rightarrow> 'w \<Rightarrow> 'w program" where
  "client_main msg cn pn evs sched mode sentinelAddress topic message windowSize logLevel s w =
     (let s1 = SetLogLevel logLevel s
      in if mode = ''producer'' then runProducer msg cn sentinelAddress topic message windowSize s1 w
         else if mode = ''consumer'' then runConsumer msg cn pn evs sched sentinelAddress topic windowSize s1 w
         else then_log (Fatalf (msg 5) s1) (\<lambda>_ s2. Ends w s2))"

section \<open>The broker\<close>

text \<open>The handlers that run before the signal are not part of this: \<open>serve\<close> is what they make of the server and the files.\<close>

definition broker_main ::
  "(nat \<Rightarrow> string) \<Rightarrow> string \<Rightarrow> (nat \<Rightarrow> time) \<Rightarrow> bool \<Rightarrow> (broker_server \<times> fsys \<Rightarrow> broker_server \<times> fsys) \<Rightarrow>
   (broker_server \<times> fsys \<Rightarrow> (broker_server \<times> fsys) call) \<Rightarrow> string list \<Rightarrow> string list \<Rightarrow>
   string \<Rightarrow> string \<Rightarrow> string \<Rightarrow> string \<Rightarrow> log_state \<Rightarrow> broker_server program" where
  "broker_main msg stamp clk listen serve graceful order order' brokerID address dataDir logLevel s =
     then_log (broker_main_log logLevel brokerID s) (\<lambda>_ s1.
     then_call (NewBrokerServer stamp clk brokerID address dataDir (lg_fs s1)) (\<lambda>(r, fs1).
       let s2 = s1\<lparr>lg_fs := fs1\<rparr>
       in case r of
            Inl err \<Rightarrow> then_log (Fatalf (msg 0) s2) (\<lambda>_ s3. Panicked)
          | Inr server \<Rightarrow>
              (case BrokerServer.Start listen server of
                 (Some err, server1) \<Rightarrow> then_log (Fatalf (msg 1) s2) (\<lambda>_ s3. Panicked)
               | (None, server1) \<Rightarrow>
                   then_log (Infof (msg 2) s2) (\<lambda>_ s3.
                     case serve (server1, lg_fs s3) of
                       (server2, fs2) \<Rightarrow>
                         then_log (Info (msg 3) (s3\<lparr>lg_fs := fs2\<rparr>)) (\<lambda>_ s4.
                         then_call (BrokerServer.Stop graceful order order' server2 (lg_fs s4)) (\<lambda>(server3, fs3).
                           Ends server3 (s4\<lparr>lg_fs := fs3\<rparr>)))))))"

section \<open>The sentinel\<close>

text \<open>As for the broker, \<open>serve\<close> is what happens between the start and the signal.\<close>

definition sentinel_program ::
  "(nat \<Rightarrow> string) \<Rightarrow> 'w etcd_client \<Rightarrow> 'w etcd_conn \<Rightarrow> time \<Rightarrow> bool \<Rightarrow> ('w sentinel_process \<Rightarrow> 'w sentinel_process) \<Rightarrow>
   (sentinel_server \<times> 'w \<Rightarrow> (sentinel_server \<times> 'w) call) \<Rightarrow> (time \<times> string list) tick_event list \<Rightarrow>
   string \<Rightarrow> string \<Rightarrow> string \<Rightarrow> bool \<Rightarrow> nat \<Rightarrow> string \<Rightarrow> etcd_start \<Rightarrow> bool \<Rightarrow> log_state \<Rightarrow> 'w \<Rightarrow> 'w sentinel_process program" where
  "sentinel_program msg cl conn now listen serve graceful sched sentinelID address logLevel enableEmbedded etcdPort etcdEndpoints
     etcd connected s w =
     then_log (sentinel_main msg sentinelID logLevel enableEmbedded etcdPort etcdEndpoints etcd s) (\<lambda>endpoints s1.
     then_call (start_sentinel cl now listen (new_sentinel sentinelID address (endpoints \<noteq> [] \<and> connected) w)) (\<lambda>(ok, p).
       if \<not> ok then then_log (Fatalf (msg 4) s1) (\<lambda>_ s2. Panicked)
       else then_log (Infof (msg 5) s1) (\<lambda>_ s2.
              let p1 = serve p
              in then_log (Info (msg 6) s2) (\<lambda>_ s3.
                 then_call (stop_sentinel conn graceful sched p1) (\<lambda>p2. Ends p2 s3)))))"

section \<open>A logger that is open\<close>

lemma log_at_open: "lg_logger s \<noteq> None \<Longrightarrow> \<exists>s'. log_at level msg s = LogReturns () s' \<and> lg_logger s' \<noteq> None \<and> lg_logLevel s' = lg_logLevel s"
  by (auto simp: log_at_def logger_Print_def Let_def split: log_target.splits)

lemmas open_prints = log_at_open [where level = INFO, folded Infof_def] log_at_open [where level = INFO, folded Info_def]

lemma Fatalf_open: "lg_logger s \<noteq> None \<Longrightarrow> \<exists>s'. Fatalf msg s = LogExits s'"
  by (cases "lg_logLevel s")
    (auto simp: Fatalf_def shouldLog_def less_eq_LogLevel_def logger_Print_def Let_def split: log_target.splits)

lemma Fatalf_closed: "lg_logger s = None \<Longrightarrow> Fatalf msg s = LogPanics s"
  by (cases "lg_logLevel s") (simp_all add: Fatalf_def shouldLog_def less_eq_LogLevel_def logger_Print_def)

lemma InitLogger_open:
  assumes "\<not> lg_initialized s"
  shows "\<exists>ok s'. InitLogger level path s = LogReturns ok s' \<and> (if ok then lg_logger s' \<noteq> None else \<not> lg_initialized s') \<and>
    (path = [] \<longrightarrow> ok)"
  using assms
  by (auto simp: InitLogger_def initFunc_def Infof_def log_at_def logger_Print_def Let_def
      split: option.splits prod.splits sum.splits)

lemma open_log_open:
  assumes "\<not> lg_initialized s"
  shows "\<exists>s'. open_log path s = LogReturns () s' \<and> lg_logger s' \<noteq> None"
proof -
  obtain ok s1 where i: "InitLogger ''info'' path s = LogReturns ok s1" "if ok then lg_logger s1 \<noteq> None else \<not> lg_initialized s1"
    using InitLogger_open [OF assms, of "''info''" path] by blast
  show ?thesis
    using i assms InitLogger_open [of s1 "''info''" "[]"] by (cases ok) (auto simp: open_log_def IsInitialized_def)
qed

lemma new_process_closed: "\<not> lg_initialized (SetLogLevel logLevel (new_process when fs))"
  by (simp add: new_process_def)

lemma broker_log_open:
  "\<exists>s'. broker_main_log logLevel brokerID (new_process when fs) = LogReturns () s' \<and> lg_logger s' \<noteq> None \<and> lg_logLevel s' = INFO"
proof -
  from open_log_open [OF new_process_closed] open_log_info [OF new_process_closed] show ?thesis
    unfolding broker_main_log_def by (metis log_result.inject(1))
qed

section \<open>What a call leaves of a producer\<close>

definition same_life :: "producer \<Rightarrow> producer \<Rightarrow> bool" where
  "same_life p p' \<longleftrightarrow> pr_wg p' = pr_wg p \<and> pr_stopped p' = pr_stopped p"

lemma same_life_simps [simp]:
  "same_life p p" "same_life p (in_window f q) = same_life p q" "same_life p (forget_broker a q) = same_life p q"
  "same_life (forget_broker a p) q = same_life p q" "same_life (in_window f p) q = same_life p q"
  "take_id p = (i, p') \<Longrightarrow> same_life p' q = same_life p q"
  "take_id q = (i, q') \<Longrightarrow> same_life p q' = same_life p q"
  "Connect cn b p w = (ok, p1, w1) \<Longrightarrow> same_life p1 q = same_life p q"
  "Connect cn b q w = (ok, q1, w1) \<Longrightarrow> same_life p q1 = same_life p q"
  by (auto simp: same_life_def producer_step_defs Connect_def split: if_splits prod.splits bool.splits)

lemma SendMessage_life:
  assumes "Client.SendMessage cn topic payload p w = Some (r, p', w')"
  shows "same_life p p'"
proof -
  let ?P = "\<lambda>cn topic payload p w res. same_life p (fst (snd res))"
  have "?P cn topic payload p w (r, p', w')"
  proof (rule Client.SendMessage.raw_induct [OF _ assms, where P = ?P], goal_cases)
    case (1 f cn topic payload p w res)
    note IH = 1(1) and run = 1(2)
    obtain g w1 where g: "Client.getTopicLeader cn (pr_sentinelAddress p) topic 3 w = (g, w1)" by (metis prod.exhaust)
    show ?case
    proof (cases g)
      case (Inl err)
      with run g show ?thesis by auto
    next
      case (Inr leader)
      obtain ok p1 w2 where c: "Connect cn leader p w1 = (ok, p1, w2)" by (metis prod.exhaust)
      obtain i p2 where t: "take_id p1 = (i, p2)" by (cases "take_id p1")
      have p2: "same_life p p2" using c t by simp
      have again: "same_life p (fst (snd res))"
        if "f cn topic payload (forget_broker leader (in_window (Remove i) (in_window (Add i) p2))) w3 = Some res" for w3
        using IH [OF that] c t by simp
      show ?thesis
        using run p2 again c
        by (auto simp: g Inr t split: if_splits sum.splits prod.splits)
    qed
  qed
  then show ?thesis by simp
qed

lemma then_call_exits: "then_call c f = Exits s \<longleftrightarrow> (\<exists>x. c = Returns x \<and> f x = Exits s)"
  by (cases c) auto

lemma close_consumer_ends:
  assumes "lg_logger s \<noteq> None"
  shows "close_consumer msg cn pn sched st s \<noteq> Exits s'"
proof -
  obtain s1 s2 where "Info (msg 3) s = LogReturns () s1" "Info (msg 4) s1 = LogReturns () s2"
    using open_prints(2) [OF assms] open_prints(2) by metis
  then show ?thesis by (auto simp: close_consumer_def then_call_exits split: prod.splits if_splits)
qed

section \<open>What the recovery keeps of a broker\<close>

definition fresh_broker :: "wal \<Rightarrow> broker_server \<Rightarrow> bool" where
  "fresh_broker w bs \<longleftrightarrow> \<not> bs_stopped bs \<and> \<not> fm_stopped (bs_fm bs) \<and> bs_wal bs = w \<and> rm_clusters (bs_rm bs) = Map.empty"

lemma CreateFragment_stopped: "CreateFragment clk t fm fs = ((r, fm'), fs') \<Longrightarrow> fm_stopped fm' = fm_stopped fm"
  by (auto simp: CreateFragment_def Let_def split: prod.splits option.splits sum.splits)

lemma write_entry_stopped: "write_entry t i e fm fs = ((r, fm'), fs') \<Longrightarrow> fm_stopped fm' = fm_stopped fm"
  by (auto simp: write_entry_def set_fragment_def Let_def split: prod.splits option.splits)

lemma WriteMessage_stopped: "Fragment.WriteMessage clk t i p fm fs = ((r, fm'), fs') \<Longrightarrow> fm_stopped fm' = fm_stopped fm"
  by (auto simp: Fragment.WriteMessage_def GetCurrentFragment_def Let_def split: prod.splits sum.splits if_splits
      dest!: CreateFragment_stopped write_entry_stopped)

lemma replay_entry_fresh: "fresh_broker w (fst st) \<Longrightarrow> fresh_broker w (fst (snd (replay_entry clk e st)))"
  by (cases st) (auto simp: replay_entry_def fresh_broker_def CloseTopic_def split: prod.splits option.splits dest!: WriteMessage_stopped)

lemma createNewFile_open:
  "\<not> w_mu w \<Longrightarrow> \<not> w_stopped w \<Longrightarrow>
   \<exists>err w' fs'. createNewFile stamp w fs = Returns ((err, w'), fs') \<and> \<not> w_mu w' \<and> \<not> w_stopped w'"
  by (auto simp: createNewFile_def close_current_def Let_def split: prod.splits option.splits sum.splits)

lemma NewWAL_open:
  "\<exists>r fs'. NewWAL stamp dir limit iv fs = Returns (r, fs') \<and> (\<forall>w. r = Inr w \<longrightarrow> \<not> w_mu w \<and> \<not> w_stopped w)"
proof -
  obtain e fs1 where m: "os_MkdirAll dir fs = (e, fs1)" by (metis prod.exhaust)
  define w0 where "w0 = \<lparr>w_dir = dir, w_currentFile = None, w_currentPath = [], w_mu = False, w_maxFileSize = limit,
    w_flushInterval = iv, w_stopped = False\<rparr>"
  obtain err w' fs' where "createNewFile stamp w0 fs1 = Returns ((err, w'), fs')" "\<not> w_mu w'" "\<not> w_stopped w'"
    using createNewFile_open [of w0 stamp fs1] by (auto simp: w0_def)
  with m show ?thesis by (cases e; cases err) (auto simp: NewWAL_def w0_def)
qed

lemma NewBrokerServer_fresh:
  "\<exists>r fs'. NewBrokerServer stamp clk brokerID address dataDir fs = Returns (r, fs') \<and>
    (\<forall>bs. r = Inr bs \<longrightarrow> (\<exists>w. fresh_broker w bs \<and> \<not> w_mu w \<and> \<not> w_stopped w))"
proof -
  obtain r fs1 where n: "NewWAL stamp (dataDir @ ''/wal'') (128 * 1024 * 1024) (2 * 1000000000) fs = Returns (r, fs1)"
    and w: "\<forall>w. r = Inr w \<longrightarrow> \<not> w_mu w \<and> \<not> w_stopped w"
    using NewWAL_open by blast
  show ?thesis
  proof (cases r)
    case (Inr w0)
    define bs0 where "bs0 = \<lparr>bs_brokerID = brokerID, bs_address = address,
      bs_fm = NewFragmentManager (dataDir @ ''/fragments'') (128 * 1024 * 1024) 10000 (7 * 24 * 3600 * 1000000000), bs_wal = w0,
      bs_rm = SetFragmentManager (NewRaftManager brokerID address), bs_messageCounter = 0,
      bs_topics = [], bs_topicRoles = Map.empty, bs_stopped = False, bs_grpcServer = False\<rparr>"
    have "fresh_broker w0 (fst (bs0, fs1))"
      by (simp add: fresh_broker_def bs0_def NewFragmentManager_def SetFragmentManager_def NewRaftManager_def)
    from Replay_keeps [of "fresh_broker w0" "replay_entry clk", OF replay_entry_fresh this]
    have "fresh_broker w0 (fst (replayWAL clk bs0 fs1))" by (simp add: replayWAL_def)
    with n w Inr show ?thesis by (auto simp: NewBrokerServer_def bs0_def Let_def split: prod.splits)
  qed (use n in \<open>simp add: NewBrokerServer_def Let_def\<close>)
qed

section \<open>Properties\<close>

text \<open>
  C30: How the client program ends, from a fresh process, for every level on the command line and any behaviour of
  files and connections. A producer ends normally exactly if its message was accepted, exits with a fatal message if
  \<^verbatim>\<open>SendMessage\<close> returns an error and hangs if it never returns; it does not panic. A consumer exits if it finds no
  broker. Any other mode panics: the fatal message is printed before the log is open.
\<close>

theorem client_program:
  "case client_main msg cn pn evs sched mode sentinelAddress topic message windowSize logLevel (new_process when fs) w of
     prog \<Rightarrow>
       if mode = ''producer'' then
         (case Client.SendMessage cn topic message (NewProducer sentinelAddress windowSize) w of
            None \<Rightarrow> prog = Hangs
          | Some (Inl err, p, w1) \<Rightarrow> (\<exists>s'. prog = Exits s')
          | Some (Inr messageID, p, w1) \<Rightarrow> (\<exists>s'. prog = Ends w1 s'))
       else if mode = ''consumer'' then
         (\<exists>s'. prog = Exits s') \<longleftrightarrow> (\<exists>err x. StartConsuming cn topic 0 (NewConsumer sentinelAddress windowSize) w = (Inl err, x))
       else prog = Panicked"
proof -
  let ?s = "SetLogLevel logLevel (new_process when fs)"
  have init: "\<not> lg_initialized ?s" "lg_logger ?s = None" by (simp_all add: new_process_def)
  show ?thesis
  proof (cases "mode = ''producer''")
    case True
    obtain s1 s2 where s: "open_log ''logs/producer.log'' ?s = LogReturns () s1" "Infof (msg 0) s1 = LogReturns () s2" "lg_logger s2 \<noteq> None"
      using open_log_open [OF init(1)] open_prints(1) by metis
    obtain s3 s4 where s3: "Infof (msg 2) s2 = LogReturns () s3" "Info (msg 3) s3 = LogReturns () s4"
      using open_prints(1) [OF s(3)] open_prints(2) by metis
    obtain s5 where "Fatalf (msg 1) s2 = LogExits s5" using Fatalf_open [OF s(3)] by blast
    moreover have "producer_Close p = Returns (p\<lparr>pr_stopped := True\<rparr>)"
      if "Client.SendMessage cn topic message (NewProducer sentinelAddress windowSize) w = Some (r, p, w1)" for r p w1
      using SendMessage_life [OF that] by (simp add: same_life_def producer_Close_def NewProducer_def)
    ultimately show ?thesis
      using True s s3 by (auto simp: client_main_def runProducer_def close_producer_def split: option.splits sum.splits prod.splits)
  next
    case not_producer: False
    show ?thesis
    proof (cases "mode = ''consumer''")
      case True
      obtain s1 where s1: "open_log ''logs/consumer.log'' ?s = LogReturns () s1" "lg_logger s1 \<noteq> None"
        using open_log_open [OF init(1)] by blast
      obtain s2 s3 where s2: "Infof (msg 0) s1 = LogReturns () s2" "Info (msg 2) s2 = LogReturns () s3" "lg_logger s3 \<noteq> None"
        using open_prints(1) [OF s1(2)] open_prints(2) by metis
      obtain s4 where "Fatalf (msg 1) s1 = LogExits s4" using Fatalf_open [OF s1(2)] by blast
      with True s1 s2 close_consumer_ends [OF s2(3), of msg cn pn] show ?thesis
        by (auto simp: client_main_def runConsumer_def then_call_exits split: prod.splits sum.splits)
    next
      case False
      with not_producer init(2) show ?thesis by (simp add: client_main_def Fatalf_closed)
    qed
  qed
qed

text \<open>
  C29: How the broker program ends when no request comes before the signal, from a fresh process and for any behaviour of
  the files, old logs included: with a fatal message exactly if its log cannot be created or its port is taken, and
  normally otherwise; it neither panics nor hangs, and it runs at level \<^verbatim>\<open>info\<close> whatever the command line says.
\<close>

theorem broker_program:
  assumes "graceful_waits broker_handler graceful"
  shows "\<exists>s1 r fs1. broker_main_log logLevel brokerID (new_process when fs) = LogReturns () s1 \<and>
    NewBrokerServer stamp clk brokerID address dataDir (lg_fs s1) = Returns (r, fs1) \<and>
    (case broker_main msg stamp clk listen id (graceful []) order order' brokerID address dataDir logLevel (new_process when fs) of
       Ends bs s' \<Rightarrow> \<not> isl r \<and> listen \<and> bs_stopped bs \<and> lg_logLevel s' = INFO
     | Exits s' \<Rightarrow> isl r \<or> \<not> listen
     | _ \<Rightarrow> False)"
proof -
  obtain s1 where s1: "broker_main_log logLevel brokerID (new_process when fs) = LogReturns () s1" "lg_logger s1 \<noteq> None" "lg_logLevel s1 = INFO"
    using broker_log_open by blast
  obtain r fs1 where n: "NewBrokerServer stamp clk brokerID address dataDir (lg_fs s1) = Returns (r, fs1)"
    and fresh: "\<forall>bs. r = Inr bs \<longrightarrow> (\<exists>w. fresh_broker w bs \<and> \<not> w_mu w \<and> \<not> w_stopped w)"
    using NewBrokerServer_fresh by blast
  let ?s2 = "s1\<lparr>lg_fs := fs1\<rparr>"
  obtain s3 s4 where s3: "Infof (msg 2) ?s2 = LogReturns () s3" "Info (msg 3) s3 = LogReturns () s4" "lg_logLevel s4 = INFO"
    using open_prints(1) [of ?s2 "msg 2"] open_prints(2) [of _ "msg 3"] s1(2,3) by auto metis
  obtain s5 s6 where f: "Fatalf (msg 0) ?s2 = LogExits s5" "Fatalf (msg 1) ?s2 = LogExits s6"
    using Fatalf_open [of ?s2] s1(2) by fastforce
  have stop: "\<exists>st. BrokerServer.Stop (graceful []) order order' (bs\<lparr>bs_grpcServer := True\<rparr>) fs' = Returns st \<and> bs_stopped (fst st)"
    if "r = Inr bs" for bs fs'
    using fresh that broker_stop_iff [OF assms, of order order' "bs\<lparr>bs_grpcServer := True\<rparr>" fs'] broker_stop_state [OF assms]
    by (fastforce simp: fresh_broker_def)
  show ?thesis
    using s1 n s3 f stop [of _ "lg_fs s4"] by (cases r; cases listen) (fastforce simp: broker_main_def BrokerServer.Start_def)+
qed

theorem broker_program_witness:
  "\<exists>s'. broker_main (\<lambda>_. ''m'') ''s'' (\<lambda>_. 0) False id (run_all broker_handler []) [] [] ''broker-1'' '':50051'' ''data'' ''debug''
     (new_process (\<lambda>_. (''p '', ''t'')) empty_fs) = Exits s'" (is "\<exists>s'. ?prog = Exits s'")
proof -
  from broker_program [OF run_all_waits, where listen = False and msg = "\<lambda>_. ''m''" and stamp = "''s''" and clk = "\<lambda>_. 0"
      and order = "[]" and order' = "[]" and brokerID = "''broker-1''" and address = "'':50051''" and dataDir = "''data''"
      and logLevel = "''debug''" and ?when = "\<lambda>_. (''p '', ''t'')" and fs = empty_fs]
  show ?thesis by (cases ?prog) auto
qed

text \<open>
  How the sentinel program ends without etcd when no request comes before the signal: with a fatal message if its port is
  taken, and normally otherwise, once the health checker has passed its \<^verbatim>\<open>select\<close> twice after the signal.
\<close>

theorem sentinel_program_ends:
  assumes "graceful_waits (sentinel_handler cl net) graceful" and "2 \<le> length cxs"
  shows "case sentinel_program msg cl conn now listen id (graceful []) (map (\<lambda>(c, x). Pass 0 c x) cxs) sentinelID address logLevel
      False port [] etcd connected (new_process when fs) w of
     Ends p s' \<Rightarrow> listen \<and> sp_stopped p
   | Exits s' \<Rightarrow> \<not> listen
   | _ \<Rightarrow> False"
proof -
  let ?s = "SetLogLevel logLevel (new_process when fs)"
  obtain s1 where s1: "open_log (''logs/sentinel_'' @ sentinelID @ ''.log'') ?s = LogReturns () s1" "lg_logger s1 \<noteq> None"
    using open_log_open [OF new_process_closed] by blast
  then have main: "sentinel_main msg sentinelID logLevel False port [] etcd (new_process when fs) = LogReturns [] s1"
    by (simp add: sentinel_main_def main_endpoints_def Let_def)
  obtain s2 s3 s4 where p: "Infof (msg 5) s1 = LogReturns () s2" "Info (msg 6) s2 = LogReturns () s3" "Fatalf (msg 4) s1 = LogExits s4"
    using open_prints(1) [OF s1(2)] open_prints(2) Fatalf_open [OF s1(2)] by metis
  let ?new = "new_sentinel sentinelID address False w"
  have start: "start_sentinel cl now listen ?new =
      Returns (if listen then (True, ?new\<lparr>sp_grpcServer := True, sp_checker := HealthChecker_Start (sp_checker ?new)\<rparr>) else (False, ?new))"
    by (simp add: start_sentinel_def new_sentinel_def Sentinel.Start_def NewHealthChecker_def new_ticking_def NewSentinelServer_def)
  show ?thesis
  proof (cases listen)
    case True
    with start have "sentinel_life cl net (?new\<lparr>sp_grpcServer := True, sp_checker := HealthChecker_Start (sp_checker ?new)\<rparr>)"
      by (auto intro: sentinel_life.start)
    from stop_sentinel_returns [OF sentinel_life_alive [OF this] assms(2,1), of conn] start True main p
    show ?thesis by (auto simp: sentinel_program_def)
  qed (use start main p in \<open>simp add: sentinel_program_def\<close>)
qed

end
