(* ===== verification/Spec2Isabelle.thy ===== *)
theory Spec2Isabelle
  imports Prelude FileSys HashRing WAL Fragment RaftNode RaftCluster RaftLogs RaftManager BrokerServer Etcd Sentinel Migration
    BrokerStream BrokerReach Client BrokerCore Handlers BrokerConfig Logger Lifecycle Programs
begin

text \<open>
  Verification of goulette, a distributed message queue written in Go.

  The program. Producers and consumers (\<^verbatim>\<open>client/\<close>) ask a sentinel (\<^verbatim>\<open>sentinel/server.go\<close>) which broker leads a
  topic. The sentinel keeps the brokers on a consistent hash ring (\<^verbatim>\<open>internal/utils/hash.go\<close>), watches
  their heartbeats, and shares its decisions with other sentinels through etcd (\<^verbatim>\<open>internal/etcd/etcd.go\<close>). A
  broker (\<^verbatim>\<open>broker/server.go\<close>) logs every message in a write-ahead log (\<^verbatim>\<open>internal/storage/wal.go\<close>),
  proposes it to the Raft group of the topic (\<^verbatim>\<open>internal/raft/\<close>) and keeps it in fragment files
  (\<^verbatim>\<open>internal/storage/fragment.go\<close>), which it can copy to another broker. An older broker keeps the messages of a
  topic in a channel (\<^verbatim>\<open>broker/core/\<close>). The programs start under \<^verbatim>\<open>cmd/\<close> and print through one logger
  (\<^verbatim>\<open>internal/utils/logger.go\<close>).

  The theories and what they model.

  \<^item> \<open>Prelude\<close>: words, times, byte encodings, decimal texts, how a call of a Go function ends
    (\<open>'a call\<close>: it returns, waits for ever, or panics), and the locale of record formats.
  \<^item> \<open>FileSys\<close>: the calls of \<^verbatim>\<open>os\<close> and \<^verbatim>\<open>path/filepath\<close> that the program makes, on a state with
    inodes, open files and a schedule of faults.
  \<^item> \<open>HashRing\<close>: \<^verbatim>\<open>hash.go\<close>, with CRC-32 computed on 32-bit words. The walk that the iterator makes is an
    interface (\<open>node_walk\<close>); its interpretation \<open>ring_walk\<close> is what the sentinel's loops rest on.
  \<^item> \<open>WAL\<close>: \<^verbatim>\<open>wal.go\<close>; the mutex is a field of the state. Entries are a record format, so a log is read back.
  \<^item> \<open>Fragment\<close>: \<^verbatim>\<open>fragment.go\<close>; the manager implements the interface \<open>message_log\<close>.
  \<^item> \<open>RaftNode\<close>: \<^verbatim>\<open>raft.go\<close>, one function for each method; \<open>RaftCluster\<close>: a step relation in which nodes
    exchange messages that may be lost, delayed, doubled and reordered, and the locale \<open>quorums\<close>; \<open>RaftLogs\<close>: what the logs
    of the nodes have in common, with the history of all logs as a ghost.
  \<^item> \<open>Json\<close>, \<open>RaftManager\<close>: \<^verbatim>\<open>manager.go\<close>; messages travel as JSON trees over an unknown network.
  \<^item> \<open>BrokerServer\<close>: \<^verbatim>\<open>broker/server.go\<close> over the three theories before; MD5, the peer and \<^verbatim>\<open>GracefulStop\<close> are
    parameters. \<open>BrokerStream\<close>: the path of accepted messages through log, Raft and fragments, on one file system, and
    a restart after it. \<open>BrokerReach\<close>: every state a broker can reach through all its handlers.
  \<^item> \<open>Etcd\<close>: \<^verbatim>\<open>etcd.go\<close> over an etcd client that is a parameter. \<open>kv_store\<close> states what etcd documents of its
    store, and \<open>mem_client\<close> satisfies it.
  \<^item> \<open>Sentinel\<close>: \<^verbatim>\<open>sentinel/server.go\<close>. Broker objects are shared by pointer, so they live on a heap; etcd and
    the remote brokers are parameters that work on the state of the world.
  \<^item> \<open>Migration\<close>: the sentinel, the brokers and the files together, for the move of a topic to a successor.
  \<^item> \<open>Client\<close>: \<^verbatim>\<open>client/producer.go\<close> and \<^verbatim>\<open>client/consumer.go\<close> over connections that are a parameter. \<open>producer_world\<close> is
    the interface to them; one of its interpretations is a broker of \<open>BrokerServer\<close>.
  \<^item> \<open>BrokerCore\<close>: \<^verbatim>\<open>broker/core/core.go\<close> and \<^verbatim>\<open>persistence.go\<close>, with Go channels as an instance of the interface \<open>fifo\<close>,
    the buffer of \<^verbatim>\<open>bufio\<close> and the directories of the disk; and the token bucket.
  \<^item> \<open>Handlers\<close>: \<^verbatim>\<open>broker/handler.go\<close>, the two goroutines of a producer and of a consumer stream as steps over the core.
    \<open>BrokerConfig\<close>: the configuration and the zap logger of that broker, with YAML and zap as parameters.
  \<^item> \<open>Logger\<close>: \<^verbatim>\<open>logger.go\<close> with the standard output and the log file, and the first steps of the programs.
  \<^item> \<open>Lifecycle\<close>: the background goroutines and how the servers stop. \<open>ticker_loop\<close> is the interface of a loop over a
    \<^verbatim>\<open>select\<close> on a ticker and a stop channel; its four interpretations are the health checker, the election loop of the etcd
    manager, the clean-up of fragments and the flush of the log. \<open>graceful_server\<close> states what gRPC documents of
    \<^verbatim>\<open>GracefulStop\<close>.
  \<^item> \<open>Programs\<close>: the programs under \<^verbatim>\<open>cmd/\<close> from the command line to their end.

  What is shown. Round trips of the file formats and of the copy of a fragment; that the fragment manager is
  a log of messages and that a broker serves that log, also after a restart; election safety and log
  matching of Raft, and the absence of out-of-range reads; the placement laws of the ring; the registry invariant of the
  sentinel in every reachable state, the exact effect of a health check, and that its searches end; exactly which bytes a
  successor gets; that a broker accepts a stream of messages, logs and stores exactly them in order, and serves them again
  after a restart; that its tables of roles agree in every reachable state; that the core is a queue for each topic, what
  its log holds, and that a producer and a consumer stream pass every message on once and in order; that a call of the producer gives its window back; that the logger filters exactly. Across
  components: no producer gets a message accepted by a broker whose Raft nodes talk through the managers, and a consumer
  gets one batch; the servers stop when no handler is under way, and exactly how the programs end. Where the code does
  not do what it means to, a theorem says so: operations that wait for ever are characterised exactly, and behaviours
  that lose data are runs of the model. Log matching needs the goroutines of a leader to send while it leads; a run
  without this breaks it.

  Loops. Every loop is a total function, except the retries of \<open>getNextID\<close> and of the producer's \<open>SendMessage\<close>,
  which may call themselves without end and are partial functions with values in \<open>option\<close>. The consume loop is a
  machine that runs for any sequence of steps. The loops that get a number of rounds (the replay of a file, the
  search for replacements) get at least the length of what they read, and a lemma shows that it is enough.

  Not modelled. Goroutines run handler by handler: a handler is one step, and the locks it takes matter only
  where a call takes the same lock twice. Tickers, random timeouts and the iteration order of Go maps are
  inputs, and so are the schedules of the background goroutines. The parsing of flags, generated protocol code and the
  connection handling of gRPC are left out. The broker package does not compile: \<^verbatim>\<open>broker/handler.go\<close> writes the constant
  \<open>-1\<close> into an unsigned field, which \<open>Handlers\<close> reads as a 64-bit word; the stream methods of \<^verbatim>\<open>broker/service.go\<close> call functions
  that do not exist, and \<^verbatim>\<open>broker/cmd/service.go\<close> imports packages that the repository does not have, so these two have no
  behaviour to model.
\<close>

end
